(* ===== verification/Prelude.thy ===== *)
theory Prelude
  imports Main "HOL-Library.Word"
begin

text \<open>
  Shared vocabulary of the development: the machine types of the Rust sources, Rust's
  \<open>Result\<close>/\<open>Option\<close> combinators on the sum and option types, checked and converting integer
  operations of the standard library, the decimal \<open>Display\<close> of unsigned integers, and the generic
  list lemmas the components share.  The collection \<open>ok_iff\<close> holds the rules that
  turn \<open>computation = Ok value\<close> into facts about its parts.
\<close>

section \<open>Machine types\<close>

type_synonym byte = "8 word"
type_synonym bytes = "byte list"
type_synonym u16 = "16 word"
type_synonym u32 = "32 word"
type_synonym u64 = "64 word"
type_synonym uuid = "128 word"

named_theorems ok_iff

section \<open>Result combinators\<close>

text \<open>\<open>Result<T, E>\<close> is \<open>'e + 'a\<close>: \<open>Inl\<close> the error, \<open>Inr\<close> the value.  The \<open>?\<close> operator
  and \<open>and_then\<close> are \<open>res_bind\<close>.\<close>

definition res_bind :: "'e + 'a \<Rightarrow> ('a \<Rightarrow> 'e + 'b) \<Rightarrow> 'e + 'b" where
  "res_bind m f = (case m of Inl e \<Rightarrow> Inl e | Inr x \<Rightarrow> f x)"

definition map_err :: "('e \<Rightarrow> 'f) \<Rightarrow> 'e + 'a \<Rightarrow> 'f + 'a" where
  "map_err g m = (case m of Inl e \<Rightarrow> Inl (g e) | Inr x \<Rightarrow> Inr x)"

definition ok_or :: "'e \<Rightarrow> 'a option \<Rightarrow> 'e + 'a" where
  "ok_or e v = (case v of None \<Rightarrow> Inl e | Some x \<Rightarrow> Inr x)"

lemma res_bind_simps [simp]:
  "res_bind (Inl e) f = Inl e" "res_bind (Inr x) f = f x"
  by (simp_all add: res_bind_def)

lemma map_err_simps [simp]:
  "map_err g (Inl e) = Inl (g e)" "map_err g (Inr x) = Inr x"
  by (simp_all add: map_err_def)

lemma ok_or_simps [simp]:
  "ok_or e None = Inl e" "ok_or e (Some x) = Inr x"
  by (simp_all add: ok_or_def)

lemma res_bind_ok_iff [ok_iff]:
  "res_bind m f = Inr y \<longleftrightarrow> (\<exists>x. m = Inr x \<and> f x = Inr y)"
  by (cases m) auto

lemma map_err_ok_iff [ok_iff]: "map_err g m = Inr x \<longleftrightarrow> m = Inr x"
  by (cases m) auto

lemma ok_or_ok_iff [ok_iff]: "ok_or e v = Inr x \<longleftrightarrow> v = Some x"
  by (cases v) auto

lemma if_err_ok_iff [ok_iff]: "(if b then Inl e else m) = Inr x \<longleftrightarrow> \<not> b \<and> m = Inr x"
  by simp

section \<open>Integer conversions and checked arithmetic\<close>

definition checked_add :: "'a::len word \<Rightarrow> 'a word \<Rightarrow> 'a word option" where
  "checked_add a b = (if unat a + unat b < 2 ^ LENGTH('a) then Some (a + b) else None)"

definition u64_of_u32 :: "u32 \<Rightarrow> u64" where
  "u64_of_u32 x = ucast x"

definition u32_try_from :: "nat \<Rightarrow> u32 option" where
  "u32_try_from n = (if n < 2 ^ 32 then Some (of_nat n) else None)"

definition i64_try_from :: "u64 \<Rightarrow> int option" where
  "i64_try_from x = (if unat x < 2 ^ 63 then Some (int (unat x)) else None)"

definition i32_try_from :: "nat \<Rightarrow> int option" where
  "i32_try_from n = (if n < 2 ^ 31 then Some (int n) else None)"

lemma checked_add_SomeD: "checked_add a b = Some c \<Longrightarrow> unat c = unat a + unat b"
  by (auto simp: checked_add_def unat_word_ariths split: if_splits)

lemma checked_add_eq_Some_iff:
  fixes a b :: "'a::len word"
  shows "checked_add a b = Some c \<longleftrightarrow> unat a + unat b < 2 ^ LENGTH('a) \<and> unat c = unat a + unat b"
  by (auto simp: checked_add_def unat_word_ariths word_unat_eq_iff split: if_splits)

lemma unat_u64_of_u32 [simp]: "unat (u64_of_u32 x) = unat x"
proof -
  have "unat x < 2 ^ 32" using unsigned_less [of x] by simp
  then show ?thesis by (simp add: u64_of_u32_def unsigned_ucast_eq unsigned_take_bit_eq take_bit_nat_eq_self)
qed

lemma u32_try_from_SomeD: "u32_try_from n = Some x \<Longrightarrow> unat x = n \<and> n < 2 ^ 32"
  by (auto simp: u32_try_from_def unat_of_nat split: if_splits)

lemma u32_try_from_Some: "n < 2 ^ 32 \<Longrightarrow> \<exists>x. u32_try_from n = Some x \<and> unat x = n"
  by (auto simp: u32_try_from_def unat_of_nat)

lemma unat_u32_bound: "unat (x :: u32) < 2 ^ 32"
  using unsigned_less [of x] by simp

lemma unat_u64_bound: "unat (x :: u64) < 2 ^ 64"
  using unsigned_less [of x] by simp

section \<open>Decimal display\<close>

fun show_nat :: "nat \<Rightarrow> string" where
  "show_nat n =
     (if n < 10 then [char_of (48 + n)] else show_nat (n div 10) @ [char_of (48 + n mod 10)])"

declare show_nat.simps [simp del]

section \<open>Lists\<close>

text \<open>\<open>prefix_sum f xs i\<close> is the sum of \<open>f\<close> over the first \<open>i\<close> elements: the byte offset at
  which the \<open>i\<close>-th chunk of a gap-free sequence starts.\<close>

definition prefix_sum :: "('a \<Rightarrow> nat) \<Rightarrow> 'a list \<Rightarrow> nat \<Rightarrow> nat" where
  "prefix_sum f xs i = sum_list (map f (take i xs))"

lemma prefix_sum_0 [simp]: "prefix_sum f xs 0 = 0"
  by (simp add: prefix_sum_def)

lemma prefix_sum_Cons_Suc [simp]: "prefix_sum f (x # xs) (Suc i) = f x + prefix_sum f xs i"
  by (simp add: prefix_sum_def)

lemma prefix_sum_length [simp]: "prefix_sum f xs (length xs) = sum_list (map f xs)"
  by (simp add: prefix_sum_def)

lemma prefix_sum_Suc:
  "i < length xs \<Longrightarrow> prefix_sum f xs (Suc i) = prefix_sum f xs i + f (xs ! i)"
  by (simp add: prefix_sum_def take_Suc_conv_app_nth)

lemma prefix_sum_mono: "i \<le> j \<Longrightarrow> prefix_sum f xs i \<le> prefix_sum f xs j"
proof -
  assume "i \<le> j"
  then have "take j xs = take i xs @ take (j - i) (drop i xs)"
    by (simp add: take_add [symmetric])
  then show ?thesis by (simp add: prefix_sum_def)
qed

lemma prefix_sum_interval_unique:
  assumes i: "i < length xs" and j: "j < length xs"
    and "prefix_sum f xs i \<le> p" "p < prefix_sum f xs i + f (xs ! i)"
    and "prefix_sum f xs j \<le> p" "p < prefix_sum f xs j + f (xs ! j)"
  shows "i = j"
proof (rule ccontr)
  assume "i \<noteq> j"
  then consider "Suc i \<le> j" | "Suc j \<le> i" by linarith
  then show False
  proof cases
    case 1
    then have "prefix_sum f xs i + f (xs ! i) \<le> prefix_sum f xs j"
      using prefix_sum_mono [of "Suc i" j f xs] i by (simp add: prefix_sum_Suc)
    then show False using assms by linarith
  next
    case 2
    then have "prefix_sum f xs j + f (xs ! j) \<le> prefix_sum f xs i"
      using prefix_sum_mono [of "Suc j" i f xs] j by (simp add: prefix_sum_Suc)
    then show False using assms by linarith
  qed
qed

lemma prefix_sum_interval_exists:
  assumes "p < sum_list (map f xs)"
  shows "\<exists>i < length xs. prefix_sum f xs i \<le> p \<and> p < prefix_sum f xs i + f (xs ! i)"
  using assms
proof (induction xs arbitrary: p)
  case Nil
  then show ?case by simp
next
  case (Cons x xs)
  show ?case
  proof (cases "p < f x")
    case True
    then show ?thesis by (intro exI [of _ 0]) simp
  next
    case False
    with Cons.prems have "p - f x < sum_list (map f xs)" by simp
    then obtain i where i: "i < length xs" "prefix_sum f xs i \<le> p - f x"
      "p - f x < prefix_sum f xs i + f (xs ! i)"
      using Cons.IH by blast
    then show ?thesis using False by (intro exI [of _ "Suc i"]) auto
  qed
qed

lemma sum_list_lower_bound:
  assumes "\<And>x. x \<in> set xs \<Longrightarrow> (c::nat) \<le> f x"
  shows "length xs * c \<le> sum_list (map f xs)"
  using assms
proof (induction xs)
  case (Cons x xs)
  then have "length xs * c \<le> sum_list (map f xs)" "c \<le> f x" by auto
  then show ?case by simp
qed simp

lemma sum_list_upper_bound:
  assumes "\<And>x. x \<in> set xs \<Longrightarrow> f x \<le> (c::nat)"
  shows "sum_list (map f xs) \<le> length xs * c"
  using assms
proof (induction xs)
  case (Cons x xs)
  then have "sum_list (map f xs) \<le> length xs * c" "f x \<le> c" by auto
  then show ?case by simp
qed simp

lemma count_list_map: "count_list (map f xs) y = length (filter (\<lambda>x. f x = y) xs)"
  by (induction xs) auto

lemma find_SomeD: "find P xs = Some x \<Longrightarrow> x \<in> set xs \<and> P x"
  by (auto simp: find_Some_iff in_set_conv_nth)

text \<open>A separator that occurs in neither prefix splits a concatenation uniquely.\<close>

lemma append_separator_eq:
  assumes "xs @ c # ys = xs' @ c # ys'" "c \<notin> set xs" "c \<notin> set xs'"
  shows "xs = xs' \<and> ys = ys'"
  using assms
proof (induction xs arbitrary: xs')
  case Nil
  then show ?case by (cases xs') auto
next
  case (Cons x xs)
  then show ?case by (cases xs') auto
qed

section \<open>Prefixes\<close>

text \<open>\<open>str::strip_prefix\<close>.\<close>

definition strip_prefix :: "string \<Rightarrow> string \<Rightarrow> string option" where
  "strip_prefix p s = (if take (length p) s = p then Some (drop (length p) s) else None)"

lemma strip_prefix_Some: "strip_prefix p s = Some r \<longleftrightarrow> s = p @ r"
  by (auto simp: strip_prefix_def) (metis append_take_drop_id)

lemma strip_prefix_None: "strip_prefix p s = None \<longleftrightarrow> (\<nexists>r. s = p @ r)"
  using strip_prefix_Some by (metis option.exhaust option.distinct(1))

end
