(* ===== verification/Digest.thy ===== *)
theory Digest
  imports Prelude "HOL-Library.List_Lexorder"
begin

text \<open>
  \<open>crates/git-lfs-delta-core/src/digest.rs\<close>: the 256-bit identities \<open>ChunkId\<close> (BLAKE3) and
  \<open>ObjectOid\<close> (SHA-256).  The macro \<open>digest_type!\<close> generates the same code for both, so both are
  the type \<open>digest\<close> of 32-byte arrays.  The \<open>hex\<close>, \<open>sha2\<close> and \<open>blake3\<close> crates are parameters
  (the record \<open>digest_deps\<close>); what the code relies on of \<open>hex\<close> is the locale \<open>hex_codec\<close>; it follows from the documentation
  of the crate's two functions (the locale \<open>hex_crate\<close>), which the textbook hexadecimal codec satisfies.
\<close>

section \<open>The type of 32-byte digests\<close>

typedef digest = "{bs :: bytes. length bs = 32}"
  morphisms as_bytes Abs_digest
  by (rule exI [of _ "replicate 32 0"]) simp

lemma digest_abstype [code abstype]: "Abs_digest (as_bytes d) = d"
  by (rule as_bytes_inverse)

type_synonym chunk_id = digest
type_synonym object_oid = digest

text \<open>\<open>from_bytes\<close> takes a \<open>[u8; 32]\<close>; on lists of another length the model pads or cuts.\<close>

definition from_bytes :: "bytes \<Rightarrow> digest" where
  "from_bytes bs = Abs_digest (take 32 (bs @ replicate 32 0))"

lemma as_bytes_from_bytes_pad [code abstract]:
  "as_bytes (from_bytes bs) = take 32 (bs @ replicate 32 0)"
  by (simp add: from_bytes_def Abs_digest_inverse)

text \<open>\<open><[u8; 32]>::try_from(slice)\<close> followed by \<open>from_bytes\<close>, as the garbage collector reads
  identities back from the database.\<close>

definition digest_try_from :: "bytes \<Rightarrow> digest option" where
  "digest_try_from bs = (if length bs = 32 then Some (from_bytes bs) else None)"

lemma as_bytes_length [simp]: "length (as_bytes d) = 32"
  using as_bytes [of d] by simp

lemma as_bytes_from_bytes: "length bs = 32 \<Longrightarrow> as_bytes (from_bytes bs) = bs"
  by (simp add: as_bytes_from_bytes_pad)

lemma from_bytes_as_bytes [simp]: "from_bytes (as_bytes d) = d"
  by (metis as_bytes_from_bytes as_bytes_inject as_bytes_length)

lemma digest_try_from_as_bytes [simp]: "digest_try_from (as_bytes d) = Some d"
  by (simp add: digest_try_from_def)

lemma from_bytes_eq_iff:
  "length a = 32 \<Longrightarrow> length b = 32 \<Longrightarrow> from_bytes a = from_bytes b \<longleftrightarrow> a = b"
  by (metis as_bytes_from_bytes)

text \<open>The derived \<open>Eq\<close> and \<open>Ord\<close> compare the arrays lexicographically.\<close>

instantiation digest :: equal
begin

definition equal_digest :: "digest \<Rightarrow> digest \<Rightarrow> bool" where
  "equal_digest a b \<longleftrightarrow> as_bytes a = as_bytes b"

instance
  by standard (simp add: equal_digest_def as_bytes_inject)

end

instantiation digest :: linorder
begin

definition less_eq_digest :: "digest \<Rightarrow> digest \<Rightarrow> bool" where
  "less_eq_digest a b \<longleftrightarrow> as_bytes a \<le> as_bytes b"

definition less_digest :: "digest \<Rightarrow> digest \<Rightarrow> bool" where
  "less_digest a b \<longleftrightarrow> as_bytes a < as_bytes b"

instance
proof
  fix x y z :: digest
  show "x < y \<longleftrightarrow> x \<le> y \<and> \<not> y \<le> x"
    unfolding less_eq_digest_def less_digest_def by (rule less_le_not_le)
  show "x \<le> x" unfolding less_eq_digest_def by (rule order_refl)
  show "x \<le> z" if "x \<le> y" "y \<le> z"
    using that unfolding less_eq_digest_def by (rule order_trans)
  show "x = y" if "x \<le> y" "y \<le> x"
    using order_antisym that unfolding less_eq_digest_def by (blast dest: as_bytes_inject [THEN iffD1])
  show "x \<le> y \<or> y \<le> x" unfolding less_eq_digest_def by (rule linear)
qed

end

text \<open>A digest whose bytes are all equal, for concrete examples.\<close>

definition digest_fill :: "byte \<Rightarrow> digest" where
  "digest_fill b = from_bytes (replicate 32 b)"

lemma as_bytes_digest_fill [simp]: "as_bytes (digest_fill b) = replicate 32 b"
  by (simp add: digest_fill_def as_bytes_from_bytes)

lemma digest_fill_eq_iff [simp]: "digest_fill a = digest_fill b \<longleftrightarrow> a = b"
  by (auto simp: digest_fill_def from_bytes_eq_iff)

section \<open>Third-party hashing and hexadecimal functions\<close>

datatype from_hex_error = InvalidHexCharacter char nat | OddLength | InvalidStringLength

record digest_deps =
  sha256 :: "bytes \<Rightarrow> digest"
  blake3 :: "bytes \<Rightarrow> digest"
  hex_encode :: "bytes \<Rightarrow> string"
  hex_decode_to_slice :: "string \<Rightarrow> nat \<Rightarrow> from_hex_error + bytes"

text \<open>ASCII lower-casing, to state that upper-case digests are accepted.\<close>

definition ascii_lower :: "char \<Rightarrow> char" where
  "ascii_lower c =
     (case map_of (zip ''ABCDEFGHIJKLMNOPQRSTUVWXYZ'' ''abcdefghijklmnopqrstuvwxyz'') c of
        None \<Rightarrow> c | Some l \<Rightarrow> l)"

definition hex_alphabet :: string where
  "hex_alphabet = ''0123456789abcdef''"

locale hex_codec =
  fixes encode :: "bytes \<Rightarrow> string"
    and decode_to_slice :: "string \<Rightarrow> nat \<Rightarrow> from_hex_error + bytes"
  assumes encode_length: "length (encode bs) = 2 * length bs"
    and encode_alphabet: "set (encode bs) \<subseteq> set hex_alphabet"
    and decode_encode: "decode_to_slice (encode bs) (length bs) = Inr bs"
    and decode_length: "decode_to_slice s n = Inr bs \<Longrightarrow> length bs = n"
    and decode_canonical: "decode_to_slice s n = Inr bs \<Longrightarrow> encode bs = map ascii_lower s"
begin

lemma encode_inj: "encode a = encode b \<Longrightarrow> a = b"
proof -
  assume eq: "encode a = encode b"
  then have "length a = length b"
    using encode_length [of a] encode_length [of b] by simp
  then have "Inr a = (Inr b :: from_hex_error + bytes)"
    using eq decode_encode [of a] decode_encode [of b] by metis
  then show "a = b" by simp
qed

lemma encode_no_slash: "CHR ''/'' \<notin> set (encode bs)"
proof -
  have "CHR ''/'' \<notin> set hex_alphabet" by (simp add: hex_alphabet_def)
  then show ?thesis using encode_alphabet [of bs] by blast
qed

end

section \<open>Parsing and printing\<close>

datatype digest_parse_error = Length nat | Hex from_hex_error

text \<open>\<open>impl Display\<close>: \<open>hex::encode(self.0)\<close>.\<close>

definition to_string :: "'m digest_deps_scheme \<Rightarrow> digest \<Rightarrow> string" where
  "to_string D d = hex_encode D (as_bytes d)"

text \<open>\<open>impl FromStr\<close>: the length test first, then \<open>hex::decode_to_slice\<close> into 32 bytes.\<close>

definition from_str :: "'m digest_deps_scheme \<Rightarrow> string \<Rightarrow> digest_parse_error + digest" where
  "from_str D value =
     (if length value \<noteq> 64 then Inl (Length (length value))
      else res_bind (map_err Hex (hex_decode_to_slice D value 32)) (\<lambda>bytes. Inr (from_bytes bytes)))"

text \<open>\<open>Serialize\<close> writes the display text; \<open>Deserialize\<close> parses a string, with the parse error as
  a custom serde error.\<close>

definition serialize_digest :: "'m digest_deps_scheme \<Rightarrow> digest \<Rightarrow> string" where
  "serialize_digest D d = to_string D d"

definition deserialize_digest :: "'m digest_deps_scheme \<Rightarrow> string \<Rightarrow> digest_parse_error + digest" where
  "deserialize_digest D value = from_str D value"

section \<open>The reference hexadecimal codec\<close>

definition hex_digit :: "nat \<Rightarrow> char" where
  "hex_digit n = hex_alphabet ! n"

definition hex_table :: "(char \<times> nat) list" where
  "hex_table = zip hex_alphabet [0,1,2,3,4,5,6,7,8,9,10,11,12,13,14,15] @
     zip ''ABCDEF'' [10,11,12,13,14,15]"

definition hex_value :: "char \<Rightarrow> nat option" where
  "hex_value c = map_of hex_table c"

definition encode_ref :: "bytes \<Rightarrow> string" where
  "encode_ref bs = concat (map (\<lambda>b. [hex_digit (unat b div 16), hex_digit (unat b mod 16)]) bs)"

fun decode_pairs :: "nat \<Rightarrow> string \<Rightarrow> from_hex_error + bytes" where
  "decode_pairs i [] = Inr []"
| "decode_pairs i [c] = Inl OddLength"
| "decode_pairs i (c # d # cs) =
     (case hex_value c of
        None \<Rightarrow> Inl (InvalidHexCharacter c i)
      | Some h \<Rightarrow> (case hex_value d of
            None \<Rightarrow> Inl (InvalidHexCharacter d (i + 1))
          | Some l \<Rightarrow> res_bind (decode_pairs (i + 2) cs) (\<lambda>bs. Inr (of_nat (16 * h + l) # bs))))"

definition decode_ref :: "string \<Rightarrow> nat \<Rightarrow> from_hex_error + bytes" where
  "decode_ref s n =
     (if odd (length s) then Inl OddLength
      else if length s div 2 \<noteq> n then Inl InvalidStringLength
      else decode_pairs 0 s)"

lemma hex_digit_cases:
  assumes "n < 16"
  shows "hex_value (hex_digit n) = Some n" "hex_digit n \<in> set hex_alphabet"
proof -
  have "n \<in> set [0..<16]" using assms by simp
  then have "hex_value (hex_digit n) = Some n \<and> hex_digit n \<in> set hex_alphabet"
    by (simp add: upt_rec) (elim disjE; simp add: hex_value_def hex_table_def hex_digit_def hex_alphabet_def)
  then show "hex_value (hex_digit n) = Some n" "hex_digit n \<in> set hex_alphabet" by simp_all
qed

lemma hex_value_lower:
  assumes "hex_value c = Some h"
  shows "h < 16 \<and> hex_digit h = ascii_lower c"
proof -
  have "(c, h) \<in> set hex_table" using assms unfolding hex_value_def by (rule map_of_SomeD)
  then show ?thesis
    by (simp add: hex_table_def hex_alphabet_def)
      (elim disjE; simp add: hex_digit_def hex_alphabet_def ascii_lower_def)
qed

lemma unat_byte_split: "unat (b :: byte) div 16 < 16" "of_nat (16 * (unat b div 16) + unat b mod 16) = b"
proof -
  have "unat b < 256" using unsigned_less [of b] by simp
  then show "unat b div 16 < 16" by simp
  show "of_nat (16 * (unat b div 16) + unat b mod 16) = b"
    by (simp add: mult_div_mod_eq del: of_nat_add of_nat_mult)
qed

lemma unat_byte_join:
  assumes "h < 16" "l < 16"
  shows "unat (of_nat (16 * h + l) :: byte) div 16 = h \<and> unat (of_nat (16 * h + l) :: byte) mod 16 = l"
proof -
  have "16 * h + l < 256" using assms by simp
  then have "unat (of_nat (16 * h + l) :: byte) = 16 * h + l" by (simp add: unat_of_nat del: of_nat_add of_nat_mult)
  then show ?thesis using assms by simp
qed

lemma length_encode_ref: "length (encode_ref bs) = 2 * length bs"
  by (induction bs) (simp_all add: encode_ref_def)

text \<open>The \<open>hex\<close> crate as it documents its two functions, each on its own.  \<open>encode\<close> writes two lower-case digits per byte, the high one first;
  \<open>decode_to_slice\<close> succeeds exactly on texts of twice the slice's length that consist of digits of either case, and each pair of digits is the value of a byte.\<close>

locale hex_crate =
  fixes encode :: "bytes \<Rightarrow> string"
    and decode_to_slice :: "string \<Rightarrow> nat \<Rightarrow> from_hex_error + bytes"
  assumes encode_size: "length (encode bs) = 2 * length bs"
    and encode_digits: "i < length bs \<Longrightarrow> encode bs ! (2 * i) = hex_digit (unat (bs ! i) div 16) \<and> encode bs ! (2 * i + 1) = hex_digit (unat (bs ! i) mod 16)"
    and decode_digits: "decode_to_slice s n = Inr bs \<longleftrightarrow> length s = 2 * n \<and> length bs = n
      \<and> (\<forall>i < n. \<exists>h l. hex_value (s ! (2 * i)) = Some h \<and> hex_value (s ! (2 * i + 1)) = Some l \<and> bs ! i = of_nat (16 * h + l))"
begin

lemma decode_encoded: "decode_to_slice (encode bs) (length bs) = Inr bs"
  unfolding decode_digits
proof (intro conjI allI impI)
  fix i assume i: "i < length bs"
  have "unat (bs ! i) mod 16 < 16" by simp
  then show "\<exists>h l. hex_value (encode bs ! (2 * i)) = Some h \<and> hex_value (encode bs ! (2 * i + 1)) = Some l \<and> bs ! i = of_nat (16 * h + l)"
    using encode_digits [OF i] unat_byte_split [of "bs ! i"] hex_digit_cases(1) by metis
qed (simp_all add: encode_size)

lemma encode_decoded:
  assumes "decode_to_slice s n = Inr bs"
  shows "encode bs = map ascii_lower s"
proof (rule nth_equalityI)
  have n: "length s = 2 * n" "length bs = n" using assms unfolding decode_digits by auto
  then show "length (encode bs) = length (map ascii_lower s)" by (simp add: encode_size)
  fix k assume "k < length (encode bs)"
  then have k: "k div 2 < n" "k < length s" using n by (simp_all add: encode_size)
  then obtain h l where d: "hex_value (s ! (2 * (k div 2))) = Some h" "hex_value (s ! (2 * (k div 2) + 1)) = Some l" "bs ! (k div 2) = of_nat (16 * h + l)"
    using assms unfolding decode_digits by blast
  have u: "unat (bs ! (k div 2)) div 16 = h \<and> unat (bs ! (k div 2)) mod 16 = l" unfolding d(3) by (rule unat_byte_join) (use hex_value_lower d in auto)
  have e: "encode bs ! (2 * (k div 2)) = hex_digit h" "encode bs ! (2 * (k div 2) + 1) = hex_digit l" using encode_digits [of "k div 2" bs] k(1) n u by auto
  show "encode bs ! k = map ascii_lower s ! k"
  proof (cases "even k")
    case True
    then have "2 * (k div 2) = k" by simp
    then show ?thesis using e(1) d(1) hex_value_lower k(2) by simp
  next
    case False
    then have "2 * (k div 2) + 1 = k" by simp
    then show ?thesis using e(2) d(2) hex_value_lower k(2) by simp
  qed
qed

lemma decode_total:
  assumes "length s = 2 * n" "list_all (\<lambda>c. hex_value c \<noteq> None) s"
  shows "\<exists>bs. decode_to_slice s n = Inr bs"
proof -
  define bs where "bs = map (\<lambda>i. of_nat (16 * the (hex_value (s ! (2 * i))) + the (hex_value (s ! (2 * i + 1)))) :: byte) [0..<n]"
  have "\<exists>h l. hex_value (s ! (2 * i)) = Some h \<and> hex_value (s ! (2 * i + 1)) = Some l \<and> bs ! i = of_nat (16 * h + l)" if "i < n" for i
  proof -
    have "hex_value (s ! (2 * i)) \<noteq> None" "hex_value (s ! (2 * i + 1)) \<noteq> None" using assms that by (simp_all add: list_all_length)
    then show ?thesis using that by (auto simp: bs_def)
  qed
  moreover have "length bs = n" by (simp add: bs_def)
  ultimately show ?thesis using assms(1) unfolding decode_digits by blast
qed

lemma decode_hex: "decode_to_slice s n = Inr bs \<Longrightarrow> list_all (\<lambda>c. hex_value c \<noteq> None) s"
  unfolding decode_digits list_all_length
proof (intro allI impI)
  fix k assume a: "length s = 2 * n \<and> length bs = n \<and> (\<forall>i < n. \<exists>h l. hex_value (s ! (2 * i)) = Some h \<and> hex_value (s ! (2 * i + 1)) = Some l
      \<and> bs ! i = of_nat (16 * h + l))" and k: "k < length s"
  then have "k div 2 < n" by simp
  with a obtain h l where d: "hex_value (s ! (2 * (k div 2))) = Some h" "hex_value (s ! (2 * (k div 2) + 1)) = Some l" by blast
  show "hex_value (s ! k) \<noteq> None" by (cases "even k") (use d in \<open>auto elim!: evenE oddE\<close>)
qed

lemma encode_alphabet: "set (encode bs) \<subseteq> set hex_alphabet"
proof
  fix c assume "c \<in> set (encode bs)"
  then obtain k where k: "k < 2 * length bs" "c = encode bs ! k" by (metis in_set_conv_nth encode_size)
  have "encode bs ! (2 * (k div 2)) \<in> set hex_alphabet" "encode bs ! (2 * (k div 2) + 1) \<in> set hex_alphabet"
    using encode_digits [of "k div 2" bs] k(1) unat_byte_split(1) hex_digit_cases(2) by auto
  then show "c \<in> set hex_alphabet" using k(2) by (cases "even k") (auto elim!: evenE oddE)
qed

end

sublocale hex_crate \<subseteq> codec: hex_codec encode decode_to_slice
proof
  fix bs s n
  show "length (encode bs) = 2 * length bs" by (rule encode_size)
  show "set (encode bs) \<subseteq> set hex_alphabet" by (rule encode_alphabet)
  show "decode_to_slice (encode bs) (length bs) = Inr bs" by (rule decode_encoded)
  show "length bs = n" if "decode_to_slice s n = Inr bs" using that unfolding decode_digits by simp
  show "encode bs = map ascii_lower s" if "decode_to_slice s n = Inr bs" by (rule encode_decoded [OF that])
qed

context hex_crate
begin

lemma is_codec: "hex_codec encode decode_to_slice"
  by (rule codec.hex_codec_axioms)

end

lemma encode_ref_nth:
  "i < length bs \<Longrightarrow> encode_ref bs ! (2 * i) = hex_digit (unat (bs ! i) div 16) \<and> encode_ref bs ! (2 * i + 1) = hex_digit (unat (bs ! i) mod 16)"
proof (induction bs arbitrary: i)
  case (Cons b bs)
  then show ?case by (cases i) (simp_all add: encode_ref_def)
qed simp

lemma decode_pairs_digits:
  "decode_pairs k s = Inr bs \<longleftrightarrow> length s = 2 * length bs
     \<and> (\<forall>i < length bs. \<exists>h l. hex_value (s ! (2 * i)) = Some h \<and> hex_value (s ! (2 * i + 1)) = Some l \<and> bs ! i = of_nat (16 * h + l))"
proof (induction k s arbitrary: bs rule: decode_pairs.induct)
  case (2 k c)
  have "Suc 0 \<noteq> 2 * length bs" by presburger
  then show ?case by simp
next
  case (3 k c d cs)
  show ?case
  proof (cases bs)
    case Nil
    then show ?thesis by (auto simp: ok_iff split: option.splits)
  next
    case (Cons b bs')
    have "decode_pairs k (c # d # cs) = Inr bs \<longleftrightarrow>
        (\<exists>h l. hex_value c = Some h \<and> hex_value d = Some l \<and> b = of_nat (16 * h + l) \<and> decode_pairs (k + 2) cs = Inr bs')"
      using Cons by (auto simp: ok_iff split: option.splits)
    also have "\<dots> \<longleftrightarrow> (\<exists>h l. hex_value c = Some h \<and> hex_value d = Some l \<and> b = of_nat (16 * h + l)) \<and> length cs = 2 * length bs'
        \<and> (\<forall>i < length bs'. \<exists>h l. hex_value (cs ! (2 * i)) = Some h \<and> hex_value (cs ! (2 * i + 1)) = Some l \<and> bs' ! i = of_nat (16 * h + l))"
      using "3.IH" by blast
    also have "\<dots> \<longleftrightarrow> length (c # d # cs) = 2 * length bs \<and> (\<forall>i < length bs. \<exists>h l. hex_value ((c # d # cs) ! (2 * i)) = Some h
        \<and> hex_value ((c # d # cs) ! (2 * i + 1)) = Some l \<and> bs ! i = of_nat (16 * h + l))"
      unfolding Cons by (simp add: All_less_Suc2) blast
    finally show ?thesis .
  qed
qed auto

interpretation ref_hex: hex_crate encode_ref decode_ref
proof
  fix bs s n and i :: nat
  show "length (encode_ref bs) = 2 * length bs" by (rule length_encode_ref)
  show "encode_ref bs ! (2 * i) = hex_digit (unat (bs ! i) div 16) \<and> encode_ref bs ! (2 * i + 1) = hex_digit (unat (bs ! i) mod 16)" if "i < length bs"
    using that by (rule encode_ref_nth)
  show "decode_ref s n = Inr bs \<longleftrightarrow> length s = 2 * n \<and> length bs = n
      \<and> (\<forall>i < n. \<exists>h l. hex_value (s ! (2 * i)) = Some h \<and> hex_value (s ! (2 * i + 1)) = Some l \<and> bs ! i = of_nat (16 * h + l))"
    by (cases "length s = 2 * n") (auto simp: decode_ref_def decode_pairs_digits elim!: evenE)
qed

text \<open>A concrete set of dependencies: the reference codec and two simple digest functions.\<close>

definition ref_digest_deps :: digest_deps where
  "ref_digest_deps = \<lparr>sha256 = (\<lambda>bs. from_bytes bs), blake3 = (\<lambda>bs. from_bytes (rev bs)),
     hex_encode = encode_ref, hex_decode_to_slice = decode_ref\<rparr>"

lemma ref_digest_deps_hex [simp]:
  "hex_codec (hex_encode ref_digest_deps) (hex_decode_to_slice ref_digest_deps)"
  by (simp add: ref_digest_deps_def ref_hex.codec.hex_codec_axioms)

lemma ref_digest_deps_crate: "hex_crate (hex_encode ref_digest_deps) (hex_decode_to_slice ref_digest_deps)"
  by (simp add: ref_digest_deps_def ref_hex.hex_crate_axioms)

section \<open>Round trip\<close>

lemma from_str_to_string:
  assumes "hex_codec (hex_encode D) (hex_decode_to_slice D)"
  shows "from_str D (to_string D d) = Inr d"
  using hex_codec.encode_length [OF assms, of "as_bytes d"] hex_codec.decode_encode [OF assms, of "as_bytes d"]
  by (simp add: from_str_def to_string_def)

lemma from_str_canonical:
  assumes "hex_codec (hex_encode D) (hex_decode_to_slice D)" "from_str D s = Inr d"
  shows "length s = 64 \<and> to_string D d = map ascii_lower s"
proof -
  from assms(2) obtain bs where s: "length s = 64" "hex_decode_to_slice D s 32 = Inr bs" "d = from_bytes bs"
    by (auto simp: from_str_def ok_iff split: if_splits)
  then show ?thesis
    using hex_codec.decode_length [OF assms(1) s(2)] hex_codec.decode_canonical [OF assms(1) s(2)]
    by (simp add: to_string_def as_bytes_from_bytes)
qed

lemma to_string_inj:
  assumes "hex_codec (hex_encode D) (hex_decode_to_slice D)" "to_string D a = to_string D b"
  shows "a = b"
  by (metis assms from_str_to_string sum.inject(2))

lemma to_string_length:
  "hex_codec (hex_encode D) (hex_decode_to_slice D) \<Longrightarrow> length (to_string D d) = 64"
  by (simp add: to_string_def hex_codec.encode_length)

lemma to_string_no_slash:
  "hex_codec (hex_encode D) (hex_decode_to_slice D) \<Longrightarrow> CHR ''/'' \<notin> set (to_string D d)"
  by (simp add: to_string_def hex_codec.encode_no_slash)

text \<open>Claim C14: the text form of a digest.  A digest printed and parsed back (through \<open>Display\<close> and \<open>FromStr\<close>, and so through serde) is unchanged.  The accepted
  texts are exactly those of 64 hexadecimal digits of either case, and the digest they give prints as the text in lower case; so two texts
  denote the same digest exactly if they differ only in case.  Every other text is rejected: by its length when that is not 64, and
  as invalid hexadecimal otherwise.  Of the \<open>hex\<close> crate only the two functions' own documentation is used.\<close>

theorem digest_text_roundtrip:
  assumes "hex_crate (hex_encode D) (hex_decode_to_slice D)"
  shows "deserialize_digest D (serialize_digest D d) = Inr d
    \<and> (if length s \<noteq> 64 then from_str D s = Inl (Length (length s))
       else if list_all (\<lambda>c. hex_value c \<noteq> None) s then \<exists>e. from_str D s = Inr e \<and> to_string D e = map ascii_lower s
       else \<exists>e. from_str D s = Inl (Hex e))"
proof
  have codec: "hex_codec (hex_encode D) (hex_decode_to_slice D)" by (rule hex_crate.is_codec [OF assms])
  show "deserialize_digest D (serialize_digest D d) = Inr d"
    unfolding deserialize_digest_def serialize_digest_def by (rule from_str_to_string [OF codec])
  show "if length s \<noteq> 64 then from_str D s = Inl (Length (length s))
       else if list_all (\<lambda>c. hex_value c \<noteq> None) s then \<exists>e. from_str D s = Inr e \<and> to_string D e = map ascii_lower s
       else \<exists>e. from_str D s = Inl (Hex e)"
  proof (cases "length s = 64")
    case True
    show ?thesis
    proof (cases "hex_decode_to_slice D s 32")
      case (Inl e)
      then have "from_str D s = Inl (Hex e)" using True by (simp add: from_str_def)
      moreover have "\<not> list_all (\<lambda>c. hex_value c \<noteq> None) s" using hex_crate.decode_total [OF assms, of s 32] Inl True by auto
      ultimately show ?thesis using True by simp
    next
      case (Inr bs)
      then have r: "from_str D s = Inr (from_bytes bs)" using True by (simp add: from_str_def)
      have "list_all (\<lambda>c. hex_value c \<noteq> None) s" by (rule hex_crate.decode_hex [OF assms Inr])
      then show ?thesis using True r from_str_canonical [OF codec r] by simp
    qed
  qed (simp add: from_str_def)
qed

theorem digest_text_roundtrip_witness:
  "deserialize_digest ref_digest_deps (serialize_digest ref_digest_deps (digest_fill 171)) =
     Inr (digest_fill 171)
   \<and> from_str ref_digest_deps ''abc'' = Inl (Length 3)"
  using digest_text_roundtrip [OF ref_digest_deps_crate, of "digest_fill 171" "''abc''"]
  by simp

end
