(* ===== verification/Manifest.thy ===== *)
theory Manifest
  imports Digest
begin

text \<open>
  \<open>crates/git-lfs-delta-core/src/profile.rs\<close> and \<open>manifest.rs\<close>: chunking profiles, object
  manifests and \<open>ObjectManifest::validate\<close>.  Offsets and object sizes are 64-bit words, chunk
  lengths 32-bit words, as in the source; \<open>usize\<close> counts (list lengths, indexes) are natural
  numbers.  \<open>well_formed\<close> is the abstract specification of a valid manifest; it does not
  mention the descriptor limit, which the theorems show to be implied.
\<close>

section \<open>Chunking profile\<close>

datatype chunking_profile = FastCdcV1

definition beta_v1 :: chunking_profile where
  "beta_v1 = FastCdcV1"

fun sizes :: "chunking_profile \<Rightarrow> nat \<times> nat \<times> nat" where
  "sizes FastCdcV1 = (512 * 1024, 2 * 1024 * 1024, 8 * 1024 * 1024)"

section \<open>Manifest data\<close>

definition MAX_OBJECT_SIZE :: u64 where
  "MAX_OBJECT_SIZE = 100 * 1024 * 1024 * 1024"

definition MAX_CHUNK_DESCRIPTORS :: nat where
  "MAX_CHUNK_DESCRIPTORS = 204800"

datatype manifest_version = V1

record chunk_descriptor =
  cd_id :: chunk_id
  cd_offset :: u64
  cd_length :: u32

record object_manifest =
  version :: manifest_version
  profile :: chunking_profile
  object_oid :: object_oid
  object_size :: u64
  chunks :: "chunk_descriptor list"

datatype manifest_error =
    ObjectTooLarge u64 u64
  | TooManyChunks nat nat
  | EmptyChunk nat
  | ChunkTooSmall nat u32 u32
  | ChunkTooLarge nat u32 u32
  | UnexpectedOffset nat u64 u64
  | SizeOverflow
  | SizeMismatch u64 u64

text \<open>The \<open>thiserror\<close> display texts.\<close>

fun manifest_error_to_string :: "manifest_error \<Rightarrow> string" where
  "manifest_error_to_string (ObjectTooLarge actual maximum) =
     ''object size '' @ show_nat (unat actual) @ '' exceeds the maximum '' @ show_nat (unat maximum)"
| "manifest_error_to_string (TooManyChunks actual maximum) =
     ''manifest has '' @ show_nat actual @ '' chunks, exceeding the maximum '' @ show_nat maximum"
| "manifest_error_to_string (EmptyChunk index) =
     ''chunk '' @ show_nat index @ '' has zero length''"
| "manifest_error_to_string (ChunkTooSmall index actual minimum) =
     ''chunk '' @ show_nat index @ '' has length '' @ show_nat (unat actual) @
     '', below the minimum '' @ show_nat (unat minimum)"
| "manifest_error_to_string (ChunkTooLarge index actual maximum) =
     ''chunk '' @ show_nat index @ '' has length '' @ show_nat (unat actual) @
     '', above the maximum '' @ show_nat (unat maximum)"
| "manifest_error_to_string (UnexpectedOffset index expected actual) =
     ''chunk '' @ show_nat index @ '' starts at '' @ show_nat (unat actual) @
     '', expected '' @ show_nat (unat expected)"
| "manifest_error_to_string SizeOverflow =
     ''manifest chunk lengths overflow the object-size representation''"
| "manifest_error_to_string (SizeMismatch declared described) =
     ''manifest describes '' @ show_nat (unat described) @ '' bytes but declares '' @
     show_nat (unat declared)"

section \<open>Validation\<close>

text \<open>\<open>u32::try_from(size).unwrap_or(u32::MAX)\<close>, used only inside error values.\<close>

definition u32_saturate :: "nat \<Rightarrow> u32" where
  "u32_saturate n = (case u32_try_from n of Some x \<Rightarrow> x | None \<Rightarrow> - 1)"

text \<open>The loop of \<open>validate\<close> over the descriptors from \<open>index\<close> on, with the running
  \<open>expected_offset\<close>; \<open>len\<close> is \<open>self.chunks.len()\<close>.  Its value is the final offset.\<close>

fun validate_chunks ::
  "nat \<Rightarrow> nat \<Rightarrow> nat \<Rightarrow> nat \<Rightarrow> u64 \<Rightarrow> chunk_descriptor list \<Rightarrow> manifest_error + u64" where
  "validate_chunks len minimum maximum index expected_offset [] = Inr expected_offset"
| "validate_chunks len minimum maximum index expected_offset (chunk # rest) =
     (if cd_length chunk = 0 then Inl (EmptyChunk index)
      else if cd_offset chunk \<noteq> expected_offset then
        Inl (UnexpectedOffset index expected_offset (cd_offset chunk))
      else if unat (cd_length chunk) > maximum then
        Inl (ChunkTooLarge index (cd_length chunk) (u32_saturate maximum))
      else if index + 1 < len \<and> unat (cd_length chunk) < minimum then
        Inl (ChunkTooSmall index (cd_length chunk) (u32_saturate minimum))
      else (case checked_add expected_offset (u64_of_u32 (cd_length chunk)) of
          None \<Rightarrow> Inl SizeOverflow
        | Some offset \<Rightarrow> validate_chunks len minimum maximum (index + 1) offset rest))"

definition validate :: "object_manifest \<Rightarrow> manifest_error + unit" where
  "validate m =
     (if object_size m > MAX_OBJECT_SIZE then
        Inl (ObjectTooLarge (object_size m) MAX_OBJECT_SIZE)
      else if length (chunks m) > MAX_CHUNK_DESCRIPTORS then
        Inl (TooManyChunks (length (chunks m)) MAX_CHUNK_DESCRIPTORS)
      else (case sizes (profile m) of (minimum, _, maximum) \<Rightarrow>
        res_bind (validate_chunks (length (chunks m)) minimum maximum 0 0 (chunks m))
          (\<lambda>expected_offset.
             if expected_offset \<noteq> object_size m then
               Inl (SizeMismatch (object_size m) expected_offset)
             else Inr ())))"

section \<open>The specification of a valid manifest\<close>

abbreviation chunk_len :: "chunk_descriptor \<Rightarrow> nat" where
  "chunk_len c \<equiv> unat (cd_length c)"

text \<open>Descriptor \<open>i\<close> starts where the previous ones end and has an admissible length.\<close>

definition chunk_ok :: "chunking_profile \<Rightarrow> chunk_descriptor list \<Rightarrow> nat \<Rightarrow> bool" where
  "chunk_ok p cs i \<longleftrightarrow>
     unat (cd_offset (cs ! i)) = prefix_sum chunk_len cs i
     \<and> 0 < chunk_len (cs ! i)
     \<and> chunk_len (cs ! i) \<le> snd (snd (sizes p))
     \<and> (i + 1 < length cs \<longrightarrow> fst (sizes p) \<le> chunk_len (cs ! i))"

definition well_formed :: "object_manifest \<Rightarrow> bool" where
  "well_formed m \<longleftrightarrow>
     unat (object_size m) \<le> 100 * 1024 ^ 3
     \<and> (\<forall>i < length (chunks m). chunk_ok (profile m) (chunks m) i)
     \<and> sum_list (map chunk_len (chunks m)) = unat (object_size m)"

subsection \<open>The loop\<close>

lemma chunk_len_pos_iff: "0 < chunk_len c \<longleftrightarrow> cd_length c \<noteq> 0"
  by (simp add: unat_gt_0)

lemma validate_chunks_ok_iff:
  "validate_chunks len mn mx index off cs = Inr off' \<longleftrightarrow>
     (\<forall>i < length cs. unat (cd_offset (cs ! i)) = unat off + prefix_sum chunk_len cs i
        \<and> 0 < chunk_len (cs ! i) \<and> chunk_len (cs ! i) \<le> mx
        \<and> (index + i + 1 < len \<longrightarrow> mn \<le> chunk_len (cs ! i)))
     \<and> unat off' = unat off + sum_list (map chunk_len cs)"
proof (induction cs arbitrary: index off)
  case Nil
  then show ?case by (auto simp: word_unat_eq_iff)
next
  case (Cons c cs)
  let ?P = "\<lambda>off index cs i. unat (cd_offset (cs ! i)) = unat (off :: u64) + prefix_sum chunk_len cs i
        \<and> 0 < chunk_len (cs ! i) \<and> chunk_len (cs ! i) \<le> mx
        \<and> (index + i + 1 < len \<longrightarrow> mn \<le> chunk_len (cs ! i))"
  have split: "(\<forall>i < length (c # cs). ?P off index (c # cs) i) \<longleftrightarrow>
      ?P off index (c # cs) 0 \<and> (\<forall>i < length cs. ?P off index (c # cs) (Suc i))"
    by (auto simp: less_Suc_eq_0_disj)
  show ?case
  proof (cases "checked_add off (u64_of_u32 (cd_length c))")
    case None
    then have "unat off' \<noteq> unat off + sum_list (map chunk_len (c # cs))"
      using unat_u64_bound [of off'] by (auto simp: checked_add_def split: if_splits)
    then show ?thesis using None by auto
  next
    case (Some a)
    then have a: "unat a = unat off + chunk_len c"
      by (auto dest: checked_add_SomeD)
    have shift: "?P off index (c # cs) (Suc i) \<longleftrightarrow> ?P a (index + 1) cs i" for i
      by (auto simp: a)
    have head: "?P off index (c # cs) 0 \<longleftrightarrow> cd_offset c = off \<and> cd_length c \<noteq> 0
        \<and> chunk_len c \<le> mx \<and> \<not> (index + 1 < len \<and> chunk_len c < mn)"
      by (auto simp: chunk_len_pos_iff not_less intro: unsigned_word_eqI)
    have loop: "validate_chunks len mn mx index off (c # cs) = Inr off' \<longleftrightarrow>
        (cd_offset c = off \<and> cd_length c \<noteq> 0 \<and> chunk_len c \<le> mx
         \<and> \<not> (index + 1 < len \<and> chunk_len c < mn))
        \<and> validate_chunks len mn mx (index + 1) a cs = Inr off'"
      by (simp add: Some not_less)
    have last: "unat off + sum_list (map chunk_len (c # cs)) = unat a + sum_list (map chunk_len cs)"
      by (simp add: a)
    show ?thesis
      unfolding split shift head loop last Cons.IH by blast
  qed
qed

lemma unat_MAX_OBJECT_SIZE [simp]: "unat MAX_OBJECT_SIZE = 107374182400"
  by (simp add: MAX_OBJECT_SIZE_def)

lemma object_size_le_iff:
  "object_size m \<le> MAX_OBJECT_SIZE \<longleftrightarrow> unat (object_size m) \<le> 100 * 1024 ^ 3"
  by (simp add: word_le_nat_alt)

lemma validate_ok_loop:
  "validate m = Inr () \<longleftrightarrow> well_formed m \<and> length (chunks m) \<le> MAX_CHUNK_DESCRIPTORS"
proof (cases "profile m")
  case FastCdcV1
  have "(\<exists>x. validate_chunks (length (chunks m)) 524288 8388608 0 0 (chunks m) = Inr x
            \<and> x = object_size m)
      \<longleftrightarrow> validate_chunks (length (chunks m)) 524288 8388608 0 0 (chunks m) = Inr (object_size m)"
    by auto
  then show ?thesis
    using FastCdcV1 object_size_le_iff [of m]
    by (auto simp: validate_def well_formed_def chunk_ok_def ok_iff validate_chunks_ok_iff not_less)
qed

lemma chunk_count_bound:
  assumes "well_formed m"
  shows "length (chunks m) \<le> MAX_CHUNK_DESCRIPTORS"
proof (cases "chunks m" rule: rev_cases)
  case Nil
  then show ?thesis by (simp add: MAX_CHUNK_DESCRIPTORS_def)
next
  case (snoc cs c)
  have ok: "chunk_ok (profile m) (chunks m) i" if "i < length (chunks m)" for i
    using assms that by (simp add: well_formed_def)
  have "524288 \<le> chunk_len x" if "x \<in> set cs" for x
  proof -
    from that obtain i where "i < length cs" "cs ! i = x" by (auto simp: in_set_conv_nth)
    then show ?thesis
      using ok [of i] snoc by (cases "profile m") (auto simp: chunk_ok_def nth_append)
  qed
  then have "length cs * 524288 \<le> sum_list (map chunk_len cs)"
    by (rule sum_list_lower_bound)
  moreover have "0 < chunk_len c"
    using ok [of "length cs"] snoc by (simp add: chunk_ok_def)
  moreover have "sum_list (map chunk_len cs) + chunk_len c \<le> 107374182400"
    using assms snoc by (simp add: well_formed_def)
  ultimately have "length cs * 524288 < 204800 * 524288" by linarith
  then show ?thesis using snoc by (simp add: MAX_CHUNK_DESCRIPTORS_def)
qed

lemma validate_iff_well_formed: "validate m = Inr () \<longleftrightarrow> well_formed m"
  using validate_ok_loop chunk_count_bound by blast

lemma validate_chunks_overflow:
  "validate_chunks len mn mx index off cs = Inl SizeOverflow \<Longrightarrow>
     2 ^ 64 \<le> unat off + length cs * mx"
proof (induction cs arbitrary: index off)
  case (Cons c cs)
  then show ?case
  proof (cases "checked_add off (u64_of_u32 (cd_length c))")
    case None
    then show ?thesis using Cons.prems by (auto simp: checked_add_def split: if_splits)
  next
    case (Some a)
    then have "unat a = unat off + chunk_len c" by (auto dest: checked_add_SomeD)
    moreover have "2 ^ 64 \<le> unat a + length cs * mx" "chunk_len c \<le> mx"
      using Cons.IH [of "index + 1" a] Cons.prems Some by (auto split: if_splits)
    ultimately show ?thesis by simp
  qed
qed simp

subsection \<open>Consequences of validity used by the server\<close>

lemma well_formed_chunk_bounds:
  assumes "well_formed m" "d \<in> set (chunks m)"
  shows "0 < chunk_len d" "chunk_len d < 2 ^ 31" "unat (cd_offset d) < 2 ^ 63"
proof -
  from assms(2) obtain i where i: "i < length (chunks m)" "chunks m ! i = d"
    by (auto simp: in_set_conv_nth)
  have ok: "chunk_ok (profile m) (chunks m) i" using assms(1) i by (simp add: well_formed_def)
  then show "0 < chunk_len d" using i by (simp add: chunk_ok_def)
  have "chunk_len d \<le> 8388608"
    using ok i by (cases "profile m") (simp add: chunk_ok_def)
  then show "chunk_len d < 2 ^ 31" by simp
  have "prefix_sum chunk_len (chunks m) i \<le> sum_list (map chunk_len (chunks m))"
    using prefix_sum_mono [of i "length (chunks m)" chunk_len "chunks m"] i by simp
  then show "unat (cd_offset d) < 2 ^ 63"
    using ok i assms(1) by (simp add: chunk_ok_def well_formed_def)
qed

lemma well_formed_size_i64:
  "well_formed m \<Longrightarrow> i64_try_from (object_size m) = Some (int (unat (object_size m)))"
  by (simp add: well_formed_def i64_try_from_def)

subsection \<open>What a reported error says\<close>

text \<open>\<open>error_justified m e\<close>: the error names a real defect of \<open>m\<close>, with the values the
  manifest has there, and every descriptor before the named index is in order.\<close>

fun error_justified :: "object_manifest \<Rightarrow> manifest_error \<Rightarrow> bool" where
  "error_justified m (ObjectTooLarge a b) \<longleftrightarrow> a = object_size m \<and> b = MAX_OBJECT_SIZE \<and> b < a"
| "error_justified m (TooManyChunks a b) \<longleftrightarrow>
     a = length (chunks m) \<and> b = MAX_CHUNK_DESCRIPTORS \<and> b < a"
| "error_justified m (EmptyChunk i) \<longleftrightarrow>
     i < length (chunks m) \<and> (\<forall>j < i. chunk_ok (profile m) (chunks m) j)
     \<and> cd_length (chunks m ! i) = 0"
| "error_justified m (UnexpectedOffset i e a) \<longleftrightarrow>
     i < length (chunks m) \<and> (\<forall>j < i. chunk_ok (profile m) (chunks m) j)
     \<and> a = cd_offset (chunks m ! i) \<and> unat e = prefix_sum chunk_len (chunks m) i \<and> a \<noteq> e"
| "error_justified m (ChunkTooLarge i a b) \<longleftrightarrow>
     i < length (chunks m) \<and> (\<forall>j < i. chunk_ok (profile m) (chunks m) j)
     \<and> a = cd_length (chunks m ! i) \<and> unat b = snd (snd (sizes (profile m))) \<and> b < a"
| "error_justified m (ChunkTooSmall i a b) \<longleftrightarrow>
     i + 1 < length (chunks m) \<and> (\<forall>j < i. chunk_ok (profile m) (chunks m) j)
     \<and> a = cd_length (chunks m ! i) \<and> unat b = fst (sizes (profile m)) \<and> a < b"
| "error_justified m SizeOverflow \<longleftrightarrow> False"
| "error_justified m (SizeMismatch d s) \<longleftrightarrow>
     (\<forall>i < length (chunks m). chunk_ok (profile m) (chunks m) i)
     \<and> d = object_size m \<and> unat s = sum_list (map chunk_len (chunks m)) \<and> d \<noteq> s"

lemma unat_u32_saturate: "n < 2 ^ 32 \<Longrightarrow> unat (u32_saturate n) = n"
  using u32_try_from_Some [of n] by (auto simp: u32_saturate_def)

lemma validate_chunks_error:
  assumes "validate_chunks (length (pre @ cs)) mn mx (length pre) off cs = Inl e"
    and "chunks m = pre @ cs" "sizes (profile m) = (mn, t, mx)" "mn < 2 ^ 32" "mx < 2 ^ 32"
    and "unat off = sum_list (map chunk_len pre)"
    and "\<forall>j < length pre. chunk_ok (profile m) (chunks m) j"
  shows "error_justified m e \<or> e = SizeOverflow"
  using assms
proof (induction cs arbitrary: pre off)
  case (Cons c cs)
  have here: "chunks m ! length pre = c" "length pre < length (chunks m)"
    "prefix_sum chunk_len (chunks m) (length pre) = unat off"
    using Cons.prems by (simp_all add: prefix_sum_def)
  show ?case
  proof (cases "chunk_ok (profile m) (chunks m) (length pre)
      \<and> checked_add off (u64_of_u32 (cd_length c)) \<noteq> None")
    case True
    then obtain a where a: "checked_add off (u64_of_u32 (cd_length c)) = Some a" by auto
    have next_loop: "validate_chunks (length ((pre @ [c]) @ cs)) mn mx (length (pre @ [c])) a cs = Inl e"
      using Cons.prems(1,2,3) True a here
      by (simp add: chunk_ok_def unat_gt_0 not_less split: if_splits) (auto dest: unsigned_word_eqI)
    have "\<forall>j < length (pre @ [c]). chunk_ok (profile m) (chunks m) j"
      using Cons.prems(7) True by (auto simp: less_Suc_eq)
    with Cons.IH [OF next_loop] Cons.prems checked_add_SomeD [OF a] show ?thesis by simp
  next
    case False
    have "unat (u32_saturate mx) = mx" "unat (u32_saturate mn) = mn"
      using Cons.prems(4,5) by (simp_all add: unat_u32_saturate)
    with False here Cons.prems show ?thesis
      by (auto simp: chunk_ok_def word_less_nat_alt unat_gt_0 not_less
          split: if_splits option.splits)
  qed
qed simp

section \<open>Properties\<close>

text \<open>Claim C11: \<open>ObjectManifest::validate\<close> accepts exactly the well-formed manifests: an object
  of at most 100 GiB, descriptors that start where the previous one ended, lengths in the
  profile's bounds, and lengths that add up to the object size.  The limit of 204800
  descriptors never rejects such a manifest: it follows from the other conditions.\<close>

theorem validate_exact: "validate m = Inr () \<longleftrightarrow> well_formed m"
  by (rule validate_iff_well_formed)

text \<open>In a manifest that \<open>validate\<close> accepts, every byte position of the object lies in
  exactly one chunk: ordered, gap-free and overlap-free coverage.\<close>

theorem validate_covers_each_byte_once:
  assumes "validate m = Inr ()" "p < unat (object_size m)"
  shows "\<exists>!i. i < length (chunks m) \<and> unat (cd_offset (chunks m ! i)) \<le> p
           \<and> p < unat (cd_offset (chunks m ! i)) + unat (cd_length (chunks m ! i))"
proof -
  have wf: "well_formed m" using assms(1) by (simp add: validate_iff_well_formed)
  have off: "unat (cd_offset (chunks m ! i)) = prefix_sum chunk_len (chunks m) i"
    if "i < length (chunks m)" for i
    using wf that by (simp add: well_formed_def chunk_ok_def)
  have "p < sum_list (map chunk_len (chunks m))"
    using wf assms(2) by (simp add: well_formed_def)
  then obtain i where i: "i < length (chunks m)" "prefix_sum chunk_len (chunks m) i \<le> p"
    "p < prefix_sum chunk_len (chunks m) i + chunk_len (chunks m ! i)"
    using prefix_sum_interval_exists by blast
  show ?thesis
  proof (rule ex1I [of _ i])
    show "i < length (chunks m) \<and> unat (cd_offset (chunks m ! i)) \<le> p
        \<and> p < unat (cd_offset (chunks m ! i)) + chunk_len (chunks m ! i)"
      using i off by simp
  next
    fix j
    assume "j < length (chunks m) \<and> unat (cd_offset (chunks m ! j)) \<le> p
        \<and> p < unat (cd_offset (chunks m ! j)) + chunk_len (chunks m ! j)"
    then have j: "j < length (chunks m)" "prefix_sum chunk_len (chunks m) j \<le> p"
      "p < prefix_sum chunk_len (chunks m) j + chunk_len (chunks m ! j)"
      using off [of j] by auto
    show "j = i"
      by (rule prefix_sum_interval_unique [OF j(1) i(1) j(2,3) i(2,3)])
  qed
qed

definition sample_manifest :: object_manifest where
  "sample_manifest = \<lparr>version = V1, profile = FastCdcV1, object_oid = digest_fill 7,
     object_size = 524289,
     chunks = [\<lparr>cd_id = digest_fill 1, cd_offset = 0, cd_length = 524288\<rparr>,
               \<lparr>cd_id = digest_fill 2, cd_offset = 524288, cd_length = 1\<rparr>]\<rparr>"

lemma validate_sample: "validate sample_manifest = Inr ()"
  by (simp add: validate_def sample_manifest_def MAX_OBJECT_SIZE_def MAX_CHUNK_DESCRIPTORS_def
      checked_add_def u64_of_u32_def)

theorem validate_covers_each_byte_once_witness:
  "\<exists>!i. i < length (chunks sample_manifest)
      \<and> unat (cd_offset (chunks sample_manifest ! i)) \<le> 524288
      \<and> 524288 < unat (cd_offset (chunks sample_manifest ! i))
          + unat (cd_length (chunks sample_manifest ! i))"
  by (rule validate_covers_each_byte_once [OF validate_sample]) (simp add: sample_manifest_def)

text \<open>The checked addition in \<open>validate\<close> never overflows: with at most 204800 descriptors
  of at most 8 MiB each the \<open>SizeOverflow\<close> branch is unreachable.\<close>

theorem validate_never_overflows: "validate m \<noteq> Inl SizeOverflow"
proof
  assume overflow: "validate m = Inl SizeOverflow"
  obtain mn t mx where sz: "sizes (profile m) = (mn, t, mx)" and mx: "mx = 8388608"
    by (cases "profile m") simp
  have "length (chunks m) \<le> 204800"
    and "validate_chunks (length (chunks m)) mn mx 0 0 (chunks m) = Inl SizeOverflow"
    using overflow sz
    by (auto simp: validate_def MAX_CHUNK_DESCRIPTORS_def res_bind_def split: if_splits sum.splits)
  then show False
    using validate_chunks_overflow [of "length (chunks m)" mn mx 0 0 "chunks m"] mx by simp
qed

text \<open>Claim C12: every error of \<open>validate\<close> reports a real defect and the first one in descriptor
  order: the reported index, actual and expected values are those of the manifest, and all
  descriptors before that index are in order.\<close>

theorem validate_error_is_first_defect:
  assumes "validate m = Inl e"
  shows "error_justified m e"
proof -
  have p: "profile m = FastCdcV1" by (cases "profile m") simp
  consider "error_justified m e"
    | "validate_chunks (length (chunks m)) 524288 8388608 0 0 (chunks m) = Inl e"
    | s where "validate_chunks (length (chunks m)) 524288 8388608 0 0 (chunks m) = Inr s"
        "e = SizeMismatch (object_size m) s" "s \<noteq> object_size m"
    using assms p by (auto simp: validate_def res_bind_def split: if_splits sum.splits)
  then show ?thesis
  proof cases
    case 2
    have "error_justified m e \<or> e = SizeOverflow"
      by (rule validate_chunks_error [where pre = "[]" and cs = "chunks m" and off = 0
            and mn = 524288 and mx = 8388608]) (use 2 p in simp_all)
    moreover have "e \<noteq> SizeOverflow"
      using 2 validate_chunks_overflow [of "length (chunks m)" 524288 8388608 0 0 "chunks m"] assms
      by (auto simp: validate_def MAX_CHUNK_DESCRIPTORS_def split: if_splits)
    ultimately show ?thesis by blast
  next
    case 3
    then show ?thesis using p by (auto simp: validate_chunks_ok_iff chunk_ok_def)
  qed
qed

theorem validate_error_is_first_defect_witness:
  "error_justified (sample_manifest\<lparr>object_size := 1\<rparr>) (SizeMismatch 1 524289)"
  by (rule validate_error_is_first_defect)
    (simp add: validate_def sample_manifest_def MAX_OBJECT_SIZE_def MAX_CHUNK_DESCRIPTORS_def
      checked_add_def u64_of_u32_def)

end
