(* ===== verification/Stream.thy ===== *)
theory Stream
  imports Manifest
begin

text \<open>
  \<open>crates/git-lfs-delta-core/src/stream.rs\<close>: \<open>ChunkStream\<close>, the iterator that chunks a reader and
  accumulates the manifest.  The FastCDC iterator of the \<open>fastcdc\<close> crate is a parameter: the list
  of outcomes it yields for a reader.  \<open>cdc_ok\<close> states what the crate documents for a readable
  source: consecutive pieces of the content, within the size bounds except a short last one.
\<close>

section \<open>Dependencies\<close>

text \<open>A reader is its content and, where reading fails, the error met after that content.\<close>

datatype reader = Reader bytes "string option"

record cdc_chunk =
  cc_offset :: u64
  cc_length :: nat
  cc_data :: bytes

record core_deps = digest_deps +
  stream_cdc :: "reader \<Rightarrow> nat \<Rightarrow> nat \<Rightarrow> nat \<Rightarrow> (string + cdc_chunk) list"

section \<open>The stream\<close>

record chunk =
  descriptor :: chunk_descriptor
  chunk_data :: bytes

datatype core_error = Chunking string | CoreChunkTooLarge nat

text \<open>\<open>object_hasher\<close> is the byte string fed to the incremental SHA-256 so far.\<close>

record chunk_stream =
  inner :: "(string + cdc_chunk) list"
  stream_profile :: chunking_profile
  object_hasher :: bytes
  descriptors :: "chunk_descriptor list"
  stream_object_size :: u64

definition new_stream :: "'m core_deps_scheme \<Rightarrow> reader \<Rightarrow> chunking_profile \<Rightarrow> chunk_stream" where
  "new_stream D reader p =
     (case sizes p of (minimum, average, maximum) \<Rightarrow>
        \<lparr>inner = stream_cdc D reader minimum average maximum, stream_profile = p,
         object_hasher = [], descriptors = [], stream_object_size = 0\<rparr>)"

text \<open>\<open>Iterator::next\<close>.  \<open>object_size += \<close> wraps at 64 bits as a release build does.\<close>

definition next_chunk ::
  "'m core_deps_scheme \<Rightarrow> chunk_stream \<Rightarrow> (core_error + chunk) option \<times> chunk_stream" where
  "next_chunk D s =
     (case inner s of
        [] \<Rightarrow> (None, s)
      | Inl error # rest \<Rightarrow> (Some (Inl (Chunking error)), s\<lparr>inner := rest\<rparr>)
      | Inr c # rest \<Rightarrow>
          (case u32_try_from (cc_length c) of
             None \<Rightarrow> (Some (Inl (CoreChunkTooLarge (cc_length c))), s\<lparr>inner := rest\<rparr>)
           | Some len \<Rightarrow>
               let d = \<lparr>cd_id = blake3 D (cc_data c), cd_offset = cc_offset c, cd_length = len\<rparr>
               in (Some (Inr \<lparr>descriptor = d, chunk_data = cc_data c\<rparr>),
                   s\<lparr>inner := rest,
                     object_hasher := object_hasher s @ cc_data c,
                     stream_object_size := stream_object_size s + u64_of_u32 len,
                     descriptors := descriptors s @ [d]\<rparr>)))"

definition completed_manifest :: "'m core_deps_scheme \<Rightarrow> chunk_stream \<Rightarrow> object_manifest" where
  "completed_manifest D s =
     \<lparr>version = V1, profile = stream_profile s, object_oid = sha256 D (object_hasher s),
      object_size = stream_object_size s, chunks = descriptors s\<rparr>"

lemma next_chunk_decreases:
  "next_chunk D s = (Some r, s') \<Longrightarrow> length (inner s') < length (inner s)"
  by (auto simp: next_chunk_def Let_def split: list.splits sum.splits option.splits)

text \<open>\<open>for chunk in stream.by_ref()\<close> with \<open>?\<close> in the body: all chunks up to the end of the stream
  and the exhausted stream, or the first error.\<close>

function stream_chunks ::
  "'m core_deps_scheme \<Rightarrow> chunk_stream \<Rightarrow> core_error + (chunk list \<times> chunk_stream)" where
  "stream_chunks D s =
     (case next_chunk D s of
        (None, s') \<Rightarrow> Inr ([], s')
      | (Some (Inl e), s') \<Rightarrow> Inl e
      | (Some (Inr c), s') \<Rightarrow>
          res_bind (stream_chunks D s') (\<lambda>(cs, t). Inr (c # cs, t)))"
  by pat_completeness auto
termination
  by (relation "measure (\<lambda>(D, s). length (inner s))") (auto dest: next_chunk_decreases [OF sym])

declare stream_chunks.simps [simp del]

text \<open>\<open>finish\<close> drains the stream, dropping the chunk bytes, and builds the manifest;
  \<open>collect_manifest\<close> is the same function.\<close>

definition finish :: "'m core_deps_scheme \<Rightarrow> chunk_stream \<Rightarrow> core_error + object_manifest" where
  "finish D s = res_bind (stream_chunks D s) (\<lambda>(_, t). Inr (completed_manifest D t))"

definition collect_manifest :: "'m core_deps_scheme \<Rightarrow> chunk_stream \<Rightarrow> core_error + object_manifest" where
  "collect_manifest D s = finish D s"

text \<open>The \<open>Display\<close> texts of \<open>CoreError\<close>.\<close>

fun core_error_to_string :: "core_error \<Rightarrow> string" where
  "core_error_to_string (Chunking e) = ''content-defined chunking failed: '' @ e"
| "core_error_to_string (CoreChunkTooLarge n) =
     ''chunk length '' @ show_nat n @ '' exceeds the v1 manifest limit''"

section \<open>What FastCDC promises\<close>

definition cdc_partition :: "nat \<Rightarrow> nat \<Rightarrow> bytes \<Rightarrow> cdc_chunk list \<Rightarrow> bool" where
  "cdc_partition minimum maximum content cs \<longleftrightarrow>
     concat (map cc_data cs) = content
     \<and> (\<forall>i < length cs.
          cc_length (cs ! i) = length (cc_data (cs ! i))
          \<and> unat (cc_offset (cs ! i)) = prefix_sum cc_length cs i
          \<and> 0 < cc_length (cs ! i) \<and> cc_length (cs ! i) \<le> maximum
          \<and> (i + 1 < length cs \<longrightarrow> minimum \<le> cc_length (cs ! i)))"

definition cdc_ok :: "'m core_deps_scheme \<Rightarrow> bytes \<Rightarrow> bool" where
  "cdc_ok D content \<longleftrightarrow>
     (case sizes beta_v1 of (minimum, average, maximum) \<Rightarrow>
        (\<exists>cs. stream_cdc D (Reader content None) minimum average maximum = map Inr cs
              \<and> cdc_partition minimum maximum content cs))"

section \<open>Draining a stream\<close>

definition describe :: "'m core_deps_scheme \<Rightarrow> cdc_chunk \<Rightarrow> chunk_descriptor" where
  "describe D c = \<lparr>cd_id = blake3 D (cc_data c), cd_offset = cc_offset c, cd_length = of_nat (cc_length c)\<rparr>"

definition described :: "'m core_deps_scheme \<Rightarrow> cdc_chunk \<Rightarrow> chunk" where
  "described D c = \<lparr>descriptor = describe D c, chunk_data = cc_data c\<rparr>"

lemma next_chunk_ok:
  assumes "inner s = Inr c # rest" "cc_length c < 2 ^ 32"
  shows "next_chunk D s =
    (Some (Inr (described D c)),
     s\<lparr>inner := rest, object_hasher := object_hasher s @ cc_data c,
       stream_object_size := stream_object_size s + u64_of_u32 (of_nat (cc_length c)),
       descriptors := descriptors s @ [describe D c]\<rparr>)"
  using assms by (simp add: next_chunk_def u32_try_from_def described_def describe_def Let_def)

lemma u64_of_u32_of_nat: "n < 2 ^ 32 \<Longrightarrow> u64_of_u32 (of_nat n) = of_nat n"
  by (rule word_unat_eq_iff [THEN iffD2]) (simp add: unat_of_nat)

lemma stream_chunks_all:
  assumes "inner s = map Inr cs" "\<forall>c \<in> set cs. cc_length c < 2 ^ 32"
  shows "stream_chunks D s = Inr (map (described D) cs,
    s\<lparr>inner := [], object_hasher := object_hasher s @ concat (map cc_data cs),
      stream_object_size := stream_object_size s + of_nat (sum_list (map cc_length cs)),
      descriptors := descriptors s @ map (describe D) cs\<rparr>)"
  using assms
proof (induction cs arbitrary: s)
  case Nil
  then show ?case by (simp add: stream_chunks.simps [of D s] next_chunk_def)
next
  case (Cons c cs)
  let ?t = "s\<lparr>inner := map Inr cs, object_hasher := object_hasher s @ cc_data c,
       stream_object_size := stream_object_size s + u64_of_u32 (of_nat (cc_length c)),
       descriptors := descriptors s @ [describe D c]\<rparr>"
  have "next_chunk D s = (Some (Inr (described D c)), ?t)"
    using Cons.prems by (intro next_chunk_ok) simp_all
  moreover have "stream_chunks D ?t = Inr (map (described D) cs,
    ?t\<lparr>inner := [], object_hasher := object_hasher ?t @ concat (map cc_data cs),
      stream_object_size := stream_object_size ?t + of_nat (sum_list (map cc_length cs)),
      descriptors := descriptors ?t @ map (describe D) cs\<rparr>)"
    using Cons.prems by (intro Cons.IH) simp_all
  ultimately show ?case
    using Cons.prems by (simp add: stream_chunks.simps [of D s] u64_of_u32_of_nat add.assoc)
qed

lemma cdc_partition_sum:
  "cdc_partition mn mx content cs \<Longrightarrow> sum_list (map cc_length cs) = length content"
proof -
  assume p: "cdc_partition mn mx content cs"
  then have "map cc_length cs = map (length \<circ> cc_data) cs"
    by (intro nth_equalityI) (auto simp: cdc_partition_def)
  then have "sum_list (map cc_length cs) = sum_list (map (length \<circ> cc_data) cs)" by (rule arg_cong)
  also have "\<dots> = length (concat (map cc_data cs))" by (simp add: length_concat)
  finally show ?thesis using p by (simp add: cdc_partition_def)
qed

lemma cdc_partition_describe:
  assumes "cdc_partition mn mx content cs" "mx < 2 ^ 32"
  shows "map chunk_len (map (describe D) cs) = map cc_length cs"
    and "\<forall>c \<in> set cs. cc_length c < 2 ^ 32 \<and> cc_length c = length (cc_data c)"
proof -
  show *: "\<forall>c \<in> set cs. cc_length c < 2 ^ 32 \<and> cc_length c = length (cc_data c)"
  proof
    fix c assume "c \<in> set cs"
    then obtain i where "i < length cs" "cs ! i = c" by (auto simp: in_set_conv_nth)
    then show "cc_length c < 2 ^ 32 \<and> cc_length c = length (cc_data c)"
      using assms by (auto simp: cdc_partition_def)
  qed
  show "map chunk_len (map (describe D) cs) = map cc_length cs"
    using * by (auto simp: describe_def unat_of_nat)
qed

text \<open>The manifest and chunks of a readable source, for any profile-conforming partition.\<close>

lemma stream_of_source:
  assumes "cdc_ok D content"
  obtains cs where "cdc_partition 524288 8388608 content cs"
    "stream_chunks D (new_stream D (Reader content None) beta_v1) = Inr (map (described D) cs,
       \<lparr>inner = [], stream_profile = FastCdcV1, object_hasher = content,
        descriptors = map (describe D) cs, stream_object_size = of_nat (length content)\<rparr>)"
proof -
  from assms obtain cs where
    cs: "stream_cdc D (Reader content None) 524288 2097152 8388608 = map Inr cs"
      "cdc_partition 524288 8388608 content cs"
    by (auto simp: cdc_ok_def beta_v1_def)
  have small: "\<forall>c \<in> set cs. cc_length c < 2 ^ 32"
    using cdc_partition_describe(2) [OF cs(2)] by auto
  have init: "new_stream D (Reader content None) beta_v1 =
      \<lparr>inner = map Inr cs, stream_profile = FastCdcV1, object_hasher = [], descriptors = [],
       stream_object_size = 0\<rparr>"
    using cs(1) by (simp add: new_stream_def beta_v1_def)
  have "concat (map cc_data cs) = content" using cs(2) by (simp add: cdc_partition_def)
  then have "stream_chunks D (new_stream D (Reader content None) beta_v1) = Inr (map (described D) cs,
       \<lparr>inner = [], stream_profile = FastCdcV1, object_hasher = content,
        descriptors = map (describe D) cs, stream_object_size = of_nat (length content)\<rparr>)"
    unfolding init using small cdc_partition_sum [OF cs(2)]
    by (simp add: stream_chunks_all [where cs = cs])
  with cs(2) show ?thesis by (rule that)
qed

lemma partition_manifest_well_formed:
  assumes "cdc_partition 524288 8388608 content cs" "length content \<le> 107374182400"
  shows "well_formed \<lparr>version = V1, profile = FastCdcV1, object_oid = h,
    object_size = of_nat (length content), chunks = map (describe D) cs\<rparr>"
proof -
  have lens: "map chunk_len (map (describe D) cs) = map cc_length cs"
    by (rule cdc_partition_describe(1) [OF assms(1)]) simp
  have "prefix_sum chunk_len (map (describe D) cs) i = prefix_sum cc_length cs i" for i
    by (simp only: prefix_sum_def take_map [symmetric] lens)
  moreover have "chunk_len (describe D (cs ! i)) = cc_length (cs ! i)" if "i < length cs" for i
    using that lens by (metis length_map nth_map)
  ultimately have *: "i < length cs \<Longrightarrow> chunk_len (describe D (cs ! i)) = cc_length (cs ! i)"
    "prefix_sum chunk_len (map (describe D) cs) i = prefix_sum cc_length cs i" for i
    by blast+
  have "chunk_ok FastCdcV1 (map (describe D) cs) i" if "i < length cs" for i
  proof -
    have "cd_offset (describe D (cs ! i)) = cc_offset (cs ! i)" by (simp add: describe_def)
    moreover have "unat (cc_offset (cs ! i)) = prefix_sum cc_length cs i" "0 < cc_length (cs ! i)"
      "cc_length (cs ! i) \<le> 8388608" "i + 1 < length cs \<longrightarrow> 524288 \<le> cc_length (cs ! i)"
      using that assms(1) by (auto simp: cdc_partition_def)
    ultimately show ?thesis using that * by (simp add: chunk_ok_def)
  qed
  moreover have "sum_list (map chunk_len (map (describe D) cs)) = length content"
    unfolding lens by (rule cdc_partition_sum [OF assms(1)])
  ultimately show ?thesis
    using assms(2) by (simp add: well_formed_def unat_of_nat)
qed

section \<open>Reading some chunks first\<close>

text \<open>A caller that reads \<open>n\<close> times before finishing: \<open>None\<close> if one of the reads failed.\<close>

primrec next_n :: "'m core_deps_scheme \<Rightarrow> nat \<Rightarrow> chunk_stream \<Rightarrow> chunk_stream option" where
  "next_n D 0 s = Some s"
| "next_n D (Suc n) s =
     (case next_chunk D s of
        (None, s') \<Rightarrow> next_n D n s'
      | (Some (Inl e), s') \<Rightarrow> None
      | (Some (Inr c), s') \<Rightarrow> next_n D n s')"

lemma next_chunk_None: "next_chunk D s = (None, s') \<Longrightarrow> s' = s"
  by (auto simp: next_chunk_def Let_def split: list.splits sum.splits option.splits)

lemma finish_next:
  "next_chunk D s = (Some (Inr c), s') \<Longrightarrow> finish D s' = finish D s"
  unfolding finish_def
  by (simp add: stream_chunks.simps [of D s]) (cases "stream_chunks D s'", auto)

lemma finish_next_n: "next_n D n s = Some t \<Longrightarrow> finish D t = finish D s"
proof (induction n arbitrary: s)
  case (Suc n)
  then show ?case
    by (auto split: prod.splits option.splits sum.splits dest: next_chunk_None)
      (metis finish_next)
qed simp

section \<open>Properties\<close>

text \<open>Concrete dependencies: one chunk for a short non-empty source.\<close>

definition ref_core_deps :: core_deps where
  "ref_core_deps = digest_deps.extend ref_digest_deps
     \<lparr>stream_cdc = (\<lambda>r minimum average maximum. case r of
        Reader content None \<Rightarrow>
          (if content = [] then []
           else [Inr \<lparr>cc_offset = 0, cc_length = length content, cc_data = content\<rparr>])
      | Reader content (Some e) \<Rightarrow> [Inl e])\<rparr>"

lemma ref_core_deps_simps [simp]:
  "stream_cdc ref_core_deps (Reader content None) a b c =
     (if content = [] then []
      else [Inr \<lparr>cc_offset = 0, cc_length = length content, cc_data = content\<rparr>])"
  "stream_cdc ref_core_deps (Reader content (Some e)) a b c = [Inl e]"
  "sha256 ref_core_deps = sha256 ref_digest_deps"
  "blake3 ref_core_deps = blake3 ref_digest_deps"
  by (simp_all add: ref_core_deps_def digest_deps.defs)

lemma cdc_ok_ref: "length content \<le> 8388608 \<Longrightarrow> cdc_ok ref_core_deps content"
proof -
  assume len: "length content \<le> 8388608"
  let ?cs = "if content = [] then []
    else [\<lparr>cc_offset = 0, cc_length = length content, cc_data = content\<rparr>]"
  have "cdc_partition 524288 8388608 content ?cs"
    using len by (simp add: cdc_partition_def)
  moreover have "stream_cdc ref_core_deps (Reader content None) 524288 2097152 8388608 = map Inr ?cs"
    by simp
  ultimately show ?thesis by (auto simp: cdc_ok_def beta_v1_def)
qed

lemma source_manifest:
  assumes "cdc_ok D content" "length content \<le> 100 * 1024 ^ 3"
  shows "\<exists>m cs s. finish D (new_stream D (Reader content None) beta_v1) = Inr m
    \<and> stream_chunks D (new_stream D (Reader content None) beta_v1) = Inr (cs, s)
    \<and> validate m = Inr () \<and> object_oid m = sha256 D content \<and> unat (object_size m) = length content
    \<and> concat (map chunk_data cs) = content \<and> map descriptor cs = chunks m
    \<and> (\<forall>c \<in> set cs. cd_id (descriptor c) = blake3 D (chunk_data c)
          \<and> chunk_len (descriptor c) = length (chunk_data c))"
proof -
  obtain cs where p: "cdc_partition 524288 8388608 content cs"
    and run: "stream_chunks D (new_stream D (Reader content None) beta_v1) = Inr (map (described D) cs,
       \<lparr>inner = [], stream_profile = FastCdcV1, object_hasher = content,
        descriptors = map (describe D) cs, stream_object_size = of_nat (length content)\<rparr>)"
    using stream_of_source [OF assms(1)] by blast
  define m where "m = \<lparr>version = V1, profile = FastCdcV1, object_oid = sha256 D content,
      object_size = of_nat (length content), chunks = map (describe D) cs\<rparr>"
  have "finish D (new_stream D (Reader content None) beta_v1) = Inr m"
    by (simp add: finish_def run completed_manifest_def m_def)
  moreover have "validate m = Inr ()"
    unfolding m_def validate_iff_well_formed
    by (rule partition_manifest_well_formed [OF p]) (use assms(2) in simp)
  moreover have "\<forall>c \<in> set (map (described D) cs). cd_id (descriptor c) = blake3 D (chunk_data c)
      \<and> chunk_len (descriptor c) = length (chunk_data c)"
    using cdc_partition_describe(2) [OF p] by (auto simp: described_def describe_def unat_of_nat)
  ultimately show ?thesis
    using run p assms(2)
    by (intro exI [of _ m] exI [of _ "map (described D) cs"] exI conjI)
      (auto simp: m_def described_def cdc_partition_def comp_def unat_of_nat)
qed

text \<open>Claim C13: for a readable source of at most 100 GiB, \<open>ChunkStream::finish\<close> returns a manifest
  that passes \<open>validate\<close>, with the SHA-256 and the byte length of the source, and the chunks the
  stream yields on the way concatenate to the source, in descriptor order, each with its own
  BLAKE3 identity and length.\<close>

theorem chunk_stream_describes_source:
  assumes "cdc_ok D content" "length content \<le> 100 * 1024 ^ 3"
  shows "\<exists>m cs s. finish D (new_stream D (Reader content None) beta_v1) = Inr m
    \<and> stream_chunks D (new_stream D (Reader content None) beta_v1) = Inr (cs, s)
    \<and> validate m = Inr () \<and> object_oid m = sha256 D content \<and> unat (object_size m) = length content
    \<and> concat (map chunk_data cs) = content \<and> map descriptor cs = chunks m
    \<and> (\<forall>c \<in> set cs. cd_id (descriptor c) = blake3 D (chunk_data c)
          \<and> chunk_len (descriptor c) = length (chunk_data c))"
  using assms by (rule source_manifest)

theorem chunk_stream_describes_source_witness:
  "\<exists>m cs s. finish ref_core_deps (new_stream ref_core_deps (Reader [1, 2, 3] None) beta_v1) = Inr m
    \<and> stream_chunks ref_core_deps (new_stream ref_core_deps (Reader [1, 2, 3] None) beta_v1) = Inr (cs, s)
    \<and> validate m = Inr () \<and> object_oid m = sha256 ref_core_deps [1, 2, 3]
    \<and> unat (object_size m) = length [1, 2, 3 :: byte]
    \<and> concat (map chunk_data cs) = [1, 2, 3] \<and> map descriptor cs = chunks m
    \<and> (\<forall>c \<in> set cs. cd_id (descriptor c) = blake3 ref_core_deps (chunk_data c)
          \<and> chunk_len (descriptor c) = length (chunk_data c))"
  by (rule chunk_stream_describes_source) (simp_all add: cdc_ok_ref)

text \<open>reading any number of chunks from a stream before calling \<open>finish\<close> does not change
  the manifest \<open>finish\<close> returns, nor the error it reports.\<close>

theorem finish_independent_of_partial_reads:
  assumes "next_n D n s = Some t"
  shows "finish D t = finish D s"
  using assms by (rule finish_next_n)

theorem finish_independent_of_partial_reads_witness:
  "\<exists>t. next_n ref_core_deps 1 (new_stream ref_core_deps (Reader [1, 2, 3] None) beta_v1) = Some t
     \<and> inner t = []
     \<and> finish ref_core_deps t =
         finish ref_core_deps (new_stream ref_core_deps (Reader [1, 2, 3] None) beta_v1)"
proof -
  let ?s = "new_stream ref_core_deps (Reader [1, 2, 3] None) beta_v1"
  obtain t where t: "next_n ref_core_deps 1 ?s = Some t" "inner t = []"
    by (simp add: new_stream_def beta_v1_def next_chunk_def u32_try_from_def Let_def)
  then show ?thesis using finish_independent_of_partial_reads [OF t(1)] by blast
qed

end
