(* ===== verification/Storage.thy ===== *)
theory Storage
  imports Stream
begin

text \<open>
  \<open>crates/git-lfs-delta-storage/src/lib.rs\<close>: \<open>ChunkStore\<close>, repository-scoped immutable chunks over an
  object-store provider.  The provider (\<open>object_store\<close>, reached over the network) is a parameter:
  five operations on an arbitrary provider state \<open>'s\<close>, keyed by the text handed to \<open>Path::from\<close>.
  The locale \<open>object_store\<close> states the documented behaviour the code relies on, failures included (a
  failed write or delete may or may not have happened).  The locale \<open>chunk_store\<close> is the
  interface the server and the garbage collector use; every \<open>object_store\<close> gives one.
\<close>

section \<open>Dependencies\<close>

datatype os_error = NotFound | AlreadyExists | OtherError string

record 's storage_deps = core_deps +
  uuid_to_string :: "uuid \<Rightarrow> string"
  os_put_create :: "'s \<Rightarrow> string \<Rightarrow> bytes \<Rightarrow> (os_error + unit) \<times> 's"
  os_put :: "'s \<Rightarrow> string \<Rightarrow> bytes \<Rightarrow> (os_error + unit) \<times> 's"
  os_get :: "'s \<Rightarrow> string \<Rightarrow> (os_error + bytes) \<times> 's"
  os_head :: "'s \<Rightarrow> string \<Rightarrow> (os_error + unit) \<times> 's"
  os_delete :: "'s \<Rightarrow> string \<Rightarrow> (os_error + unit) \<times> 's"

section \<open>ChunkStore\<close>

datatype storage_error = ProbeMismatch | DigestMismatch chunk_id string | Provider os_error

definition verify_digest ::
  "('s, 'm) storage_deps_scheme \<Rightarrow> chunk_id \<Rightarrow> bytes \<Rightarrow> storage_error + unit" where
  "verify_digest D expected bytes =
     (let actual = blake3 D bytes in
      if as_bytes actual = as_bytes expected then Inr ()
      else Inl (DigestMismatch expected (to_string D actual)))"

definition chunk_path :: "('s, 'm) storage_deps_scheme \<Rightarrow> uuid \<Rightarrow> chunk_id \<Rightarrow> string" where
  "chunk_path D repository_id chunk_id =
     (let digest = to_string D chunk_id in
      ''repositories/'' @ uuid_to_string D repository_id @ ''/chunks/'' @ take 2 digest @ ''/'' @ digest)"

definition put_verified ::
  "('s, 'm) storage_deps_scheme \<Rightarrow> 's \<Rightarrow> uuid \<Rightarrow> chunk_id \<Rightarrow> bytes \<Rightarrow> (storage_error + unit) \<times> 's" where
  "put_verified D s repository_id claimed_id bytes =
     (case verify_digest D claimed_id bytes of
        Inl e \<Rightarrow> (Inl e, s)
      | Inr _ \<Rightarrow>
          (case os_put_create D s (chunk_path D repository_id claimed_id) bytes of
             (Inr _, s') \<Rightarrow> (Inr (), s')
           | (Inl AlreadyExists, s') \<Rightarrow> (Inr (), s')
           | (Inl e, s') \<Rightarrow> (Inl (Provider e), s')))"

definition get_verified ::
  "('s, 'm) storage_deps_scheme \<Rightarrow> 's \<Rightarrow> uuid \<Rightarrow> chunk_id \<Rightarrow> (storage_error + bytes) \<times> 's" where
  "get_verified D s repository_id chunk_id =
     (case os_get D s (chunk_path D repository_id chunk_id) of
        (Inl e, s') \<Rightarrow> (Inl (Provider e), s')
      | (Inr bytes, s') \<Rightarrow> (res_bind (verify_digest D chunk_id bytes) (\<lambda>_. Inr bytes), s'))"

definition chunk_exists ::
  "('s, 'm) storage_deps_scheme \<Rightarrow> 's \<Rightarrow> uuid \<Rightarrow> chunk_id \<Rightarrow> (storage_error + bool) \<times> 's" where
  "chunk_exists D s repository_id chunk_id =
     (case os_head D s (chunk_path D repository_id chunk_id) of
        (Inr _, s') \<Rightarrow> (Inr True, s')
      | (Inl NotFound, s') \<Rightarrow> (Inr False, s')
      | (Inl e, s') \<Rightarrow> (Inl (Provider e), s'))"

definition delete_chunk ::
  "('s, 'm) storage_deps_scheme \<Rightarrow> 's \<Rightarrow> uuid \<Rightarrow> chunk_id \<Rightarrow> (storage_error + unit) \<times> 's" where
  "delete_chunk D s repository_id chunk_id =
     (case os_delete D s (chunk_path D repository_id chunk_id) of
        (Inr _, s') \<Rightarrow> (Inr (), s')
      | (Inl NotFound, s') \<Rightarrow> (Inr (), s')
      | (Inl e, s') \<Rightarrow> (Inl (Provider e), s'))"

text \<open>The ASCII bytes of a text.\<close>

definition ascii_bytes :: "string \<Rightarrow> bytes" where
  "ascii_bytes s = map (\<lambda>c. of_nat (of_char c)) s"

text \<open>\<open>probe\<close> is the random UUID the health check draws for its object name.\<close>

definition health_path :: "('s, 'm) storage_deps_scheme \<Rightarrow> uuid \<Rightarrow> string" where
  "health_path D probe = ''_health/'' @ uuid_to_string D probe"

definition healthcheck ::
  "('s, 'm) storage_deps_scheme \<Rightarrow> 's \<Rightarrow> uuid \<Rightarrow> (storage_error + unit) \<times> 's" where
  "healthcheck D s probe =
     (let path = health_path D probe; expected = ascii_bytes ''git-lfs-delta-ready'' in
      case os_put D s path expected of
        (Inl e, s') \<Rightarrow> (Inl (Provider e), s')
      | (Inr _, s1) \<Rightarrow>
          (case os_get D s1 path of
             (Inl e, s') \<Rightarrow> (Inl (Provider e), s')
           | (Inr actual, s2) \<Rightarrow>
               (case os_delete D s2 path of
                  (Inl e, s') \<Rightarrow> (Inl (Provider e), s')
                | (Inr _, s') \<Rightarrow> (if actual = expected then Inr () else Inl ProbeMismatch, s'))))"

section \<open>Chunk paths\<close>

lemma chunk_path_inj:
  assumes "hex_codec (hex_encode D) (hex_decode_to_slice D)"
    and "inj (uuid_to_string D)" "\<And>u. CHR ''/'' \<notin> set (uuid_to_string D u)"
    and "chunk_path D r c = chunk_path D r' c'"
  shows "r = r' \<and> c = c'"
proof -
  have split: "chunk_path D r c = ''repositories/'' @ uuid_to_string D r @
      CHR ''/'' # (''chunks/'' @ take 2 (to_string D c) @ CHR ''/'' # to_string D c)" for r c
    by (simp add: chunk_path_def Let_def)
  have slash: "CHR ''/'' \<notin> set (take 2 (to_string D c))" for c
    using to_string_no_slash [OF assms(1), of c] by (auto dest: in_set_takeD)
  have paths: "uuid_to_string D r @ CHR ''/'' # (''chunks/'' @ take 2 (to_string D c) @ CHR ''/'' # to_string D c)
      = uuid_to_string D r' @ CHR ''/'' # (''chunks/'' @ take 2 (to_string D c') @ CHR ''/'' # to_string D c')"
    using assms(4) unfolding split by simp
  note parts = append_separator_eq [OF paths assms(3) assms(3)]
  then have r: "uuid_to_string D r = uuid_to_string D r'" by (rule conjunct1)
  from parts have "take 2 (to_string D c) @ CHR ''/'' # to_string D c
      = take 2 (to_string D c') @ CHR ''/'' # to_string D c'" by simp
  from append_separator_eq [OF this slash slash] have "to_string D c = to_string D c'"
    by (rule conjunct2)
  then show ?thesis
    using r assms(2) to_string_inj [OF assms(1)] by (auto dest: injD)
qed

section \<open>The chunk-store interface\<close>

text \<open>\<open>view s r c\<close> is the chunk stored for identity \<open>c\<close> in repository \<open>r\<close>.  The laws say what each
  operation does to the view, also when it fails.\<close>

definition view_upd ::
  "(uuid \<Rightarrow> chunk_id \<Rightarrow> bytes option) \<Rightarrow> uuid \<Rightarrow> chunk_id \<Rightarrow> bytes option \<Rightarrow> uuid \<Rightarrow> chunk_id \<Rightarrow> bytes option" where
  "view_upd v r c x = (\<lambda>r' c'. if r' = r \<and> c' = c then x else v r' c')"

lemma view_upd_same [simp]: "view_upd v r c x r c = x"
  by (simp add: view_upd_def)

lemma view_upd_other [simp]: "(r', c') \<noteq> (r, c) \<Longrightarrow> view_upd v r c x r' c' = v r' c'"
  by (auto simp: view_upd_def)

locale chunk_store =
  fixes hash :: "bytes \<Rightarrow> chunk_id"
    and put :: "'s \<Rightarrow> uuid \<Rightarrow> chunk_id \<Rightarrow> bytes \<Rightarrow> (storage_error + unit) \<times> 's"
    and get :: "'s \<Rightarrow> uuid \<Rightarrow> chunk_id \<Rightarrow> (storage_error + bytes) \<times> 's"
    and exists :: "'s \<Rightarrow> uuid \<Rightarrow> chunk_id \<Rightarrow> (storage_error + bool) \<times> 's"
    and delete :: "'s \<Rightarrow> uuid \<Rightarrow> chunk_id \<Rightarrow> (storage_error + unit) \<times> 's"
    and view :: "'s \<Rightarrow> uuid \<Rightarrow> chunk_id \<Rightarrow> bytes option"
  assumes put_ok: "put s r c b = (Inr (), s') \<Longrightarrow>
        hash b = c \<and> ((view s r c = None \<and> view s' = view_upd (view s) r c (Some b))
                      \<or> (view s r c \<noteq> None \<and> view s' = view s))"
    and put_err: "put s r c b = (Inl e, s') \<Longrightarrow>
        view s' = view s \<or> (hash b = c \<and> view s r c = None \<and> view s' = view_upd (view s) r c (Some b))"
    and get_ok: "get s r c = (Inr b, s') \<Longrightarrow> view s r c = Some b \<and> hash b = c"
    and get_missing: "get s r c = (Inl (Provider NotFound), s') \<Longrightarrow> view s r c = None"
    and get_view: "view (snd (get s r c)) = view s"
    and exists_ok: "exists s r c = (Inr x, s') \<Longrightarrow> x \<longleftrightarrow> view s r c \<noteq> None"
    and exists_view: "view (snd (exists s r c)) = view s"
    and delete_ok: "delete s r c = (Inr (), s') \<Longrightarrow> view s' = view_upd (view s) r c None"
    and delete_err: "delete s r c = (Inl e, s') \<Longrightarrow>
        view s' = view s \<or> view s' = view_upd (view s) r c None"
begin

text \<open>Every stored chunk hashes to the identity it is stored under.\<close>

definition intact :: "'s \<Rightarrow> bool" where
  "intact s \<longleftrightarrow> (\<forall>r c b. view s r c = Some b \<longrightarrow> hash b = c)"

lemma intact_put: "intact s \<Longrightarrow> intact (snd (put s r c b))"
proof -
  assume i: "intact s"
  obtain x s' where p: "put s r c b = (x, s')" by (cases "put s r c b")
  have "view s' = view s \<or> (hash b = c \<and> view s' = view_upd (view s) r c (Some b))"
    using p put_ok [of s r c b s'] put_err [of s r c b _ s'] by (cases x) auto
  then show ?thesis using i p by (auto simp: intact_def view_upd_def split: if_splits)
qed

lemma intact_delete: "intact s \<Longrightarrow> intact (snd (delete s r c))"
proof -
  assume i: "intact s"
  obtain x s' where p: "delete s r c = (x, s')" by (cases "delete s r c")
  have "view s' = view s \<or> view s' = view_upd (view s) r c None"
    using p delete_ok [of s r c s'] delete_err [of s r c _ s'] by (cases x) auto
  then show ?thesis using i p by (auto simp: intact_def view_upd_def split: if_splits)
qed

text \<open>After a successful put the chunk is there, and a later successful get returns bytes with
  the requested digest; a put never changes another chunk and never replaces stored bytes.\<close>

lemma put_present: "put s r c b = (Inr (), s') \<Longrightarrow> \<exists>x. view s' r c = Some x"
  by (auto dest: put_ok)

lemma put_keeps: "put s r c b = (x, s') \<Longrightarrow> view s r' c' = Some y \<Longrightarrow> view s' r' c' = Some y"
  by (cases x) (auto dest!: put_ok put_err simp: view_upd_def)

lemma put_other: "put s r c b = (x, s') \<Longrightarrow> (r', c') \<noteq> (r, c) \<Longrightarrow> view s' r' c' = view s r' c'"
  by (cases x) (auto dest!: put_ok put_err simp: view_upd_def)

lemma delete_keeps_other:
  "delete s r c = (x, s') \<Longrightarrow> (r', c') \<noteq> (r, c) \<Longrightarrow> view s' r' c' = view s r' c'"
  by (cases x) (auto dest!: delete_ok delete_err simp: view_upd_def)

end

section \<open>Providers\<close>

locale object_store =
  fixes D :: "('s, 'm) storage_deps_scheme"
    and contents :: "'s \<Rightarrow> string \<Rightarrow> bytes option"
  assumes hex: "hex_codec (hex_encode D) (hex_decode_to_slice D)"
    and uuid_inj: "inj (uuid_to_string D)"
    and uuid_no_slash: "CHR ''/'' \<notin> set (uuid_to_string D u)"
    and create_ok: "os_put_create D s p b = (Inr (), s') \<Longrightarrow>
        contents s p = None \<and> contents s' = (contents s)(p \<mapsto> b)"
    and create_exists: "os_put_create D s p b = (Inl AlreadyExists, s') \<Longrightarrow>
        contents s p \<noteq> None \<and> contents s' = contents s"
    and create_err: "os_put_create D s p b = (Inl e, s') \<Longrightarrow>
        contents s' = contents s \<or> (contents s p = None \<and> contents s' = (contents s)(p \<mapsto> b))"
    and put_ok: "os_put D s p b = (Inr (), s') \<Longrightarrow> contents s' = (contents s)(p \<mapsto> b)"
    and put_err: "os_put D s p b = (Inl e, s') \<Longrightarrow>
        contents s' = contents s \<or> contents s' = (contents s)(p \<mapsto> b)"
    and get_ok: "os_get D s p = (Inr b, s') \<Longrightarrow> contents s p = Some b"
    and get_missing: "os_get D s p = (Inl NotFound, s') \<Longrightarrow> contents s p = None"
    and get_contents: "contents (snd (os_get D s p)) = contents s"
    and head_ok: "os_head D s p = (Inr (), s') \<Longrightarrow> contents s p \<noteq> None"
    and head_missing: "os_head D s p = (Inl NotFound, s') \<Longrightarrow> contents s p = None"
    and head_contents: "contents (snd (os_head D s p)) = contents s"
    and delete_ok: "os_delete D s p = (Inr (), s') \<Longrightarrow> contents s' = (contents s)(p := None)"
    and delete_missing: "os_delete D s p = (Inl NotFound, s') \<Longrightarrow>
        contents s p = None \<and> contents s' = contents s"
    and delete_err: "os_delete D s p = (Inl e, s') \<Longrightarrow>
        contents s' = contents s \<or> contents s' = (contents s)(p := None)"

definition chunk_view ::
  "('s, 'm) storage_deps_scheme \<Rightarrow> ('s \<Rightarrow> string \<Rightarrow> bytes option) \<Rightarrow> 's \<Rightarrow> uuid \<Rightarrow> chunk_id \<Rightarrow> bytes option" where
  "chunk_view D contents s r c = contents s (chunk_path D r c)"

lemma verify_digest_ok_iff [ok_iff]: "verify_digest D c b = Inr () \<longleftrightarrow> blake3 D b = c"
  by (simp add: verify_digest_def Let_def as_bytes_inject)

lemma verify_digest_ok_iff' [ok_iff]: "verify_digest D c b = Inr u \<longleftrightarrow> blake3 D b = c"
  by (simp add: verify_digest_def Let_def as_bytes_inject)

context object_store
begin

lemma path_eq_iff: "chunk_path D r c = chunk_path D r' c' \<longleftrightarrow> r = r' \<and> c = c'"
  using chunk_path_inj [OF hex uuid_inj uuid_no_slash] by blast

lemma chunk_view_upd:
  "chunk_view D (\<lambda>_. (contents s)(chunk_path D r c := x)) s' = view_upd (chunk_view D contents s) r c x"
  by (auto simp: chunk_view_def view_upd_def fun_eq_iff path_eq_iff)

lemma chunk_view_from_contents:
  "contents s' = contents s \<Longrightarrow> chunk_view D contents s' = chunk_view D contents s"
  "contents s' = (contents s)(chunk_path D r c := x) \<Longrightarrow>
     chunk_view D contents s' = view_upd (chunk_view D contents s) r c x"
  using chunk_view_upd [of s r c x s'] by (simp_all add: chunk_view_def fun_eq_iff)

lemma chunk_view_absent:
  "contents s (chunk_path D r c) = None \<Longrightarrow> contents s' = contents s \<Longrightarrow>
     chunk_view D contents s' = view_upd (chunk_view D contents s) r c None"
  by (auto simp: chunk_view_def view_upd_def fun_eq_iff)

end

sublocale object_store \<subseteq> chunk: chunk_store "blake3 D" "put_verified D" "get_verified D" "chunk_exists D"
  "delete_chunk D" "chunk_view D contents"
proof unfold_locales
  fix s s' r c b
  assume "put_verified D s r c b = (Inr (), s')"
  then show "blake3 D b = c \<and>
      ((chunk_view D contents s r c = None
         \<and> chunk_view D contents s' = view_upd (chunk_view D contents s) r c (Some b))
       \<or> (chunk_view D contents s r c \<noteq> None \<and> chunk_view D contents s' = chunk_view D contents s))"
    by (auto simp: put_verified_def ok_iff chunk_view_def [of D contents s r c]
        split: sum.splits prod.splits os_error.splits
        dest!: create_ok create_exists intro: chunk_view_from_contents)
next
  fix s s' r c b e
  assume "put_verified D s r c b = (Inl e, s')"
  then show "chunk_view D contents s' = chunk_view D contents s \<or>
      (blake3 D b = c \<and> chunk_view D contents s r c = None
       \<and> chunk_view D contents s' = view_upd (chunk_view D contents s) r c (Some b))"
    by (auto simp: put_verified_def ok_iff chunk_view_def [of D contents s r c]
        split: sum.splits prod.splits os_error.splits
        dest!: create_err intro: chunk_view_from_contents)
next
  fix s s' r c b
  assume "get_verified D s r c = (Inr b, s')"
  then show "chunk_view D contents s r c = Some b \<and> blake3 D b = c"
    by (auto simp: get_verified_def ok_iff chunk_view_def split: sum.splits prod.splits dest: get_ok)
next
  fix s s' r c
  assume "get_verified D s r c = (Inl (Provider NotFound), s')"
  then show "chunk_view D contents s r c = None"
    by (auto simp: get_verified_def verify_digest_def Let_def chunk_view_def
        split: sum.splits prod.splits if_splits dest: get_missing)
next
  fix s r c
  show "chunk_view D contents (snd (get_verified D s r c)) = chunk_view D contents s"
    using get_contents [of s "chunk_path D r c"]
    by (auto simp: get_verified_def split: sum.splits prod.splits intro: chunk_view_from_contents)
next
  fix s s' r c x
  assume "chunk_exists D s r c = (Inr x, s')"
  then show "x \<longleftrightarrow> chunk_view D contents s r c \<noteq> None"
    by (auto simp: chunk_exists_def chunk_view_def
        split: sum.splits prod.splits os_error.splits dest: head_ok head_missing)
next
  fix s r c
  show "chunk_view D contents (snd (chunk_exists D s r c)) = chunk_view D contents s"
    using head_contents [of s "chunk_path D r c"]
    by (auto simp: chunk_exists_def split: sum.splits prod.splits os_error.splits
        intro: chunk_view_from_contents)
next
  fix s s' r c
  assume "delete_chunk D s r c = (Inr (), s')"
  then show "chunk_view D contents s' = view_upd (chunk_view D contents s) r c None"
    by (auto simp: delete_chunk_def split: sum.splits prod.splits os_error.splits
        dest!: delete_ok delete_missing intro: chunk_view_from_contents chunk_view_absent)
next
  fix s s' r c e
  assume "delete_chunk D s r c = (Inl e, s')"
  then show "chunk_view D contents s' = chunk_view D contents s \<or>
      chunk_view D contents s' = view_upd (chunk_view D contents s) r c None"
    by (auto simp: delete_chunk_def split: sum.splits prod.splits os_error.splits
        dest!: delete_err intro: chunk_view_from_contents)
qed

context object_store
begin

lemmas chunk_store_laws = chunk.chunk_store_axioms

lemma health_path_not_chunk: "chunk_path D r c \<noteq> health_path D p"
  by (simp add: chunk_path_def health_path_def Let_def)

text \<open>Only the probe's own path can differ after a health check.\<close>

lemma healthcheck_frame:
  assumes "healthcheck D s probe = (res, s')"
  shows "chunk_view D contents s' = chunk_view D contents s
    \<and> (res = Inr () \<longrightarrow> contents s' (health_path D probe) = None)"
proof -
  let ?p = "health_path D probe"
  have same: "contents t q = contents u q" if "os_put D u ?p b = (x, t)" "q \<noteq> ?p" for t u b x q
    using that put_ok put_err by (cases x) (fastforce dest: put_ok put_err)+
  have get_same: "contents t q = contents u q" if "os_get D u ?p = (x, t)" for t u x q
    using that get_contents [of u ?p] by simp
  have del_same: "contents t q = contents u q" if "os_delete D u ?p = (x, t)" "q \<noteq> ?p" for t u x q
    using that by (cases x) (fastforce dest: delete_ok delete_err)+
  have "contents s' q = contents s q" if "q \<noteq> ?p" for q
    using assms that
    by (auto simp: healthcheck_def Let_def split: sum.splits prod.splits if_splits
        dest!: same [OF _ that] get_same [where q = q] del_same [OF _ that])
  then have "chunk_view D contents s' = chunk_view D contents s"
    using health_path_not_chunk by (simp add: chunk_view_def fun_eq_iff)
  moreover have "contents s' ?p = None" if "res = Inr ()"
    using assms that
    by (auto simp: healthcheck_def Let_def split: sum.splits prod.splits if_splits dest!: delete_ok)
  ultimately show ?thesis by blast
qed

end

section \<open>An in-memory provider with injected failures\<close>

text \<open>The provider the repository's own tests use is an in-memory map.  Here each operation
  additionally consults a script of failures: it may fail before or after taking effect.\<close>

datatype mem_fault = Fine | FailBefore | FailAfter

record mem_store =
  mem_objects :: "(string \<times> bytes) list"
  mem_script :: "mem_fault list"

definition mem_contents :: "mem_store \<Rightarrow> string \<Rightarrow> bytes option" where
  "mem_contents s = map_of (mem_objects s)"

definition mem_op :: "mem_store \<Rightarrow> os_error + 'a \<Rightarrow> (string \<times> bytes) list \<Rightarrow> (os_error + 'a) \<times> mem_store" where
  "mem_op s result objects =
     (case mem_script s of
        [] \<Rightarrow> (result, s\<lparr>mem_objects := objects\<rparr>)
      | Fine # fs \<Rightarrow> (result, s\<lparr>mem_objects := objects, mem_script := fs\<rparr>)
      | FailBefore # fs \<Rightarrow> (Inl (OtherError ''timeout''), s\<lparr>mem_script := fs\<rparr>)
      | FailAfter # fs \<Rightarrow>
          (Inl (OtherError ''timeout''), s\<lparr>mem_objects := objects, mem_script := fs\<rparr>))"

definition mem_put :: "mem_store \<Rightarrow> string \<Rightarrow> bytes \<Rightarrow> (os_error + unit) \<times> mem_store" where
  "mem_put s p b = mem_op s (Inr ()) ((p, b) # mem_objects s)"

definition mem_put_create :: "mem_store \<Rightarrow> string \<Rightarrow> bytes \<Rightarrow> (os_error + unit) \<times> mem_store" where
  "mem_put_create s p b =
     (if mem_contents s p = None then mem_put s p b
      else mem_op s (Inl AlreadyExists) (mem_objects s))"

definition mem_get :: "mem_store \<Rightarrow> string \<Rightarrow> (os_error + bytes) \<times> mem_store" where
  "mem_get s p = mem_op s (ok_or NotFound (mem_contents s p)) (mem_objects s)"

definition mem_head :: "mem_store \<Rightarrow> string \<Rightarrow> (os_error + unit) \<times> mem_store" where
  "mem_head s p =
     mem_op s (if mem_contents s p = None then Inl NotFound else Inr ()) (mem_objects s)"

definition mem_delete :: "mem_store \<Rightarrow> string \<Rightarrow> (os_error + unit) \<times> mem_store" where
  "mem_delete s p =
     (if mem_contents s p = None then mem_op s (Inl NotFound) (mem_objects s)
      else mem_op s (Inr ()) (filter (\<lambda>(q, b). q \<noteq> p) (mem_objects s)))"

text \<open>Sixteen bytes of a UUID in hexadecimal, for concrete paths.\<close>

definition uuid_ref :: "uuid \<Rightarrow> string" where
  "uuid_ref u = map (\<lambda>i. hex_digit (unat u div 16 ^ i mod 16)) [0..<32]"

definition mem_deps :: "mem_store storage_deps" where
  "mem_deps = core_deps.extend ref_core_deps
     \<lparr>uuid_to_string = uuid_ref, os_put_create = mem_put_create, os_put = mem_put,
      os_get = mem_get, os_head = mem_head, os_delete = mem_delete\<rparr>"

lemma mem_deps_simps [simp]:
  "uuid_to_string mem_deps = uuid_ref" "os_put_create mem_deps = mem_put_create"
  "os_put mem_deps = mem_put" "os_get mem_deps = mem_get" "os_head mem_deps = mem_head"
  "os_delete mem_deps = mem_delete" "blake3 mem_deps = blake3 ref_digest_deps"
  "sha256 mem_deps = sha256 ref_digest_deps" "hex_encode mem_deps = encode_ref"
  "hex_decode_to_slice mem_deps = decode_ref" "stream_cdc mem_deps = stream_cdc ref_core_deps"
  by (simp_all add: mem_deps_def core_deps.defs ref_core_deps_def digest_deps.defs ref_digest_deps_def)

lemma hex_digit_inj: "i < 16 \<Longrightarrow> j < 16 \<Longrightarrow> hex_digit i = hex_digit j \<Longrightarrow> i = j"
  using hex_digit_cases(1) by (metis option.inject)

lemma nat_digits_eq:
  assumes "\<And>i. i < n \<Longrightarrow> a div b ^ i mod b = a' div b ^ i mod (b::nat)" "a < b ^ n" "a' < b ^ n"
  shows "a = a'"
  using assms
proof (induction n arbitrary: a a')
  case (Suc n)
  have "a div b = a' div b"
  proof (rule Suc.IH)
    fix i assume "i < n"
    then show "a div b div b ^ i mod b = a' div b div b ^ i mod b"
      using Suc.prems(1) [of "Suc i"] by (simp add: div_mult2_eq)
  next
    show "a div b < b ^ n" "a' div b < b ^ n"
      using Suc.prems(2,3) by (simp_all add: less_mult_imp_div_less mult.commute)
  qed
  moreover have "a mod b = a' mod b" using Suc.prems(1) [of 0] by simp
  ultimately show ?case by (metis div_mult_mod_eq)
qed simp

lemma uuid_ref_inj: "inj uuid_ref"
proof (rule injI)
  fix u v assume eq: "uuid_ref u = uuid_ref v"
  have "unat u div 16 ^ i mod 16 = unat v div 16 ^ i mod 16" if "i < 32" for i
  proof -
    have "uuid_ref u ! i = uuid_ref v ! i" using eq by simp
    then show ?thesis using that hex_digit_inj by (simp add: uuid_ref_def)
  qed
  moreover have "unat (w :: uuid) < 16 ^ 32" for w
    using unsigned_less [of w] by simp
  ultimately have "unat u = unat v" by (intro nat_digits_eq [of 32 "unat u" 16 "unat v"]) simp_all
  then show "u = v" by (simp add: word_unat_eq_iff)
qed

lemma uuid_ref_no_slash: "CHR ''/'' \<notin> set (uuid_ref u)"
proof -
  have "hex_digit n \<noteq> CHR ''/''" if "n < 16" for n
    using hex_digit_cases(2) [OF that] by (auto simp: hex_alphabet_def)
  then have "CHR ''/'' \<noteq> hex_digit (unat u div 16 ^ i mod 16)" for i
    by (metis mod_less_divisor zero_less_numeral)
  then show ?thesis unfolding uuid_ref_def set_map by blast
qed

lemma mem_contents_filter:
  "map_of (filter (\<lambda>(q, b). q \<noteq> p) xs) = (map_of xs)(p := None)"
  by (induction xs) (auto simp: fun_eq_iff)

lemmas mem_defs = mem_put_create_def mem_put_def mem_get_def mem_head_def mem_delete_def

interpretation mem: object_store mem_deps mem_contents
proof (rule object_store.intro)
  show "hex_codec (hex_encode mem_deps) (hex_decode_to_slice mem_deps)"
    by (simp add: ref_hex.codec.hex_codec_axioms)
  show "inj (uuid_to_string mem_deps)" by (simp add: uuid_ref_inj)
next
  fix u
  show "CHR ''/'' \<notin> set (uuid_to_string mem_deps u)" by (simp add: uuid_ref_no_slash)
qed (auto simp: mem_defs mem_op_def mem_contents_def mem_contents_filter ok_or_def
    split: list.splits mem_fault.splits if_splits option.splits)

section \<open>Properties\<close>

text \<open>Whatever the provider does, bytes that \<open>ChunkStore::get_verified\<close> returns hash to the
  requested BLAKE3 identity: provider corruption is never returned as valid data.\<close>

lemma chunk_reads_are_verified:
  assumes "get_verified D s r c = (Inr b, s')"
  shows "blake3 D b = c"
  using assms by (auto simp: get_verified_def ok_iff split: sum.splits prod.splits)

definition sample_store :: mem_store where
  "sample_store = \<lparr>mem_objects = [(chunk_path mem_deps 5 (digest_fill 9), replicate 32 9)], mem_script = []\<rparr>"

lemma blake3_sample [simp]: "blake3 ref_digest_deps (replicate 32 x) = digest_fill x"
  by (simp add: ref_digest_deps_def digest_fill_def)

lemma get_verified_sample:
  "get_verified mem_deps sample_store 5 (digest_fill 9) = (Inr (replicate 32 9), sample_store)"
  by (simp add: get_verified_def mem_get_def mem_op_def mem_contents_def sample_store_def
      verify_digest_def Let_def)

text \<open>Claim C15: \<open>put_verified\<close> is verified, immutable and repository-scoped.  On success the bytes
  have the claimed identity and a chunk is stored under it (these bytes, unless one was already there);
  in every outcome, failures included, no stored chunk is replaced and no chunk of another
  identity or repository changes.\<close>

theorem put_verified_contract:
  assumes "object_store D contents" "put_verified D s r c b = (res, s')"
  shows "(res = Inr () \<longrightarrow> blake3 D b = c
            \<and> (chunk_view D contents s r c = None \<longrightarrow> chunk_view D contents s' r c = Some b)
            \<and> chunk_view D contents s' r c \<noteq> None)
    \<and> (\<forall>x r' c'. chunk_view D contents s r' c' = Some x \<longrightarrow> chunk_view D contents s' r' c' = Some x)
    \<and> (\<forall>r' c'. (r', c') \<noteq> (r, c) \<longrightarrow> chunk_view D contents s' r' c' = chunk_view D contents s r' c')"
proof -
  from assms(1) have cs: "chunk_store (blake3 D) (put_verified D) (get_verified D) (chunk_exists D)
      (delete_chunk D) (chunk_view D contents)"
    by (rule object_store.chunk_store_laws)
  have keeps: "chunk_view D contents s' r' c' = Some x" if "chunk_view D contents s r' c' = Some x" for x r' c'
    using chunk_store.put_keeps [OF cs assms(2) that] .
  have other: "chunk_view D contents s' r' c' = chunk_view D contents s r' c'" if "(r', c') \<noteq> (r, c)" for r' c'
    using chunk_store.put_other [OF cs assms(2) that] .
  show ?thesis
  proof (intro conjI allI impI)
    assume "res = Inr ()"
    with assms(2) have ok: "put_verified D s r c b = (Inr (), s')" by simp
    note law = chunk_store.put_ok [OF cs ok]
    show "blake3 D b = c" using law by blast
    show "chunk_view D contents s' r c = Some b" if "chunk_view D contents s r c = None"
      using law that by auto
    show "chunk_view D contents s' r c \<noteq> None" using law by auto
  qed (use keeps other in blast)+
qed

theorem put_verified_contract_witness:
  "blake3 mem_deps (replicate 32 7) = digest_fill 7
   \<and> chunk_view mem_deps mem_contents
       (snd (put_verified mem_deps sample_store 5 (digest_fill 7) (replicate 32 7))) 5 (digest_fill 9)
     = Some (replicate 32 9)"
proof -
  let ?s' = "snd (put_verified mem_deps sample_store 5 (digest_fill 7) (replicate 32 7))"
  have fresh: "chunk_path mem_deps 5 (digest_fill 7) \<noteq> chunk_path mem_deps 5 (digest_fill 9)"
    by (simp add: mem.path_eq_iff)
  then have run: "put_verified mem_deps sample_store 5 (digest_fill 7) (replicate 32 7) = (Inr (), ?s')"
    by (simp add: put_verified_def verify_digest_def Let_def mem_put_create_def mem_put_def mem_op_def
        mem_contents_def sample_store_def)
  have "chunk_view mem_deps mem_contents sample_store 5 (digest_fill 9) = Some (replicate 32 9)"
    by (simp add: chunk_view_def mem_contents_def sample_store_def)
  then show ?thesis
    using put_verified_contract [OF mem.object_store_axioms run] by blast
qed

text \<open>the readiness probe never touches chunk data: whatever step fails, every chunk of
  every repository is as before, and when it succeeds the probe object is gone too.\<close>

theorem healthcheck_preserves_chunks:
  assumes "object_store D contents" "healthcheck D s probe = (res, s')"
  shows "chunk_view D contents s' = chunk_view D contents s
    \<and> (res = Inr () \<longrightarrow> contents s' (health_path D probe) = None)"
  using object_store.healthcheck_frame [OF assms] by blast

theorem healthcheck_preserves_chunks_witness:
  "chunk_view mem_deps mem_contents (snd (healthcheck mem_deps sample_store 3)) =
     chunk_view mem_deps mem_contents sample_store
   \<and> mem_contents (snd (healthcheck mem_deps sample_store 3)) (health_path mem_deps 3) = None"
proof -
  have "fst (healthcheck mem_deps sample_store 3) = Inr ()"
    by (simp add: healthcheck_def Let_def mem_put_def mem_get_def mem_delete_def mem_op_def mem_contents_def
        sample_store_def)
  then have "healthcheck mem_deps sample_store 3 = (Inr (), snd (healthcheck mem_deps sample_store 3))"
    by (metis prod.collapse)
  from healthcheck_preserves_chunks [OF mem.object_store_axioms this] show ?thesis by simp
qed

end
