(* ===== verification/Schema.thy ===== *)
theory Schema
  imports Digest
begin

text \<open>
  The PostgreSQL catalogue: the tables and constraints of
  \<open>crates/git-lfs-delta-server/migrations/\<close>, and the SQL statements of \<open>lib.rs\<close> and \<open>gc.rs\<close> as functions
  on it.  A table is the list of its rows; \<open>BYTEA\<close> columns are byte lists, \<open>BIGINT\<close> and \<open>INTEGER\<close> columns
  integers with their ranges, \<open>TIMESTAMPTZ\<close> columns microseconds, the JSON documents of the \<open>JSONB\<close>
  columns an arbitrary type.  Columns no statement reads (\<open>created_at\<close> outside \<open>lfs_locks\<close>,
  \<open>metadata_deleted_at\<close>) are left out.

  A statement gets the value of \<open>now()\<close> and the database and returns an error or its rows with
  the new database.  Every writing statement ends in \<open>enforce\<close>, which checks column types and
  \<open>CHECK\<close>s, then unique indexes, then foreign keys, as the server does at the end of a statement;
  \<open>ON DELETE CASCADE\<close> is part of the deleting statements.  The lemmas at the end say which tables each
  statement changes and that the constraints hold after it.
\<close>

type_synonym time = int

section \<open>Tables\<close>

datatype session_state = Open | Finalized | Expired

record repository_row =
  repo_id :: uuid
  repo_owner :: string
  repo_name :: string

record 'j object_row =
  obj_repo :: uuid
  obj_oid :: bytes
  obj_size :: int
  obj_manifest :: 'j

record chunk_row =
  ch_repo :: uuid
  ch_id :: bytes
  ch_size :: int
  reference_count :: int

record object_chunk_row =
  oc_repo :: uuid
  oc_oid :: bytes
  oc_ordinal :: int
  oc_chunk :: bytes
  byte_offset :: int
  byte_length :: int

record 'j session_row =
  ses_id :: uuid
  ses_repo :: uuid
  ses_oid :: bytes
  ses_size :: int
  ses_manifest :: 'j
  ses_state :: session_state
  expires_at :: time

record session_chunk_row =
  sc_session :: uuid
  sc_repo :: uuid
  sc_chunk :: bytes

record lock_row =
  lk_id :: uuid
  lk_repo :: uuid
  lk_path :: string
  owner_subject :: string
  lk_created :: time

record epoch_row =
  ep_id :: uuid
  ep_repo :: uuid
  ref_fingerprint :: string
  complete :: bool
  completed_at :: "time option"

record reachable_row =
  ro_epoch :: uuid
  ro_oid :: bytes

record grant_row =
  gr_repo :: uuid
  gr_subject :: string
  can_read :: bool
  can_write :: bool
  can_admin :: bool

record tombstone_row =
  ts_repo :: uuid
  ts_oid :: bytes
  delete_after :: time

record queue_row =
  q_repo :: uuid
  q_chunk :: bytes
  queued_at :: time

text \<open>\<open>sqlx_migrations\<close> is the migration history SQLx keeps (version, checksum, success); \<open>None\<close> when the table does
  not exist.\<close>

record 'j database =
  repositories :: "repository_row list"
  objects :: "'j object_row list"
  chunk_table :: "chunk_row list"
  object_chunks :: "object_chunk_row list"
  upload_sessions :: "'j session_row list"
  upload_session_chunks :: "session_chunk_row list"
  lfs_locks :: "lock_row list"
  reachability_epochs :: "epoch_row list"
  reachable_objects :: "reachable_row list"
  repository_grants :: "grant_row list"
  object_tombstones :: "tombstone_row list"
  chunk_gc_queue :: "queue_row list"
  sqlx_migrations :: "(int \<times> bytes \<times> bool) list option"

definition empty_database :: "'j database" where
  "empty_database = \<lparr>repositories = [], objects = [], chunk_table = [], object_chunks = [],
     upload_sessions = [], upload_session_chunks = [], lfs_locks = [], reachability_epochs = [],
     reachable_objects = [], repository_grants = [], object_tombstones = [], chunk_gc_queue = [],
     sqlx_migrations = None\<rparr>"

section \<open>Constraints\<close>

definition is_bigint :: "int \<Rightarrow> bool" where
  "is_bigint i \<longleftrightarrow> - (2 ^ 63) \<le> i \<and> i < 2 ^ 63"

definition is_integer :: "int \<Rightarrow> bool" where
  "is_integer i \<longleftrightarrow> - (2 ^ 31) \<le> i \<and> i < 2 ^ 31"

definition object_check :: "'j object_row \<Rightarrow> bool" where
  "object_check o' \<longleftrightarrow> length (obj_oid o') = 32 \<and> obj_size o' \<ge> 0 \<and> is_bigint (obj_size o')"

definition chunk_check :: "chunk_row \<Rightarrow> bool" where
  "chunk_check c \<longleftrightarrow> length (ch_id c) = 32 \<and> ch_size c > 0 \<and> is_bigint (ch_size c)
     \<and> reference_count c \<ge> 0 \<and> is_bigint (reference_count c)"

definition object_chunk_check :: "object_chunk_row \<Rightarrow> bool" where
  "object_chunk_check oc \<longleftrightarrow> oc_ordinal oc \<ge> 0 \<and> is_integer (oc_ordinal oc)
     \<and> byte_offset oc \<ge> 0 \<and> is_bigint (byte_offset oc)
     \<and> byte_length oc > 0 \<and> is_integer (byte_length oc)"

definition session_check :: "'j session_row \<Rightarrow> bool" where
  "session_check s \<longleftrightarrow> length (ses_oid s) = 32 \<and> ses_size s \<ge> 0 \<and> is_bigint (ses_size s)"

definition grant_check :: "grant_row \<Rightarrow> bool" where
  "grant_check g \<longleftrightarrow> (\<not> can_write g \<or> can_read g) \<and> (\<not> can_admin g \<or> can_write g)"

definition checks_ok :: "'j database \<Rightarrow> bool" where
  "checks_ok db \<longleftrightarrow>
     list_all object_check (objects db) \<and> list_all chunk_check (chunk_table db)
     \<and> list_all object_chunk_check (object_chunks db) \<and> list_all session_check (upload_sessions db)
     \<and> list_all (\<lambda>r. length (sc_chunk r) = 32) (upload_session_chunks db)
     \<and> list_all (\<lambda>r. length (ro_oid r) = 32) (reachable_objects db)
     \<and> list_all grant_check (repository_grants db)
     \<and> list_all (\<lambda>q. length (q_chunk q) = 32) (chunk_gc_queue db)"

definition object_key :: "'j object_row \<Rightarrow> uuid \<times> bytes" where
  "object_key o' = (obj_repo o', obj_oid o')"

definition chunk_key :: "chunk_row \<Rightarrow> uuid \<times> bytes" where
  "chunk_key c = (ch_repo c, ch_id c)"

definition session_key :: "'j session_row \<Rightarrow> uuid \<times> bytes" where
  "session_key s = (ses_repo s, ses_oid s)"

definition tombstone_key :: "tombstone_row \<Rightarrow> uuid \<times> bytes" where
  "tombstone_key t = (ts_repo t, ts_oid t)"

definition queue_key :: "queue_row \<Rightarrow> uuid \<times> bytes" where
  "queue_key q = (q_repo q, q_chunk q)"

definition is_open :: "'j session_row \<Rightarrow> bool" where
  "is_open s \<longleftrightarrow> ses_state s = Open"

definition uniques_ok :: "'j database \<Rightarrow> bool" where
  "uniques_ok db \<longleftrightarrow>
     distinct (map repo_id (repositories db))
     \<and> distinct (map (\<lambda>r. (repo_owner r, repo_name r)) (repositories db))
     \<and> distinct (map object_key (objects db)) \<and> distinct (map chunk_key (chunk_table db))
     \<and> distinct (map (\<lambda>c. (oc_repo c, oc_oid c, oc_ordinal c)) (object_chunks db))
     \<and> distinct (map ses_id (upload_sessions db))
     \<and> distinct (map session_key (filter is_open (upload_sessions db)))
     \<and> distinct (map (\<lambda>c. (sc_session c, sc_chunk c)) (upload_session_chunks db))
     \<and> distinct (map lk_id (lfs_locks db))
     \<and> distinct (map (\<lambda>l. (lk_repo l, lk_path l)) (lfs_locks db))
     \<and> distinct (map ep_id (reachability_epochs db))
     \<and> distinct (map (\<lambda>r. (ro_epoch r, ro_oid r)) (reachable_objects db))
     \<and> distinct (map (\<lambda>g. (gr_repo g, gr_subject g)) (repository_grants db))
     \<and> distinct (map tombstone_key (object_tombstones db))
     \<and> distinct (map queue_key (chunk_gc_queue db))"

definition has_repository :: "'j database \<Rightarrow> uuid \<Rightarrow> bool" where
  "has_repository db r \<longleftrightarrow> r \<in> set (map repo_id (repositories db))"

definition foreign_keys_ok :: "'j database \<Rightarrow> bool" where
  "foreign_keys_ok db \<longleftrightarrow>
     list_all (has_repository db) (map obj_repo (objects db))
     \<and> list_all (has_repository db) (map ch_repo (chunk_table db))
     \<and> list_all (\<lambda>c. (oc_repo c, oc_oid c) \<in> set (map object_key (objects db))) (object_chunks db)
     \<and> list_all (\<lambda>c. (oc_repo c, oc_chunk c) \<in> set (map chunk_key (chunk_table db))) (object_chunks db)
     \<and> list_all (has_repository db) (map ses_repo (upload_sessions db))
     \<and> list_all (\<lambda>c. (sc_session c, sc_repo c)
         \<in> set (map (\<lambda>s. (ses_id s, ses_repo s)) (upload_sessions db))) (upload_session_chunks db)
     \<and> list_all (\<lambda>c. (sc_repo c, sc_chunk c) \<in> set (map chunk_key (chunk_table db)))
         (upload_session_chunks db)
     \<and> list_all (has_repository db) (map lk_repo (lfs_locks db))
     \<and> list_all (has_repository db) (map ep_repo (reachability_epochs db))
     \<and> list_all (\<lambda>r. ro_epoch r \<in> set (map ep_id (reachability_epochs db))) (reachable_objects db)
     \<and> list_all (has_repository db) (map gr_repo (repository_grants db))
     \<and> list_all (\<lambda>t. tombstone_key t \<in> set (map object_key (objects db))) (object_tombstones db)
     \<and> list_all (has_repository db) (map q_repo (chunk_gc_queue db))"

definition schema_ok :: "'j database \<Rightarrow> bool" where
  "schema_ok db \<longleftrightarrow> checks_ok db \<and> uniques_ok db \<and> foreign_keys_ok db"

datatype sql_error = CheckViolation | UniqueViolation | ForeignKeyViolation | Unavailable | Protocol string

definition enforce :: "'a \<Rightarrow> 'j database \<Rightarrow> sql_error + ('a \<times> 'j database)" where
  "enforce x db =
     (if \<not> checks_ok db then Inl CheckViolation
      else if \<not> uniques_ok db then Inl UniqueViolation
      else if \<not> foreign_keys_ok db then Inl ForeignKeyViolation
      else Inr (x, db))"

lemma enforce_ok_iff [ok_iff]: "enforce x db = Inr (y, db') \<longleftrightarrow> schema_ok db \<and> y = x \<and> db' = db"
  by (auto simp: enforce_def schema_ok_def)

lemma schema_ok_empty: "schema_ok empty_database"
  by (simp add: schema_ok_def empty_database_def checks_ok_def uniques_ok_def foreign_keys_ok_def)

section \<open>Statements of the upload and download paths\<close>

type_synonym ('j, 'a) statement = "time \<Rightarrow> 'j database \<Rightarrow> sql_error + ('a \<times> 'j database)"

text \<open>\<open>interval '24 hours'\<close> and \<open>make_interval(secs => n)\<close> in microseconds.\<close>

definition secs :: "int \<Rightarrow> time" where
  "secs n = n * 1000000"

definition session_lifetime :: time where
  "session_lifetime = secs (24 * 3600)"

definition select_repository :: "string \<Rightarrow> string \<Rightarrow> ('j, uuid option) statement" where
  "select_repository owner name now db =
     Inr (map_option repo_id (find (\<lambda>r. repo_owner r = owner \<and> repo_name r = name) (repositories db)), db)"

definition expire_sessions_of :: "uuid \<Rightarrow> bytes \<Rightarrow> ('j, unit) statement" where
  "expire_sessions_of repository oid now db =
     enforce () (db\<lparr>upload_sessions := map (\<lambda>s.
        if ses_repo s = repository \<and> ses_oid s = oid \<and> ses_state s = Open \<and> expires_at s \<le> now
        then s\<lparr>ses_state := Expired\<rparr> else s) (upload_sessions db)\<rparr>)"

text \<open>\<open>INSERT INTO upload_sessions \<dots> ON CONFLICT (repository_id, object_oid) WHERE state = 'open' DO UPDATE
  SET expires_at = \<dots> RETURNING id, expires_at, manifest\<close>.\<close>

definition upsert_open_session ::
  "uuid \<Rightarrow> uuid \<Rightarrow> bytes \<Rightarrow> int \<Rightarrow> 'j \<Rightarrow> ('j, uuid \<times> time \<times> 'j) statement" where
  "upsert_open_session id' repository oid size' manifest now db =
     (let until = now + session_lifetime;
          row = \<lparr>ses_id = id', ses_repo = repository, ses_oid = oid, ses_size = size',
                 ses_manifest = manifest, ses_state = Open, expires_at = until\<rparr> in
      if \<not> session_check row then Inl CheckViolation
      else (case find (\<lambda>s. is_open s \<and> session_key s = (repository, oid)) (upload_sessions db) of
          None \<Rightarrow> enforce (id', until, manifest) (db\<lparr>upload_sessions := upload_sessions db @ [row]\<rparr>)
        | Some old \<Rightarrow> enforce (ses_id old, until, ses_manifest old)
            (db\<lparr>upload_sessions := map (\<lambda>s. if is_open s \<and> session_key s = (repository, oid)
               then s\<lparr>expires_at := until\<rparr> else s) (upload_sessions db)\<rparr>)))"

text \<open>\<open>INSERT INTO chunks \<dots> ON CONFLICT DO UPDATE SET size = chunks.size WHERE chunks.size = EXCLUDED.size
  RETURNING size\<close>: no row when the stored size differs.\<close>

definition upsert_chunk :: "uuid \<Rightarrow> bytes \<Rightarrow> int \<Rightarrow> ('j, int option) statement" where
  "upsert_chunk repository chunk size' now db =
     (let row = \<lparr>ch_repo = repository, ch_id = chunk, ch_size = size', reference_count = 0\<rparr> in
      if \<not> chunk_check row then Inl CheckViolation
      else (case find (\<lambda>c. chunk_key c = (repository, chunk)) (chunk_table db) of
          None \<Rightarrow> enforce (Some size') (db\<lparr>chunk_table := chunk_table db @ [row]\<rparr>)
        | Some old \<Rightarrow> Inr (if ch_size old = size' then Some (ch_size old) else None, db)))"

definition insert_session_chunk :: "uuid \<Rightarrow> uuid \<Rightarrow> bytes \<Rightarrow> ('j, unit) statement" where
  "insert_session_chunk session repository chunk now db =
     (let row = \<lparr>sc_session = session, sc_repo = repository, sc_chunk = chunk\<rparr> in
      if length chunk \<noteq> 32 then Inl CheckViolation
      else if \<exists>r \<in> set (upload_session_chunks db). sc_session r = session \<and> sc_chunk r = chunk
      then Inr ((), db)
      else enforce () (db\<lparr>upload_session_chunks := upload_session_chunks db @ [row]\<rparr>))"

text \<open>\<open>state = 'open' AND expires_at > now()\<close>, and the same or \<open>'finalized'\<close>.\<close>

definition session_matches :: "uuid \<Rightarrow> uuid \<Rightarrow> bytes \<Rightarrow> 'j session_row \<Rightarrow> bool" where
  "session_matches upload repository oid s \<longleftrightarrow>
     ses_id s = upload \<and> ses_repo s = repository \<and> ses_oid s = oid"

definition live_at :: "time \<Rightarrow> 'j session_row \<Rightarrow> bool" where
  "live_at now s \<longleftrightarrow> ses_state s = Open \<and> expires_at s > now"

definition select_open_session :: "uuid \<Rightarrow> uuid \<Rightarrow> bytes \<Rightarrow> ('j, 'j option) statement" where
  "select_open_session upload repository oid now db =
     Inr (map_option ses_manifest
       (find (\<lambda>s. session_matches upload repository oid s \<and> live_at now s) (upload_sessions db)), db)"

definition select_finalizable_session ::
  "uuid \<Rightarrow> uuid \<Rightarrow> bytes \<Rightarrow> ('j, ('j \<times> session_state) option) statement" where
  "select_finalizable_session upload repository oid now db =
     Inr (map_option (\<lambda>s. (ses_manifest s, ses_state s))
       (find (\<lambda>s. session_matches upload repository oid s \<and> (live_at now s \<or> ses_state s = Finalized))
          (upload_sessions db)), db)"

definition insert_chunk_if_absent :: "uuid \<Rightarrow> bytes \<Rightarrow> int \<Rightarrow> ('j, unit) statement" where
  "insert_chunk_if_absent repository chunk size' now db =
     (let row = \<lparr>ch_repo = repository, ch_id = chunk, ch_size = size', reference_count = 0\<rparr> in
      if \<not> chunk_check row then Inl CheckViolation
      else if (repository, chunk) \<in> set (map chunk_key (chunk_table db)) then Inr ((), db)
      else enforce () (db\<lparr>chunk_table := chunk_table db @ [row]\<rparr>))"

definition insert_object_if_absent :: "uuid \<Rightarrow> bytes \<Rightarrow> int \<Rightarrow> 'j \<Rightarrow> ('j, nat) statement" where
  "insert_object_if_absent repository oid size' manifest now db =
     (let row = \<lparr>obj_repo = repository, obj_oid = oid, obj_size = size', obj_manifest = manifest\<rparr> in
      if \<not> object_check row then Inl CheckViolation
      else if (repository, oid) \<in> set (map object_key (objects db)) then Inr (0, db)
      else enforce 1 (db\<lparr>objects := objects db @ [row]\<rparr>))"

definition insert_object_chunk ::
  "uuid \<Rightarrow> bytes \<Rightarrow> int \<Rightarrow> bytes \<Rightarrow> int \<Rightarrow> int \<Rightarrow> ('j, unit) statement" where
  "insert_object_chunk repository oid ordinal chunk offset' len now db =
     enforce () (db\<lparr>object_chunks := object_chunks db @
       [\<lparr>oc_repo = repository, oc_oid = oid, oc_ordinal = ordinal, oc_chunk = chunk,
         byte_offset = offset', byte_length = len\<rparr>]\<rparr>)"

definition add_references :: "int \<Rightarrow> uuid \<Rightarrow> bytes \<Rightarrow> ('j, unit) statement" where
  "add_references n repository chunk now db =
     enforce () (db\<lparr>chunk_table := map (\<lambda>c. if chunk_key c = (repository, chunk)
        then c\<lparr>reference_count := reference_count c + n\<rparr> else c) (chunk_table db)\<rparr>)"

definition finalize_session :: "uuid \<Rightarrow> ('j, unit) statement" where
  "finalize_session upload now db =
     enforce () (db\<lparr>upload_sessions := map (\<lambda>s. if ses_id s = upload
        then s\<lparr>ses_state := Finalized\<rparr> else s) (upload_sessions db)\<rparr>)"

definition select_object_manifest :: "uuid \<Rightarrow> bytes \<Rightarrow> ('j, 'j option) statement" where
  "select_object_manifest repository oid now db =
     Inr (map_option obj_manifest (find (\<lambda>r. object_key r = (repository, oid)) (objects db)), db)"

definition select_object_exists :: "uuid \<Rightarrow> bytes \<Rightarrow> ('j, bool) statement" where
  "select_object_exists repository oid now db =
     Inr ((repository, oid) \<in> set (map object_key (objects db)), db)"

definition select_grant :: "string \<Rightarrow> string \<Rightarrow> string \<Rightarrow> ('j, (bool \<times> bool \<times> bool) option) statement" where
  "select_grant owner name subject now db =
     Inr (map_option (\<lambda>g. (can_read g, can_write g, can_admin g))
       (find (\<lambda>g. gr_subject g = subject \<and>
           (\<exists>r \<in> set (repositories db). repo_id r = gr_repo g \<and> repo_owner r = owner \<and> repo_name r = name))
         (repository_grants db)), db)"

end
