(* ===== verification/Action.thy ===== *)
theory Action
  imports Prelude
begin

text \<open>
  Fallible computations over a world: the shape of every handler of the server, of the garbage
  collector and of the client.  An action takes the world and returns a result together with
  the world it leaves behind, also when it fails: effects that happened before an error stay.
  The \<open>?\<close> operator of the sources is \<open>andthen\<close>.  \<open>keeps\<close> and \<open>ok_keeps\<close> are the two
  preservation notions the invariants use: in every outcome, and on success only.
\<close>

type_synonym ('w, 'e, 'a) action = "'w \<Rightarrow> ('e + 'a) \<times> 'w"

named_theorems keeps_intros
named_theorems run_ok

definition ret :: "'a \<Rightarrow> ('w, 'e, 'a) action" where
  "ret x w = (Inr x, w)"

definition fail :: "'e \<Rightarrow> ('w, 'e, 'a) action" where
  "fail e w = (Inl e, w)"

definition of_result :: "'e + 'a \<Rightarrow> ('w, 'e, 'a) action" where
  "of_result r w = (r, w)"

definition andthen :: "('w, 'e, 'a) action \<Rightarrow> ('a \<Rightarrow> ('w, 'e, 'b) action) \<Rightarrow> ('w, 'e, 'b) action" where
  "andthen m f w = (case m w of (Inl e, w') \<Rightarrow> (Inl e, w') | (Inr x, w') \<Rightarrow> f x w')"

definition on_err :: "('e \<Rightarrow> 'f) \<Rightarrow> ('w, 'e, 'a) action \<Rightarrow> ('w, 'f, 'a) action" where
  "on_err g m w = (case m w of (r, w') \<Rightarrow> (map_err g r, w'))"

definition get_world :: "('w \<Rightarrow> 'a) \<Rightarrow> ('w, 'e, 'a) action" where
  "get_world f w = (Inr (f w), w)"

definition set_world :: "('w \<Rightarrow> 'w) \<Rightarrow> ('w, 'e, unit) action" where
  "set_world f w = (Inr (), f w)"

text \<open>\<open>return Err(e)\<close> when a test holds.\<close>

definition guard_err :: "bool \<Rightarrow> 'e \<Rightarrow> ('w, 'e, unit) action" where
  "guard_err b e = (if b then fail e else ret ())"

fun for_each :: "('x \<Rightarrow> ('w, 'e, unit) action) \<Rightarrow> 'x list \<Rightarrow> ('w, 'e, unit) action" where
  "for_each f [] = ret ()"
| "for_each f (x # xs) = andthen (f x) (\<lambda>_. for_each f xs)"

text \<open>A loop with an accumulator.\<close>

fun for_fold :: "('x \<Rightarrow> 'acc \<Rightarrow> ('w, 'e, 'acc) action) \<Rightarrow> 'x list \<Rightarrow> 'acc \<Rightarrow> ('w, 'e, 'acc) action" where
  "for_fold f [] acc = ret acc"
| "for_fold f (x # xs) acc = andthen (f x acc) (for_fold f xs)"

section \<open>Successful runs\<close>

lemma ret_ok [run_ok]: "ret x w = (Inr y, w') \<longleftrightarrow> y = x \<and> w' = w"
  by (auto simp: ret_def)

lemma fail_ok [run_ok]: "fail e w = (Inr y, w') \<longleftrightarrow> False"
  by (simp add: fail_def)

lemma of_result_ok [run_ok]: "of_result r w = (Inr y, w') \<longleftrightarrow> r = Inr y \<and> w' = w"
  by (auto simp: of_result_def)

lemma andthen_ok [run_ok]:
  "andthen m f w = (Inr y, w'') \<longleftrightarrow> (\<exists>x w'. m w = (Inr x, w') \<and> f x w' = (Inr y, w''))"
  by (auto simp: andthen_def split: prod.splits sum.splits)

lemma on_err_ok [run_ok]: "on_err g m w = (Inr y, w') \<longleftrightarrow> m w = (Inr y, w')"
  by (cases "m w") (auto simp: on_err_def ok_iff)

lemma get_world_ok [run_ok]: "get_world f w = (Inr y, w') \<longleftrightarrow> y = f w \<and> w' = w"
  by (auto simp: get_world_def)

lemma set_world_ok [run_ok]: "set_world f w = (Inr y, w') \<longleftrightarrow> w' = f w"
  by (auto simp: set_world_def)

lemma guard_err_ok [run_ok]: "guard_err b e w = (Inr y, w') \<longleftrightarrow> \<not> b \<and> w' = w"
  by (auto simp: guard_err_def run_ok)

lemma if_action: "(if b then m else m') w = (if b then m w else m' w)"
  by simp

lemma andthen_run:
  "m w = (Inr x, w') \<Longrightarrow> andthen m f w = f x w'" "m w = (Inl e, w') \<Longrightarrow> andthen m f w = (Inl e, w')"
  by (simp_all add: andthen_def)

lemma andthen_assoc: "andthen (andthen m f) g = andthen m (\<lambda>x. andthen (f x) g)"
  by (rule ext) (auto simp: andthen_def split: prod.splits sum.splits)

lemma andthen_ret [simp]: "andthen (ret x) f = f x"
  by (rule ext) (simp add: andthen_def ret_def)

lemma andthen_of_result: "andthen (of_result (Inr x)) f = f x"
  by (rule ext) (simp add: andthen_def of_result_def)

lemma andthen_guard_false: "andthen (guard_err False e) f = f ()"
  by (rule ext) (simp add: andthen_def guard_err_def ret_def)

lemma andthen_fail [simp]: "andthen (fail e) f = fail e"
  by (rule ext) (simp add: andthen_def fail_def)

section \<open>Preservation\<close>

definition keeps :: "('w \<Rightarrow> bool) \<Rightarrow> ('w, 'e, 'a) action \<Rightarrow> bool" where
  "keeps I m \<longleftrightarrow> (\<forall>w. I w \<longrightarrow> I (snd (m w)))"

definition ok_keeps :: "('w \<Rightarrow> bool) \<Rightarrow> ('w, 'e, 'a) action \<Rightarrow> bool" where
  "ok_keeps I m \<longleftrightarrow> (\<forall>w x w'. I w \<longrightarrow> m w = (Inr x, w') \<longrightarrow> I w')"

lemma keepsI: "(\<And>w r w'. I w \<Longrightarrow> m w = (r, w') \<Longrightarrow> I w') \<Longrightarrow> keeps I m"
  by (metis keeps_def prod.collapse)

lemma keepsD: "keeps I m \<Longrightarrow> I w \<Longrightarrow> m w = (r, w') \<Longrightarrow> I w'"
  by (metis keeps_def snd_conv)

lemma ok_keepsI: "(\<And>w x w'. I w \<Longrightarrow> m w = (Inr x, w') \<Longrightarrow> I w') \<Longrightarrow> ok_keeps I m"
  by (auto simp: ok_keeps_def)

lemma ok_keepsD: "ok_keeps I m \<Longrightarrow> I w \<Longrightarrow> m w = (Inr x, w') \<Longrightarrow> I w'"
  by (auto simp: ok_keeps_def)

lemma keeps_ok_keeps: "keeps I m \<Longrightarrow> ok_keeps I m"
  by (metis keepsD ok_keepsI)

lemma keeps_ret [keeps_intros]: "keeps I (ret x)"
  by (simp add: keeps_def ret_def)

lemma keeps_fail [keeps_intros]: "keeps I (fail e)"
  by (simp add: keeps_def fail_def)

lemma keeps_of_result [keeps_intros]: "keeps I (of_result r)"
  by (simp add: keeps_def of_result_def)

lemma keeps_get_world [keeps_intros]: "keeps I (get_world f)"
  by (simp add: keeps_def get_world_def)

lemma keeps_guard_err [keeps_intros]: "keeps I (guard_err b e)"
  by (simp add: guard_err_def keeps_fail keeps_ret)

lemma keeps_andthen [keeps_intros]:
  "keeps I m \<Longrightarrow> (\<And>x. keeps I (f x)) \<Longrightarrow> keeps I (andthen m f)"
  by (rule keepsI) (auto simp: andthen_def dest: keepsD split: prod.splits sum.splits)

lemma keeps_on_err [keeps_intros]: "keeps I m \<Longrightarrow> keeps I (on_err g m)"
  by (rule keepsI) (auto simp: on_err_def dest: keepsD split: prod.splits)

lemma keeps_if [keeps_intros]: "keeps I m \<Longrightarrow> keeps I m' \<Longrightarrow> keeps I (if b then m else m')"
  by simp

lemma keeps_case_option [keeps_intros]:
  "keeps I m \<Longrightarrow> (\<And>x. keeps I (f x)) \<Longrightarrow> keeps I (case v of None \<Rightarrow> m | Some x \<Rightarrow> f x)"
  by (cases v) auto

lemma keeps_case_prod [keeps_intros]:
  "(\<And>x y. keeps I (f x y)) \<Longrightarrow> keeps I (case p of (x, y) \<Rightarrow> f x y)"
  by (cases p) auto

lemma keeps_for_each [keeps_intros]: "(\<And>x. keeps I (f x)) \<Longrightarrow> keeps I (for_each f xs)"
  by (induction xs) (auto intro: keeps_intros)

lemma keeps_for_fold [keeps_intros]: "(\<And>x a. keeps I (f x a)) \<Longrightarrow> keeps I (for_fold f xs acc)"
  by (induction xs arbitrary: acc) (auto intro: keeps_intros)

text \<open>Inside a successful test the rest of the action may use what was tested.\<close>

lemma keeps_of_result_then:
  "(\<And>x. r = Inr x \<Longrightarrow> keeps I (f x)) \<Longrightarrow> keeps I (andthen (of_result r) f)"
  by (cases r) (auto simp: keeps_def andthen_def of_result_def)

lemma keeps_guard_then: "(\<not> b \<Longrightarrow> keeps I (f ())) \<Longrightarrow> keeps I (andthen (guard_err b e) f)"
  by (auto simp: keeps_def andthen_def guard_err_def fail_def ret_def)

lemmas keeps_checked = keeps_of_result_then keeps_guard_then

lemma ok_keeps_andthen:
  "ok_keeps I m \<Longrightarrow> (\<And>x. ok_keeps I (f x)) \<Longrightarrow> ok_keeps I (andthen m f)"
  by (rule ok_keepsI) (auto simp: run_ok dest: ok_keepsD)

lemma ok_keeps_for_each: "(\<And>x. x \<in> set xs \<Longrightarrow> ok_keeps I (f x)) \<Longrightarrow> ok_keeps I (for_each f xs)"
  by (induction xs) (auto intro: ok_keeps_andthen keeps_ok_keeps keeps_ret)

section \<open>Triples\<close>

text \<open>From \<open>P\<close>, an error leaves \<open>I\<close>, and success with value \<open>x\<close> leaves \<open>Q x\<close>.\<close>

definition triple ::
  "('w \<Rightarrow> bool) \<Rightarrow> ('w, 'e, 'a) action \<Rightarrow> ('a \<Rightarrow> 'w \<Rightarrow> bool) \<Rightarrow> ('w \<Rightarrow> bool) \<Rightarrow> bool" where
  "triple P m Q I \<longleftrightarrow> (\<forall>w r w'. P w \<longrightarrow> m w = (r, w') \<longrightarrow> (case r of Inl e \<Rightarrow> I w' | Inr x \<Rightarrow> Q x w'))"

lemma tripleI:
  "(\<And>w e w'. P w \<Longrightarrow> m w = (Inl e, w') \<Longrightarrow> I w') \<Longrightarrow>
   (\<And>w x w'. P w \<Longrightarrow> m w = (Inr x, w') \<Longrightarrow> Q x w') \<Longrightarrow> triple P m Q I"
  by (auto simp: triple_def split: sum.splits)

lemma triple_andthen:
  "triple P m R I \<Longrightarrow> (\<And>x. triple (R x) (f x) Q I) \<Longrightarrow> triple P (andthen m f) Q I"
  unfolding triple_def andthen_def by (fastforce split: prod.splits sum.splits)

lemma triple_keeps: "keeps I m \<Longrightarrow> triple I m (\<lambda>_. I) I"
  by (rule tripleI) (auto dest: keepsD)

lemma keeps_triple: "triple I m (\<lambda>_. I) I \<Longrightarrow> keeps I m"
  by (rule keepsI) (auto simp: triple_def split: sum.splits)

lemma triple_strengthen: "triple P' m Q I \<Longrightarrow> (\<And>w. P w \<Longrightarrow> P' w) \<Longrightarrow> triple P m Q I"
  by (auto simp: triple_def)

lemma triple_pure: "(C \<Longrightarrow> triple P m Q I) \<Longrightarrow> triple (\<lambda>w. P w \<and> C) m Q I"
  by (auto simp: triple_def)

lemma triple_ret: "(\<And>w. P w \<Longrightarrow> Q x w) \<Longrightarrow> triple P (ret x) Q I"
  by (simp add: triple_def ret_def)

lemma triple_of_result:
  "(\<And>w. P w \<Longrightarrow> I w) \<Longrightarrow> (\<And>w x. P w \<Longrightarrow> r = Inr x \<Longrightarrow> Q x w) \<Longrightarrow> triple P (of_result r) Q I"
  by (auto simp: triple_def of_result_def split: sum.splits)

lemma triple_of_result_then:
  "(\<And>w. P w \<Longrightarrow> I w) \<Longrightarrow> (\<And>x. r = Inr x \<Longrightarrow> triple P (f x) Q I) \<Longrightarrow> triple P (andthen (of_result r) f) Q I"
  by (cases r) (auto simp: triple_def of_result_def andthen_def)

lemma triple_guard_then:
  "(\<And>w. P w \<Longrightarrow> I w) \<Longrightarrow> (\<not> b \<Longrightarrow> triple P (f ()) Q I) \<Longrightarrow> triple P (andthen (guard_err b e) f) Q I"
  by (auto simp: triple_def guard_err_def fail_def ret_def andthen_def)

lemma triple_guard:
  "(\<And>w. P w \<Longrightarrow> I w) \<Longrightarrow> (\<And>w. P w \<Longrightarrow> \<not> b \<Longrightarrow> Q () w) \<Longrightarrow> triple P (guard_err b e) Q I"
  by (auto simp: triple_def guard_err_def fail_def ret_def)

section \<open>Possible errors\<close>

text \<open>\<open>errs_in S m\<close>: whenever the action fails, its error is in \<open>S\<close>.\<close>

definition errs_in :: "'e set \<Rightarrow> ('w, 'e, 'a) action \<Rightarrow> bool" where
  "errs_in S m \<longleftrightarrow> (\<forall>w e w'. m w = (Inl e, w') \<longrightarrow> e \<in> S)"

named_theorems errs_intros

lemma errs_inD: "errs_in S m \<Longrightarrow> m w = (Inl e, w') \<Longrightarrow> e \<in> S"
  by (auto simp: errs_in_def)

lemma errs_in_mono: "errs_in S m \<Longrightarrow> S \<subseteq> T \<Longrightarrow> errs_in T m"
  by (auto simp: errs_in_def)

lemma errs_in_andthen [errs_intros]:
  "errs_in S m \<Longrightarrow> (\<And>x w w'. m w = (Inr x, w') \<Longrightarrow> errs_in S (f x)) \<Longrightarrow> errs_in S (andthen m f)"
  unfolding errs_in_def andthen_def by (auto split: prod.splits sum.splits)

lemma errs_in_ret [errs_intros]: "errs_in S (ret x)"
  by (simp add: errs_in_def ret_def)

lemma errs_in_fail [errs_intros]: "e \<in> S \<Longrightarrow> errs_in S (fail e)"
  by (simp add: errs_in_def fail_def)

lemma errs_in_of_result [errs_intros]: "(\<And>e. r = Inl e \<Longrightarrow> e \<in> S) \<Longrightarrow> errs_in S (of_result r)"
  by (simp add: errs_in_def of_result_def)

lemma errs_in_guard [errs_intros]: "(b \<Longrightarrow> e \<in> S) \<Longrightarrow> errs_in S (guard_err b e)"
  by (auto simp: errs_in_def guard_err_def fail_def ret_def)

lemma errs_in_on_err [errs_intros]: "(\<And>e. g e \<in> S) \<Longrightarrow> errs_in S (on_err g m)"
  by (auto simp: errs_in_def on_err_def map_err_def split: prod.splits sum.splits)

lemma errs_in_if [errs_intros]:
  "(b \<Longrightarrow> errs_in S m) \<Longrightarrow> (\<not> b \<Longrightarrow> errs_in S m') \<Longrightarrow> errs_in S (if b then m else m')"
  by simp

lemma errs_in_for_each [errs_intros]: "(\<And>x. x \<in> set xs \<Longrightarrow> errs_in S (f x)) \<Longrightarrow> errs_in S (for_each f xs)"
  by (induction xs) (auto intro!: errs_intros)

lemma errs_in_for_fold [errs_intros]:
  "(\<And>x a. x \<in> set xs \<Longrightarrow> errs_in S (f x a)) \<Longrightarrow> errs_in S (for_fold f xs acc)"
  by (induction xs arbitrary: acc) (auto intro!: errs_intros)

end
