(* ===== verification/World.thy ===== *)
theory World
  imports Storage Schema Action
begin

text \<open>
  What a running server acts on, and how it reaches PostgreSQL.  \<open>server_deps\<close> collects the
  third-party functions the server calls (JSON, JWT, URL and HTTP-header libraries).  \<open>world\<close> is the
  mutable state behind \<open>AppState\<close>: the database, the provider state of the chunk store, the Forgejo
  authorization cache, counters and clocks, together with scripts for everything the
  environment decides: whether a database round trip succeeds, how long it takes, which
  transactions of other processes commit before it, what Forgejo answers and whether a file operation
  works.  An empty script means success.

  \<open>exec_pool\<close> is a statement run on the pool, \<open>exec_tx\<close> one inside a transaction, \<open>transaction\<close> the
  \<open>begin\<close> / body / \<open>commit\<close> pattern of the sources: an error in the body drops the transaction and
  thereby rolls the database back, and a commit whose acknowledgement is lost has happened.
  Transactions are atomic: other processes' work is placed at \<open>begin\<close> and at pool statements.
\<close>

section \<open>Dependencies and state\<close>

record ('s, 'j) server_deps = "'s storage_deps" +
  to_value :: "object_manifest \<Rightarrow> string + 'j"
  from_value :: "'j \<Rightarrow> string + object_manifest"
  hex_error_to_string :: "from_hex_error \<Rightarrow> string"
  format_micros :: "time \<Rightarrow> string"
  format_seconds :: "time \<Rightarrow> string"
  header_to_str :: "bytes \<Rightarrow> string option"
  url_join :: "string \<Rightarrow> string \<Rightarrow> string + string"
  url_extend :: "string \<Rightarrow> string list \<Rightarrow> string option"
  url_extend_clean :: "string \<Rightarrow> string list \<Rightarrow> string option"
  jwt_decode_header :: "string \<Rightarrow> (string option \<times> string) option"
  jwt_decoding_key :: "string \<Rightarrow> string option"
  jwt_decode :: "int \<Rightarrow> string \<Rightarrow> string \<Rightarrow> string \<Rightarrow> string \<Rightarrow> string \<Rightarrow> string option"

datatype db_outcome = Done | Refused | AckLost

record 'j db_event =
  elapsed :: nat
  outcome :: db_outcome
  interference :: "'j database \<Rightarrow> 'j database"

record cached_identity =
  cached_subject :: string
  cached_administrator :: bool
  cached_expires_at :: nat

text \<open>An HTTP exchange: the request could not be sent, or a status with the outcome of decoding the
  JSON body.\<close>

type_synonym 'a http_reply = "string + (nat \<times> (string + 'a))"

text \<open>What was asked of Forgejo, with which credentials, and the answer.\<close>

datatype http_exchange =
    UserExchange string string "string http_reply"
  | RepoExchange string string "(bool \<times> bool \<times> bool) http_reply"

record service_metrics =
  logical_uploaded :: u64
  logical_downloaded :: u64
  chunks_received :: u64
  auth_cache_hits :: u64
  auth_cache_misses :: u64
  forgejo_requests :: u64
  http_requests :: u64
  http_failures :: u64
  in_flight :: u64

record ('s, 'j) world =
  db :: "'j database"
  db_script :: "'j db_event list"
  clock :: time
  tx_now :: time
  store :: 's
  cache_entries :: "(digest \<times> cached_identity) list"
  instant :: nat
  ticks :: "nat list"
  wall_clock :: int
  user_replies :: "string http_reply list"
  repo_replies :: "(bool \<times> bool \<times> bool) http_reply list"
  http_log :: "http_exchange list"
  io_script :: "bool list"
  metrics :: service_metrics
  storage_ready_until :: "nat option"
  semaphores_closed :: bool

definition zero_metrics :: service_metrics where
  "zero_metrics = \<lparr>logical_uploaded = 0, logical_downloaded = 0, chunks_received = 0, auth_cache_hits = 0,
     auth_cache_misses = 0, forgejo_requests = 0, http_requests = 0, http_failures = 0, in_flight = 0\<rparr>"

definition fresh_world :: "'j database \<Rightarrow> 's \<Rightarrow> time \<Rightarrow> ('s, 'j) world" where
  "fresh_world d s t = \<lparr>db = d, db_script = [], clock = t, tx_now = t, store = s, cache_entries = [],
     instant = 0, ticks = [], wall_clock = 0, user_replies = [], repo_replies = [], http_log = [],
     io_script = [], metrics = zero_metrics, storage_ready_until = None, semaphores_closed = False\<rparr>"

text \<open>\<open>Authentication\<close> without the mutable cache entries, and the fixed part of \<open>AppState\<close>.\<close>

datatype authentication =
    DevelopmentToken digest
  | Forgejo (fj_base_url: string) (fj_ttl: nat) (fj_capacity: nat)
  | Oidc string string "(string \<times> string) list"

record app_state =
  base_url :: string
  authentication :: authentication

section \<open>Errors\<close>

record api_error =
  status :: nat
  message :: string

definition api_error_new :: "nat \<Rightarrow> string \<Rightarrow> api_error" where
  "api_error_new s m = \<lparr>status = s, message = m\<rparr>"

definition unauthorized :: api_error where
  "unauthorized = api_error_new 401 ''authentication required''"

definition authentication_error :: "string \<Rightarrow> api_error" where
  "authentication_error m = api_error_new 502 ''authentication provider unavailable''"

definition database_error :: "sql_error \<Rightarrow> api_error" where
  "database_error e = api_error_new 500 ''internal service error''"

definition io_error :: "unit \<Rightarrow> api_error" where
  "io_error e = api_error_new 500 ''internal I/O error''"

fun digest_mismatch_text :: "('s, 'm) storage_deps_scheme \<Rightarrow> chunk_id \<Rightarrow> string \<Rightarrow> string" where
  "digest_mismatch_text D expected actual =
     ''chunk digest mismatch: expected '' @ to_string D expected @ '', received '' @ actual"

fun storage_api_error :: "('s, 'm) storage_deps_scheme \<Rightarrow> storage_error \<Rightarrow> api_error" where
  "storage_api_error D (DigestMismatch expected actual) =
     api_error_new 422 (digest_mismatch_text D expected actual)"
| "storage_api_error D ProbeMismatch = api_error_new 500 ''object storage error''"
| "storage_api_error D (Provider e) = api_error_new 500 ''object storage error''"

definition join_error :: "unit \<Rightarrow> api_error" where
  "join_error e = api_error_new 500 ''chunk producer failed''"

definition integrity :: "string \<Rightarrow> api_error" where
  "integrity m = api_error_new 500 ''stored object failed integrity validation''"

lemmas api_error_defs = api_error_new_def unauthorized_def authentication_error_def database_error_def
  io_error_def join_error_def integrity_def

section \<open>Reaching the database\<close>

definition default_event :: "'j db_event" where
  "default_event = \<lparr>elapsed = 0, outcome = Done, interference = (\<lambda>d. d)\<rparr>"

definition take_event :: "('s, 'j) world \<Rightarrow> 'j db_event \<times> ('s, 'j) world" where
  "take_event w = (case db_script w of
       [] \<Rightarrow> (default_event, w)
     | ev # evs \<Rightarrow> (ev, w\<lparr>db_script := evs, clock := clock w + int (elapsed ev)\<rparr>))"

definition exec_tx :: "('j, 'a) statement \<Rightarrow> (('s, 'j) world, sql_error, 'a) action" where
  "exec_tx st w = (case take_event w of (ev, w1) \<Rightarrow>
     if outcome ev \<noteq> Done then (Inl Unavailable, w1)
     else (case st (tx_now w1) (db w1) of
         Inl e \<Rightarrow> (Inl e, w1)
       | Inr (x, d) \<Rightarrow> (Inr x, w1\<lparr>db := d\<rparr>)))"

definition exec_pool :: "('j, 'a) statement \<Rightarrow> (('s, 'j) world, sql_error, 'a) action" where
  "exec_pool st w = (case take_event w of (ev, w1) \<Rightarrow>
     let d0 = interference ev (db w1); w2 = w1\<lparr>db := d0, tx_now := clock w1\<rparr> in
     if outcome ev = Refused then (Inl Unavailable, w2)
     else (case st (clock w1) d0 of
         Inl e \<Rightarrow> (Inl e, w2)
       | Inr (x, d) \<Rightarrow>
           (if outcome ev = AckLost then Inl Unavailable else Inr x, w2\<lparr>db := d\<rparr>)))"

definition db_begin :: "(('s, 'j) world, sql_error, unit) action" where
  "db_begin w = (case take_event w of (ev, w1) \<Rightarrow>
     let w2 = w1\<lparr>db := interference ev (db w1), tx_now := clock w1\<rparr> in
     (if outcome ev = Done then Inr () else Inl Unavailable, w2))"

text \<open>\<open>begin\<close>, then the body, then \<open>commit\<close>; \<open>conv\<close> converts the errors of \<open>begin\<close> and \<open>commit\<close>.\<close>

definition transaction ::
  "(sql_error \<Rightarrow> 'e) \<Rightarrow> (('s, 'j) world, 'e, 'a) action \<Rightarrow> (('s, 'j) world, 'e, 'a) action" where
  "transaction conv body w =
     (case db_begin w of
        (Inl e, w1) \<Rightarrow> (Inl (conv e), w1)
      | (Inr _, w1) \<Rightarrow>
          (case body w1 of
             (Inl e, w2) \<Rightarrow> (Inl e, w2\<lparr>db := db w1\<rparr>)
           | (Inr x, w2) \<Rightarrow>
               (case take_event w2 of (ev, w3) \<Rightarrow>
                  (case outcome ev of
                     Done \<Rightarrow> (Inr x, w3)
                   | Refused \<Rightarrow> (Inl (conv Unavailable), w3\<lparr>db := db w1\<rparr>)
                   | AckLost \<Rightarrow> (Inl (conv Unavailable), w3)))))"

text \<open>A statement of a handler: its error becomes \<open>ApiError::database\<close>.\<close>

abbreviation query_tx :: "('j, 'a) statement \<Rightarrow> (('s, 'j) world, api_error, 'a) action" where
  "query_tx st \<equiv> on_err database_error (exec_tx st)"

abbreviation query_pool :: "('j, 'a) statement \<Rightarrow> (('s, 'j) world, api_error, 'a) action" where
  "query_pool st \<equiv> on_err database_error (exec_pool st)"

section \<open>Other effects\<close>

text \<open>An operation on the chunk store.\<close>

definition on_store ::
  "('s \<Rightarrow> (storage_error + 'a) \<times> 's) \<Rightarrow> (('s, 'j) world, storage_error, 'a) action" where
  "on_store op w = (case op (store w) of (r, s) \<Rightarrow> (r, w\<lparr>store := s\<rparr>))"

definition bump :: "(service_metrics \<Rightarrow> service_metrics) \<Rightarrow> (('s, 'j) world, 'e, unit) action" where
  "bump f = set_world (\<lambda>w. w\<lparr>metrics := f (metrics w)\<rparr>)"

text \<open>\<open>Instant::now()\<close>: a monotone reading.\<close>

definition later :: "('s, 'j) world \<Rightarrow> ('s, 'j) world" where
  "later w = (case ticks w of [] \<Rightarrow> w | t # ts \<Rightarrow> w\<lparr>instant := instant w + t, ticks := ts\<rparr>)"

definition instant_now :: "(('s, 'j) world, 'e, nat) action" where
  "instant_now w = (Inr (instant (later w)), later w)"

definition file_io :: "(('s, 'j) world, api_error, unit) action" where
  "file_io w = (case io_script w of
       [] \<Rightarrow> (Inr (), w)
     | ok # rest \<Rightarrow> (if ok then Inr () else Inl (io_error ()), w\<lparr>io_script := rest\<rparr>))"

definition join_blocking :: "(('s, 'j) world, api_error, unit) action" where
  "join_blocking w = (case io_script w of
       [] \<Rightarrow> (Inr (), w)
     | ok # rest \<Rightarrow> (if ok then Inr () else Inl (join_error ()), w\<lparr>io_script := rest\<rparr>))"

definition acquire_permit :: "(('s, 'j) world, api_error, unit) action" where
  "acquire_permit w =
     (if semaphores_closed w then Inl (api_error_new 503 ''server is shutting down'') else Inr (), w)"

section \<open>Successful runs\<close>

lemma take_event_frame:
  assumes "take_event w = (ev, w')"
  shows "db w' = db w" "store w' = store w" "tx_now w' = tx_now w" "cache_entries w' = cache_entries w"
    "set (db_script w') \<subseteq> set (db_script w)" "clock w \<le> clock w'"
    "ev = default_event \<or> ev \<in> set (db_script w)" "db_script w = [] \<Longrightarrow> w' = w \<and> ev = default_event"
  using assms by (auto simp: take_event_def split: list.splits)

lemma default_event_simps [simp]:
  "outcome default_event = Done" "interference default_event = (\<lambda>d. d)" "elapsed default_event = 0"
  by (simp_all add: default_event_def)

lemma exec_tx_ok [run_ok]:
  "exec_tx st w = (Inr x, w') \<longleftrightarrow>
     (\<exists>ev w1 d. take_event w = (ev, w1) \<and> outcome ev = Done \<and> st (tx_now w) (db w) = Inr (x, d)
        \<and> w' = w1\<lparr>db := d\<rparr>)"
proof -
  obtain ev w1 where "take_event w = (ev, w1)" by (cases "take_event w")
  then show ?thesis
    using take_event_frame(1,3) [of w ev w1]
    by (auto simp: exec_tx_def split: sum.splits)
qed

lemma transaction_ok [run_ok]:
  "transaction conv body w = (Inr x, w') \<longleftrightarrow>
     (\<exists>w1 w2 ev. db_begin w = (Inr (), w1) \<and> body w1 = (Inr x, w2)
        \<and> take_event w2 = (ev, w') \<and> outcome ev = Done)"
  by (auto simp: transaction_def split: prod.splits sum.splits db_outcome.splits)

lemma on_store_ok [run_ok]:
  "on_store op w = (Inr x, w') \<longleftrightarrow> (\<exists>s. op (store w) = (Inr x, s) \<and> w' = w\<lparr>store := s\<rparr>)"
  by (auto simp: on_store_def split: prod.splits)

lemma bump_ok [run_ok]: "bump f w = (Inr x, w') \<longleftrightarrow> w' = w\<lparr>metrics := f (metrics w)\<rparr>"
  by (auto simp: bump_def run_ok)

lemma acquire_permit_ok [run_ok]:
  "acquire_permit w = (Inr x, w') \<longleftrightarrow> \<not> semaphores_closed w \<and> w' = w"
  by (auto simp: acquire_permit_def)

lemma file_io_frame:
  "db (snd (file_io w)) = db w" "store (snd (file_io w)) = store w"
  "db_script (snd (file_io w)) = db_script w"
  "db (snd (join_blocking w)) = db w" "store (snd (join_blocking w)) = store w"
  "db_script (snd (join_blocking w)) = db_script w"
  by (simp_all add: file_io_def join_blocking_def split: list.splits)

lemma later_frame [simp]:
  "db (later w) = db w" "store (later w) = store w" "db_script (later w) = db_script w"
  "cache_entries (later w) = cache_entries w" "http_log (later w) = http_log w"
  "metrics (later w) = metrics w" "instant w \<le> instant (later w)"
  by (simp_all add: later_def split: list.split)

section \<open>Preservation of database predicates\<close>

text \<open>\<open>stable P w\<close>: the transactions other processes may commit from here on preserve \<open>P\<close>.
  \<open>holds P w\<close>: \<open>P\<close> is true of the database now, and stable.  \<open>st_keeps P st\<close>: a statement that
  succeeds preserves \<open>P\<close>.\<close>

definition stable :: "('j database \<Rightarrow> bool) \<Rightarrow> ('s, 'j) world \<Rightarrow> bool" where
  "stable P w \<longleftrightarrow> (\<forall>ev \<in> set (db_script w). \<forall>d. P d \<longrightarrow> P (interference ev d))"

definition holds :: "('j database \<Rightarrow> bool) \<Rightarrow> ('s, 'j) world \<Rightarrow> bool" where
  "holds P w \<longleftrightarrow> P (db w) \<and> stable P w"

definition st_keeps :: "('j database \<Rightarrow> bool) \<Rightarrow> ('j, 'a) statement \<Rightarrow> bool" where
  "st_keeps P st \<longleftrightarrow> (\<forall>now d x d'. P d \<longrightarrow> st now d = Inr (x, d') \<longrightarrow> P d')"

lemma st_keepsI: "(\<And>now d x d'. P d \<Longrightarrow> st now d = Inr (x, d') \<Longrightarrow> P d') \<Longrightarrow> st_keeps P st"
  by (auto simp: st_keeps_def)

lemma st_keepsD: "st_keeps P st \<Longrightarrow> P d \<Longrightarrow> st now d = Inr (x, d') \<Longrightarrow> P d'"
  by (auto simp: st_keeps_def)

lemma stable_take_event:
  "take_event w = (ev, w') \<Longrightarrow> stable P w \<Longrightarrow> stable P w' \<and> (\<forall>d. P d \<longrightarrow> P (interference ev d))"
  using take_event_frame(5,7) [of w ev w'] by (auto simp: stable_def)

lemma stable_script: "stable P w \<Longrightarrow> db_script w' = db_script w \<Longrightarrow> stable P w'"
  by (simp add: stable_def)

lemma db_begin_keeps [keeps_intros]: "keeps (holds P) db_begin" "keeps (stable P) db_begin"
proof -
  have "stable P (snd (db_begin w)) \<and> (P (db w) \<longrightarrow> P (db (snd (db_begin w))))" if "stable P w" for w
  proof -
    obtain ev w1 where t: "take_event w = (ev, w1)" by (cases "take_event w")
    then show ?thesis
      using stable_take_event [OF t that] take_event_frame(1) [OF t]
      by (auto simp: db_begin_def Let_def stable_def)
  qed
  then show "keeps (holds P) db_begin" "keeps (stable P) db_begin"
    by (auto simp: keeps_def holds_def)
qed

lemma exec_tx_stable [keeps_intros]: "keeps (stable P) (exec_tx st)"
proof (rule keepsI)
  fix w r w' assume s: "stable P w" and run: "exec_tx st w = (r, w')"
  obtain ev w1 where t: "take_event w = (ev, w1)" by (cases "take_event w")
  have "db_script w' = db_script w1"
    using run t by (auto simp: exec_tx_def split: if_splits sum.splits)
  then show "stable P w'" using stable_take_event [OF t s] by (simp add: stable_def)
qed

lemma exec_tx_keeps [keeps_intros]:
  assumes "st_keeps P st"
  shows "keeps (holds P) (exec_tx st)"
proof (rule keepsI)
  fix w r w' assume h: "holds P w" and run: "exec_tx st w = (r, w')"
  obtain ev w1 where t: "take_event w = (ev, w1)" by (cases "take_event w")
  have "stable P w'" using keepsD [OF exec_tx_stable _ run] h by (simp add: holds_def)
  moreover have "P (db w')"
    using run h t take_event_frame(1) [OF t] st_keepsD [OF assms]
    by (auto simp: exec_tx_def holds_def split: if_splits sum.splits)
  ultimately show "holds P w'" by (simp add: holds_def)
qed

lemma exec_pool_stable [keeps_intros]: "keeps (stable P) (exec_pool st)"
proof (rule keepsI)
  fix w r w' assume s: "stable P w" and run: "exec_pool st w = (r, w')"
  obtain ev w1 where t: "take_event w = (ev, w1)" by (cases "take_event w")
  have "db_script w' = db_script w1"
    using run t by (auto simp: exec_pool_def Let_def split: if_splits sum.splits)
  then show "stable P w'" using stable_take_event [OF t s] by (simp add: stable_def)
qed

lemma exec_pool_keeps [keeps_intros]:
  assumes "st_keeps P st"
  shows "keeps (holds P) (exec_pool st)"
proof (rule keepsI)
  fix w r w' assume h: "holds P w" and run: "exec_pool st w = (r, w')"
  obtain ev w1 where t: "take_event w = (ev, w1)" by (cases "take_event w")
  have "P (interference ev (db w1))"
    using h stable_take_event [OF t] take_event_frame(1) [OF t] by (auto simp: holds_def)
  then have "P (db w')"
    using run t st_keepsD [OF assms]
    by (auto simp: exec_pool_def Let_def split: if_splits sum.splits)
  then show "holds P w'" using keepsD [OF exec_pool_stable _ run] h by (simp add: holds_def)
qed

text \<open>An invariant of the database survives a transaction in every outcome as soon as a body that
  succeeds re-establishes it: a body that stops half-way is rolled back.\<close>

lemma transaction_keeps:
  assumes st: "keeps (stable P) body" and ok: "ok_keeps (holds P) body"
  shows "keeps (holds P) (transaction conv body)"
proof (rule keepsI)
  fix w r w' assume h: "holds P w" and run: "transaction conv body w = (r, w')"
  obtain b w1 where b: "db_begin w = (b, w1)" by (cases "db_begin w")
  have h1: "holds P w1" using keepsD [OF db_begin_keeps(1) h b] .
  show "holds P w'"
  proof (cases b)
    case (Inl e)
    then show ?thesis using run b h1 by (simp add: transaction_def)
  next
    case (Inr u)
    obtain x w2 where x: "body w1 = (x, w2)" by (cases "body w1")
    have s2: "stable P w2" using keepsD [OF st _ x] h1 by (simp add: holds_def)
    obtain ev w3 where t: "take_event w2 = (ev, w3)" by (cases "take_event w2")
    note s3 = stable_take_event [OF t s2] and d3 = take_event_frame(1) [OF t]
    show ?thesis
    proof (cases x)
      case (Inl e)
      then show ?thesis using run b Inr x h1 s2 by (auto simp: transaction_def holds_def stable_def)
    next
      case x': (Inr y)
      then have "holds P w2" using ok_keepsD [OF ok h1] x by auto
      then show ?thesis
        using run b Inr x x' t h1 s3 d3
        by (auto simp: transaction_def holds_def stable_def split: db_outcome.splits)
    qed
  qed
qed

lemma transaction_stable [keeps_intros]:
  "keeps (stable P) body \<Longrightarrow> keeps (stable P) (transaction conv body)"
proof (rule keepsI)
  fix w r w' assume st: "keeps (stable P) body" and h: "stable P w"
    and run: "transaction conv body w = (r, w')"
  obtain b w1 where b: "db_begin w = (b, w1)" by (cases "db_begin w")
  obtain x w2 where x: "body w1 = (x, w2)" by (cases "body w1")
  obtain ev w3 where t: "take_event w2 = (ev, w3)" by (cases "take_event w2")
  have s1: "stable P w1" using keepsD [OF db_begin_keeps(2) h b] .
  have s2: "stable P w2" using keepsD [OF st s1 x] .
  have s3: "stable P w3" using stable_take_event [OF t s2] by simp
  show "stable P w'"
    using run b x t s1 s2 s3
    by (auto simp: transaction_def stable_def split: sum.splits db_outcome.splits)
qed

lemma local_keeps:
  assumes "\<And>w. db (snd (m w)) = db w" "\<And>w. db_script (snd (m w)) = db_script w"
  shows "keeps (holds P) m" "keeps (stable P) m"
  using assms by (simp_all add: keeps_def holds_def stable_def)

lemma on_store_keeps [keeps_intros]: "keeps (holds P) (on_store op)" "keeps (stable P) (on_store op)"
  by (rule local_keeps; simp add: on_store_def split: prod.split)+

lemma bump_keeps [keeps_intros]: "keeps (holds P) (bump f)" "keeps (stable P) (bump f)"
  by (rule local_keeps; simp add: bump_def set_world_def)+

lemma instant_now_keeps [keeps_intros]: "keeps (holds P) instant_now" "keeps (stable P) instant_now"
  by (rule local_keeps; simp add: instant_now_def)+

lemma file_io_keeps [keeps_intros]:
  "keeps (holds P) file_io" "keeps (stable P) file_io"
  "keeps (holds P) join_blocking" "keeps (stable P) join_blocking"
  by (rule local_keeps; simp add: file_io_frame)+

lemma acquire_permit_keeps [keeps_intros]:
  "keeps (holds P) acquire_permit" "keeps (stable P) acquire_permit"
  by (rule local_keeps; simp add: acquire_permit_def)+

text \<open>Statements that only read.\<close>

lemma st_keeps_select [simp]:
  "st_keeps P (select_repository ow nm)" "st_keeps P (select_open_session u r oid)"
  "st_keeps P (select_finalizable_session u r oid)" "st_keeps P (select_object_manifest r oid)"
  "st_keeps P (select_object_exists r oid)" "st_keeps P (select_grant ow nm sub)"
  by (simp_all add: st_keeps_def select_repository_def select_open_session_def
      select_finalizable_session_def select_object_manifest_def select_object_exists_def select_grant_def)

section \<open>Quiet worlds and the chunk store\<close>

text \<open>In a quiet world no other process writes to the database.  \<open>keeps (holds ((=) d))\<close> then says that an
  action leaves the database alone, \<open>keeps (store_is s)\<close> that it leaves the provider alone.\<close>

definition quiet :: "('s, 'j) world \<Rightarrow> bool" where
  "quiet w \<longleftrightarrow> (\<forall>ev \<in> set (db_script w). interference ev = (\<lambda>d. d))"

definition store_is :: "'s \<Rightarrow> ('s, 'j) world \<Rightarrow> bool" where
  "store_is s w \<longleftrightarrow> store w = s"

lemma quiet_stable: "quiet w \<Longrightarrow> stable P w"
  by (simp add: quiet_def stable_def)

lemma quiet_iff_stable: "quiet w \<longleftrightarrow> (\<forall>d. stable ((=) d) w)"
  by (auto simp: quiet_def stable_def fun_eq_iff)

lemma quiet_holds: "quiet w \<Longrightarrow> holds ((=) (db w)) w"
  by (simp add: holds_def quiet_stable)

lemma keeps_quiet: "(\<And>P. keeps (stable P) m) \<Longrightarrow> keeps quiet m"
  by (rule keepsI) (auto simp: quiet_iff_stable dest: keepsD)

lemma quiet_empty [simp]: "db_script w = [] \<Longrightarrow> quiet w"
  by (simp add: quiet_def)

lemma take_event_store: "take_event w = (ev, w') \<Longrightarrow> store_is s w' = store_is s w"
  by (simp add: store_is_def take_event_frame(2))

lemma db_begin_store [keeps_intros]: "keeps (store_is s) db_begin"
  by (rule keepsI) (auto simp: db_begin_def Let_def store_is_def take_event_frame(2) split: prod.splits)

lemma exec_tx_store [keeps_intros]: "keeps (store_is s) (exec_tx st)"
  by (rule keepsI) (auto simp: exec_tx_def store_is_def take_event_frame(2) split: prod.splits if_splits sum.splits)

lemma exec_pool_store [keeps_intros]: "keeps (store_is s) (exec_pool st)"
  by (rule keepsI)
    (auto simp: exec_pool_def Let_def store_is_def take_event_frame(2) split: prod.splits if_splits sum.splits)

lemma transaction_store [keeps_intros]:
  assumes "keeps (store_is s) body"
  shows "keeps (store_is s) (transaction conv body)"
proof (rule keepsI)
  fix w r w' assume h: "store_is s w" and run: "transaction conv body w = (r, w')"
  obtain b w1 where b: "db_begin w = (b, w1)" by (cases "db_begin w")
  obtain x w2 where x: "body w1 = (x, w2)" by (cases "body w1")
  obtain ev w3 where t: "take_event w2 = (ev, w3)" by (cases "take_event w2")
  have s1: "store_is s w1" using keepsD [OF db_begin_store h b] .
  have s2: "store_is s w2" using keepsD [OF assms s1 x] .
  have s3: "store_is s w3" using s2 take_event_store [OF t] by simp
  show "store_is s w'"
    using run b x t s1 s2 s3
    by (auto simp: transaction_def store_is_def split: sum.splits db_outcome.splits)
qed

lemma other_effects_store [keeps_intros]:
  "keeps (store_is s) (bump f)" "keeps (store_is s) instant_now" "keeps (store_is s) file_io"
  "keeps (store_is s) join_blocking" "keeps (store_is s) acquire_permit"
  by (simp_all add: keeps_def store_is_def bump_def set_world_def instant_now_def file_io_frame
      acquire_permit_def split: list.split)

lemma exec_pool_quiet_ok:
  assumes "quiet w" "exec_pool st w = (Inr x, w')"
  shows "\<exists>now. st now (db w) = Inr (x, db w')"
proof -
  obtain ev w1 where t: "take_event w = (ev, w1)" by (cases "take_event w")
  have "interference ev = (\<lambda>d. d)" using take_event_frame(7) [OF t] assms(1) by (auto simp: quiet_def)
  then show ?thesis
    using assms(2) t take_event_frame(1) [OF t]
    by (auto simp: exec_pool_def Let_def split: if_splits sum.splits)
qed

text \<open>The rule \<open>keepsD\<close> at the three predicates in use.\<close>

lemma keeps_holdsD: "keeps (holds P) m \<Longrightarrow> holds P w \<Longrightarrow> m w = (r, w') \<Longrightarrow> holds P w'"
  by (rule keepsD)

lemma keeps_stableD: "keeps (stable P) m \<Longrightarrow> stable P w \<Longrightarrow> m w = (r, w') \<Longrightarrow> stable P w'"
  by (rule keepsD)

lemma keeps_storeD: "(\<And>s. keeps (store_is s) m) \<Longrightarrow> m w = (r, w') \<Longrightarrow> store w' = store w"
  using keepsD [of "store_is (store w)" m w] by (auto simp: store_is_def)

lemma keeps_dbD:
  "(\<And>d. keeps (holds ((=) d)) m) \<Longrightarrow> quiet w \<Longrightarrow> m w = (r, w') \<Longrightarrow> db w' = db w"
  using keeps_holdsD [of "(=) (db w)" m w] quiet_holds [of w] by (auto simp: holds_def)

lemma query_tx_holds:
  "st_keeps P st \<Longrightarrow> holds P w \<Longrightarrow> query_tx st w = (r, w') \<Longrightarrow> holds P w'"
  using keeps_holdsD [OF keeps_on_err [OF exec_tx_keeps]] by blast

section \<open>Errors of a transaction\<close>

lemma db_begin_err: "db_begin w = (Inl e, w') \<Longrightarrow> e = Unavailable"
  by (auto simp: db_begin_def Let_def split: prod.splits if_splits)

lemma errs_in_transaction [errs_intros]:
  assumes "cv Unavailable \<in> S" "errs_in S body"
  shows "errs_in S (transaction cv body)"
  unfolding errs_in_def
proof (intro allI impI)
  fix w e w' assume run: "transaction cv body w = (Inl e, w')"
  obtain b w1 where b: "db_begin w = (b, w1)" by (cases "db_begin w")
  obtain x w2 where x: "body w1 = (x, w2)" by (cases "body w1")
  show "e \<in> S"
  proof (cases b)
    case (Inl e0)
    then show ?thesis using run b db_begin_err [of w e0 w1] assms(1) by (auto simp: transaction_def)
  next
    case (Inr u)
    then show ?thesis
      using run b x assms(1) errs_inD [OF assms(2)]
      by (cases x) (auto simp: transaction_def split: prod.splits db_outcome.splits)
  qed
qed

lemma errs_in_query: "database_error Unavailable \<in> S \<Longrightarrow> errs_in S (query_tx st)" "database_error Unavailable \<in> S \<Longrightarrow> errs_in S (query_pool st')"
  by (rule errs_in_on_err; simp add: database_error_def)+

section \<open>The transaction timestamp\<close>

definition now_is :: "time \<Rightarrow> ('s, 'j) world \<Rightarrow> bool" where
  "now_is t w \<longleftrightarrow> tx_now w = t"

lemma exec_tx_now [keeps_intros]: "keeps (now_is t) (exec_tx st)"
  by (rule keepsI) (auto simp: exec_tx_def now_is_def take_event_frame(3) split: prod.splits if_splits sum.splits)

lemma on_store_now [keeps_intros]: "keeps (now_is t) (on_store op)"
  by (rule keepsI) (auto simp: on_store_def now_is_def split: prod.splits)

text \<open>The clock never goes back, and a transaction's timestamp is in its past.\<close>

definition timely :: "time \<Rightarrow> ('s, 'j) world \<Rightarrow> bool" where
  "timely c w \<longleftrightarrow> c \<le> clock w \<and> tx_now w \<le> clock w"

lemma take_event_timely: "take_event w = (ev, w') \<Longrightarrow> timely c w \<Longrightarrow> timely c w'"
  using take_event_frame(3,6) [of w ev w'] by (simp add: timely_def)

lemma exec_tx_timely [keeps_intros]: "keeps (timely c) (exec_tx st)"
  by (rule keepsI)
    (auto simp: exec_tx_def timely_def dest!: take_event_timely [where c = c] split: prod.splits if_splits sum.splits)

lemma exec_pool_timely [keeps_intros]: "keeps (timely c) (exec_pool st)"
  by (rule keepsI)
    (auto simp: exec_pool_def Let_def timely_def dest!: take_event_timely [where c = c] split: prod.splits if_splits sum.splits)

lemma on_store_timely [keeps_intros]: "keeps (timely c) (on_store op)"
  by (rule keepsI) (auto simp: on_store_def timely_def split: prod.splits)

lemma transaction_timely:
  assumes "keeps (timely c) body" "c \<le> clock w" "transaction cv body w = (res, w')"
  shows "timely c w'"
proof -
  obtain b w1 where b: "db_begin w = (b, w1)" by (cases "db_begin w")
  obtain x w2 where x: "body w1 = (x, w2)" by (cases "body w1")
  obtain ev w3 where t: "take_event w2 = (ev, w3)" by (cases "take_event w2")
  have t1: "timely c w1"
    using b assms(2) take_event_frame(6) [of w] by (auto simp: db_begin_def Let_def timely_def split: prod.splits)
  have t2: "timely c w2" by (rule keepsD [OF assms(1) t1 x])
  have t3: "timely c w3" by (rule take_event_timely [OF t t2])
  show ?thesis
    using assms(3) b x t t1 t2 t3
    by (auto simp: transaction_def timely_def split: sum.splits db_outcome.splits)
qed

end
