(* ===== verification/Auth.thy ===== *)
theory Auth
  imports World
begin

text \<open>
  Authentication and authorization (\<open>lib.rs\<close>, \<open>authenticate\<close>, \<open>authenticate_forgejo\<close> with its cache, and
  \<open>authenticate_oidc\<close>), and the policy setters of \<open>AppState\<close>.  The Forgejo cache is an association
  list standing for the hash map in its iteration order.  The lemmas show what a granted identity rests on:
  the configured token, two positive answers of Forgejo for the same credentials and repository, or
  a verified token with a database grant.
\<close>

section \<open>Requests and identities\<close>

type_synonym header_map = "(string \<times> bytes) list"

datatype access = Read | Write

record identity =
  authorization :: string
  subject :: string
  administrator :: bool

definition bearer :: string where
  "bearer = ''Bearer ''"

definition authorization_value :: "('s, 'j) server_deps \<Rightarrow> header_map \<Rightarrow> string option" where
  "authorization_value D headers =
     (case map_of headers ''authorization'' of None \<Rightarrow> None | Some v \<Rightarrow> header_to_str D v)"

section \<open>Forgejo\<close>

definition access_byte :: "access \<Rightarrow> byte" where
  "access_byte a = (case a of Read \<Rightarrow> 0 | Write \<Rightarrow> 1)"

definition cache_key_bytes :: "string \<Rightarrow> string \<Rightarrow> string \<Rightarrow> access \<Rightarrow> bytes" where
  "cache_key_bytes credentials owner repository access =
     ascii_bytes credentials @ [0] @ ascii_bytes owner @ [0] @ ascii_bytes repository @ [access_byte access]"

fun retain_fresh ::
  "(digest \<times> cached_identity) list \<Rightarrow> (('s, 'j) world, 'e, (digest \<times> cached_identity) list) action" where
  "retain_fresh [] = ret []"
| "retain_fresh (entry # rest) =
     andthen instant_now (\<lambda>now.
     andthen (retain_fresh rest) (\<lambda>kept.
     ret (if cached_expires_at (snd entry) > now then entry # kept else kept)))"

text \<open>\<open>iter().min_by_key(expires_at)\<close>: the first entry with the least expiry.\<close>

fun oldest_entry :: "(digest \<times> cached_identity) list \<Rightarrow> digest option" where
  "oldest_entry [] = None"
| "oldest_entry (entry # rest) = Some (fst (fold (\<lambda>e best.
     if cached_expires_at (snd e) < cached_expires_at (snd best) then e else best) rest entry))"

definition cache_remove ::
  "digest \<Rightarrow> (digest \<times> cached_identity) list \<Rightarrow> (digest \<times> cached_identity) list" where
  "cache_remove k entries = filter (\<lambda>e. fst e \<noteq> k) entries"

definition cache_evict ::
  "nat \<Rightarrow> (digest \<times> cached_identity) list \<Rightarrow> (digest \<times> cached_identity) list" where
  "cache_evict capacity entries =
     (if length entries \<ge> capacity then
        (case oldest_entry entries of None \<Rightarrow> entries | Some k \<Rightarrow> cache_remove k entries)
      else entries)"

definition set_cache :: "(digest \<times> cached_identity) list \<Rightarrow> (('s, 'j) world, 'e, unit) action" where
  "set_cache entries = set_world (\<lambda>w. w\<lparr>cache_entries := entries\<rparr>)"

text \<open>The first critical section: a fresh entry answers the request, a stale one is dropped.\<close>

definition cache_lookup ::
  "string \<Rightarrow> digest \<Rightarrow> (('s, 'j) world, api_error, identity option) action" where
  "cache_lookup credentials key =
     andthen (get_world cache_entries) (\<lambda>entries.
     case map_of entries key of
       None \<Rightarrow> ret None
     | Some cached \<Rightarrow>
         andthen instant_now (\<lambda>now.
         if cached_expires_at cached > now then
           andthen (bump (\<lambda>m. m\<lparr>auth_cache_hits := auth_cache_hits m + 1\<rparr>)) (\<lambda>_.
           ret (Some \<lparr>authorization = credentials, subject = cached_subject cached,
                      administrator = cached_administrator cached\<rparr>))
         else andthen (set_cache (cache_remove key entries)) (\<lambda>_. ret None)))"

definition get_user :: "string \<Rightarrow> string \<Rightarrow> (('s, 'j) world, 'e, string http_reply) action" where
  "get_user url credentials w =
     (let reply = (case user_replies w of [] \<Rightarrow> Inl ''connection refused'' | r # _ \<Rightarrow> r) in
      (Inr reply, w\<lparr>user_replies := drop 1 (user_replies w),
                    http_log := UserExchange url credentials reply # http_log w\<rparr>))"

definition get_repo ::
  "string \<Rightarrow> string \<Rightarrow> (('s, 'j) world, 'e, (bool \<times> bool \<times> bool) http_reply) action" where
  "get_repo url credentials w =
     (let reply = (case repo_replies w of [] \<Rightarrow> Inl ''connection refused'' | r # _ \<Rightarrow> r) in
      (Inr reply, w\<lparr>repo_replies := drop 1 (repo_replies w),
                    http_log := RepoExchange url credentials reply # http_log w\<rparr>))"

definition is_success :: "nat \<Rightarrow> bool" where
  "is_success s \<longleftrightarrow> 200 \<le> s \<and> s < 300"

definition user_login :: "string http_reply \<Rightarrow> api_error + string" where
  "user_login reply = (case reply of
       Inl e \<Rightarrow> Inl (authentication_error e)
     | Inr (st, body) \<Rightarrow>
         if \<not> is_success st then Inl unauthorized else map_err authentication_error body)"

text \<open>\<open>error_for_status\<close> turns client and server error statuses into errors.\<close>

definition repo_permissions :: "(bool \<times> bool \<times> bool) http_reply \<Rightarrow> api_error + (bool \<times> bool \<times> bool)" where
  "repo_permissions reply = (case reply of
       Inl e \<Rightarrow> Inl (authentication_error e)
     | Inr (st, body) \<Rightarrow>
         if st = 401 then Inl unauthorized
         else if st = 404 then Inl (api_error_new 404 ''repository not found'')
         else if 400 \<le> st \<and> st < 600 then Inl (authentication_error ''status'')
         else map_err authentication_error body)"

definition forgejo_allows :: "access \<Rightarrow> bool \<times> bool \<times> bool \<Rightarrow> bool" where
  "forgejo_allows access permissions = (case permissions of (pull, push, admin) \<Rightarrow>
     (case access of Read \<Rightarrow> pull \<or> push \<or> admin | Write \<Rightarrow> push \<or> admin))"

text \<open>The second critical section: purge expired entries, make room, insert.\<close>

definition cache_store ::
  "nat \<Rightarrow> nat \<Rightarrow> digest \<Rightarrow> identity \<Rightarrow> (('s, 'j) world, api_error, unit) action" where
  "cache_store ttl capacity key ident =
     andthen (get_world cache_entries) (\<lambda>entries.
     andthen (retain_fresh entries) (\<lambda>kept.
     andthen instant_now (\<lambda>now.
     set_cache ((key, \<lparr>cached_subject = subject ident, cached_administrator = administrator ident,
                      cached_expires_at = now + ttl\<rparr>) # cache_remove key (cache_evict capacity kept)))))"

text \<open>The two fail-closed requests to Forgejo.\<close>

definition ask_forgejo ::
  "('s, 'j) server_deps \<Rightarrow> string \<Rightarrow> string \<Rightarrow> string \<Rightarrow> string \<Rightarrow> access
     \<Rightarrow> (('s, 'j) world, api_error, identity) action" where
  "ask_forgejo D base credentials owner repository access =
     andthen (of_result (map_err authentication_error (url_join D base ''api/v1/user''))) (\<lambda>user_url.
     andthen (of_result (ok_or (authentication_error ''invalid Forgejo URL'')
                (url_extend D base [''api'', ''v1'', ''repos'', owner, repository]))) (\<lambda>repo_url.
     andthen (bump (\<lambda>m. m\<lparr>forgejo_requests := forgejo_requests m + 1\<rparr>)) (\<lambda>_.
     andthen (get_user user_url credentials) (\<lambda>user_response.
     andthen (of_result (user_login user_response)) (\<lambda>login.
     andthen (bump (\<lambda>m. m\<lparr>forgejo_requests := forgejo_requests m + 1\<rparr>)) (\<lambda>_.
     andthen (get_repo repo_url credentials) (\<lambda>repo_response.
     andthen (of_result (repo_permissions repo_response)) (\<lambda>permissions.
     andthen (guard_err (\<not> forgejo_allows access permissions)
               (api_error_new 403 ''repository access denied'')) (\<lambda>_.
     ret \<lparr>authorization = credentials, subject = login, administrator = snd (snd permissions)\<rparr>)))))))))"

definition authenticate_forgejo ::
  "('s, 'j) server_deps \<Rightarrow> string \<Rightarrow> nat \<Rightarrow> nat \<Rightarrow> string \<Rightarrow> string \<Rightarrow> string \<Rightarrow> access
     \<Rightarrow> (('s, 'j) world, api_error, identity) action" where
  "authenticate_forgejo D base ttl capacity credentials owner repository access =
     (let key = sha256 D (cache_key_bytes credentials owner repository access) in
      andthen (cache_lookup credentials key) (\<lambda>hit. case hit of
        Some ident \<Rightarrow> ret ident
      | None \<Rightarrow>
          andthen (bump (\<lambda>m. m\<lparr>auth_cache_misses := auth_cache_misses m + 1\<rparr>)) (\<lambda>_.
          andthen (ask_forgejo D base credentials owner repository access) (\<lambda>ident.
          andthen (cache_store ttl capacity key ident) (\<lambda>_. ret ident)))))"

section \<open>OIDC\<close>

definition authenticate_oidc ::
  "('s, 'j) server_deps \<Rightarrow> string \<Rightarrow> string \<Rightarrow> (string \<times> string) list \<Rightarrow> string \<Rightarrow> string \<Rightarrow> string \<Rightarrow> access
     \<Rightarrow> (('s, 'j) world, api_error, identity) action" where
  "authenticate_oidc D issuer audience keys credentials owner repository access =
     andthen (of_result (ok_or unauthorized (strip_prefix bearer credentials))) (\<lambda>token.
     andthen (of_result (ok_or unauthorized (jwt_decode_header D token))) (\<lambda>(kid, alg).
     andthen (of_result (ok_or unauthorized kid)) (\<lambda>key_id.
     andthen (of_result (ok_or unauthorized (map_of keys key_id))) (\<lambda>jwk.
     andthen (of_result (ok_or unauthorized (jwt_decoding_key D jwk))) (\<lambda>key.
     andthen (get_world wall_clock) (\<lambda>now.
     andthen (of_result (ok_or unauthorized (jwt_decode D now token key alg issuer audience))) (\<lambda>sub.
     andthen (query_pool (select_grant owner repository sub)) (\<lambda>row.
     andthen (of_result (ok_or (api_error_new 403 ''repository access denied'') row)) (\<lambda>(r, wr, adm).
     andthen (guard_err (\<not> (case access of Read \<Rightarrow> r | Write \<Rightarrow> wr))
                (api_error_new 403 ''repository access denied'')) (\<lambda>_.
     ret \<lparr>authorization = credentials, subject = sub, administrator = adm\<rparr>))))))))))"

section \<open>Dispatch\<close>

definition authenticate ::
  "('s, 'j) server_deps \<Rightarrow> app_state \<Rightarrow> header_map \<Rightarrow> string \<Rightarrow> string \<Rightarrow> access
     \<Rightarrow> (('s, 'j) world, api_error, identity) action" where
  "authenticate D A headers owner repository access =
     andthen (of_result (ok_or unauthorized (authorization_value D headers))) (\<lambda>credentials.
     case authentication A of
       DevelopmentToken hash \<Rightarrow>
         andthen (of_result (ok_or unauthorized (strip_prefix bearer credentials))) (\<lambda>token.
         if sha256 D (ascii_bytes token) = hash then
           ret \<lparr>authorization = credentials, subject = ''development-user'', administrator = True\<rparr>
         else fail unauthorized)
     | Forgejo base ttl capacity \<Rightarrow>
         authenticate_forgejo D base ttl capacity credentials owner repository access
     | Oidc issuer audience keys \<Rightarrow>
         authenticate_oidc D issuer audience keys credentials owner repository access)"

section \<open>Constructors of AppState\<close>

definition app_state_new :: "('s, 'j) server_deps \<Rightarrow> string \<Rightarrow> string \<Rightarrow> app_state" where
  "app_state_new D url dev_token =
     \<lparr>base_url = url, authentication = DevelopmentToken (sha256 D (ascii_bytes dev_token))\<rparr>"

text \<open>Durations in nanoseconds, the resolution of \<open>Instant\<close>.\<close>

definition nanos :: "nat \<Rightarrow> nat" where
  "nanos seconds = seconds * 1000000000"

definition new_forgejo :: "string \<Rightarrow> string \<Rightarrow> app_state" where
  "new_forgejo url forgejo_url =
     \<lparr>base_url = url, authentication = Forgejo forgejo_url (nanos 30) 10000\<rparr>"

definition with_forgejo_cache :: "app_state \<Rightarrow> nat \<Rightarrow> nat \<Rightarrow> app_state" where
  "with_forgejo_cache A ttl capacity =
     (case authentication A of
        Forgejo base _ _ \<Rightarrow> A\<lparr>authentication := Forgejo base ttl (max capacity 1)\<rparr>
      | _ \<Rightarrow> A)"

text \<open>\<open>trim_end_matches('/')\<close>, and the checks of \<open>new_oidc\<close> on the discovery document and key set it
  fetched: \<open>discovery\<close> is the decoded document or the error of fetching it, and so is \<open>key_set\<close>,
  a list of optional key ids with keys.\<close>

definition trim_end_slashes :: "string \<Rightarrow> string" where
  "trim_end_slashes s = rev (dropWhile ((=) CHR ''/'') (rev s))"

datatype oidc_setup_error = OidcProvider string | OidcUrl string | IssuerMismatch

definition new_oidc ::
  "('s, 'j) server_deps \<Rightarrow> string \<Rightarrow> string \<Rightarrow> string \<Rightarrow> (string \<Rightarrow> string + (string \<times> string))
     \<Rightarrow> (string \<Rightarrow> string + (string option \<times> string) list) \<Rightarrow> oidc_setup_error + app_state" where
  "new_oidc D url issuer_url audience discovery key_set =
     res_bind (map_err OidcUrl (url_join D issuer_url ''.well-known/openid-configuration'')) (\<lambda>discovery_url.
     res_bind (map_err OidcProvider (discovery discovery_url)) (\<lambda>(issuer, jwks_uri).
     if trim_end_slashes issuer \<noteq> trim_end_slashes issuer_url then Inl IssuerMismatch
     else res_bind (map_err OidcProvider (key_set jwks_uri)) (\<lambda>keys.
       Inr \<lparr>base_url = url, authentication = Oidc issuer audience
              (rev (List.map_filter (\<lambda>(kid, key). map_option (\<lambda>id'. (id', key)) kid) keys))\<rparr>)))"

section \<open>Authentication only reads the catalogue and the store\<close>

lemma cache_actions_local [keeps_intros]:
  "keeps (holds P) (set_cache es)" "keeps (stable P) (set_cache es)" "keeps (store_is s) (set_cache es)"
  "keeps (holds P) (get_user u v)" "keeps (stable P) (get_user u v)" "keeps (store_is s) (get_user u v)"
  "keeps (holds P) (get_repo u v)" "keeps (stable P) (get_repo u v)" "keeps (store_is s) (get_repo u v)"
  by (simp_all add: keeps_def holds_def stable_def store_is_def set_cache_def set_world_def get_user_def
      get_repo_def Let_def)

lemma retain_fresh_local [keeps_intros]:
  "keeps (holds P) (retain_fresh es)" "keeps (stable P) (retain_fresh es)" "keeps (store_is s) (retain_fresh es)"
  by (induction es) (auto intro!: keeps_intros)

lemmas authenticate_defs = authenticate_def authenticate_forgejo_def ask_forgejo_def authenticate_oidc_def Let_def
  cache_lookup_def cache_store_def

lemma authenticate_keeps [keeps_intros]:
  "keeps (holds P) (authenticate D A headers owner repository access)"
  "keeps (stable P) (authenticate D A headers owner repository access)"
  "keeps (store_is s) (authenticate D A headers owner repository access)"
  unfolding authenticate_defs
  by (cases "authentication A"; auto intro!: keeps_intros)+

section \<open>The Forgejo cache\<close>

subsection \<open>Key separation\<close>

definition nul_free :: "string \<Rightarrow> bool" where
  "nul_free s \<longleftrightarrow> (0 :: byte) \<notin> set (ascii_bytes s)"

lemma ascii_bytes_inj: "ascii_bytes a = ascii_bytes b \<Longrightarrow> a = b"
proof -
  have "x = y" if "(of_nat (of_char x) :: byte) = of_nat (of_char y)" for x y :: char
  proof -
    have "unat (of_nat (of_char c) :: byte) = of_char c" for c :: char
      by (simp add: unat_of_nat of_char_mod_256)
    then show ?thesis using that by (metis of_char_eq_iff)
  qed
  then have "inj (\<lambda>c :: char. of_nat (of_char c) :: byte)" by (rule injI)
  then show "ascii_bytes a = ascii_bytes b \<Longrightarrow> a = b"
    by (simp add: ascii_bytes_def inj_map_eq_map)
qed

lemma cache_key_bytes_inj:
  assumes "nul_free v" "nul_free ow" "nul_free v'" "nul_free ow'"
    and "cache_key_bytes v ow rp a = cache_key_bytes v' ow' rp' a'"
  shows "v = v' \<and> ow = ow' \<and> rp = rp' \<and> a = a'"
proof -
  have e: "ascii_bytes v @ 0 # (ascii_bytes ow @ 0 # (ascii_bytes rp @ [access_byte a]))
      = ascii_bytes v' @ 0 # (ascii_bytes ow' @ 0 # (ascii_bytes rp' @ [access_byte a']))"
    using assms(5) by (simp add: cache_key_bytes_def)
  note one = append_separator_eq [OF e] note f = assms(1-4) [unfolded nul_free_def]
  have v: "ascii_bytes v = ascii_bytes v'" using one f by blast
  have "ascii_bytes ow @ 0 # (ascii_bytes rp @ [access_byte a])
      = ascii_bytes ow' @ 0 # (ascii_bytes rp' @ [access_byte a'])" using one f by blast
  from append_separator_eq [OF this] f have "ascii_bytes ow = ascii_bytes ow'"
    "ascii_bytes rp @ [access_byte a] = ascii_bytes rp' @ [access_byte a']" by blast+
  then show ?thesis
    using v ascii_bytes_inj by (auto simp: access_byte_def split: access.splits)
qed

subsection \<open>Where a cached grant comes from\<close>

text \<open>\<open>granted\<close>: the log shows that Forgejo accepted these credentials as \<open>subj\<close> and reported
  permissions on this repository that allow this access.\<close>

definition granted ::
  "('s, 'j) server_deps \<Rightarrow> string \<Rightarrow> http_exchange list \<Rightarrow> string \<Rightarrow> string \<Rightarrow> string \<Rightarrow> access \<Rightarrow> string \<Rightarrow> bool \<Rightarrow> bool" where
  "granted D base log credentials owner repository access subj adm \<longleftrightarrow>
     (\<exists>user_url st. url_join D base ''api/v1/user'' = Inr user_url \<and> is_success st
        \<and> UserExchange user_url credentials (Inr (st, Inr subj)) \<in> set log)
     \<and> (\<exists>repo_url st permissions.
        url_extend D base [''api'', ''v1'', ''repos'', owner, repository] = Some repo_url
        \<and> \<not> (400 \<le> st \<and> st < 600)
        \<and> RepoExchange repo_url credentials (Inr (st, Inr permissions)) \<in> set log
        \<and> forgejo_allows access permissions \<and> snd (snd permissions) = adm)"

definition entry_justified ::
  "('s, 'j) server_deps \<Rightarrow> string \<Rightarrow> bytes set \<Rightarrow> http_exchange list \<Rightarrow> digest \<times> cached_identity \<Rightarrow> bool" where
  "entry_justified D base U log e \<longleftrightarrow>
     (\<exists>credentials owner repository access. nul_free credentials \<and> nul_free owner
        \<and> cache_key_bytes credentials owner repository access \<in> U
        \<and> fst e = sha256 D (cache_key_bytes credentials owner repository access)
        \<and> granted D base log credentials owner repository access (cached_subject (snd e)) (cached_administrator (snd e)))"

definition cache_justified ::
  "('s, 'j) server_deps \<Rightarrow> string \<Rightarrow> bytes set \<Rightarrow> ('s, 'j) world \<Rightarrow> bool" where
  "cache_justified D base U w \<longleftrightarrow> (\<forall>e \<in> set (cache_entries w). entry_justified D base U (http_log w) e)"

lemma granted_mono:
  "granted D base log v ow rp a subj adm \<Longrightarrow> set log \<subseteq> set log' \<Longrightarrow> granted D base log' v ow rp a subj adm"
  unfolding granted_def by blast

lemma entry_justified_mono:
  "entry_justified D base U log e \<Longrightarrow> set log \<subseteq> set log' \<Longrightarrow> entry_justified D base U log' e"
  unfolding entry_justified_def using granted_mono by blast

lemma cache_justified_mono:
  assumes "cache_justified D base U w" "set (cache_entries w') \<subseteq> set (cache_entries w)"
    "set (http_log w) \<subseteq> set (http_log w')"
  shows "cache_justified D base U w'"
  using assms entry_justified_mono unfolding cache_justified_def by blast

lemma retain_fresh_run:
  fixes r :: "'e + (digest \<times> cached_identity) list" and w :: "('s, 'j) world"
  shows "retain_fresh es w = (r, w') \<Longrightarrow>
     (\<exists>kept. r = Inr kept \<and> set kept \<subseteq> set es \<and> length kept \<le> length es
        \<and> (distinct (map fst es) \<longrightarrow> distinct (map fst kept)) \<and> (\<forall>e \<in> set kept. instant w < cached_expires_at (snd e)))
     \<and> cache_entries w' = cache_entries w \<and> http_log w' = http_log w \<and> instant w \<le> instant w'"
proof (induction es arbitrary: w r w')
  case Nil
  then show ?case by (simp add: ret_def)
next
  case (Cons e es)
  define p where "p = (retain_fresh es (later w) :: ('e + _) \<times> _)"
  from Cons.IH [OF surjective_pairing, of "later w"] obtain kept where k: "fst p = Inr kept"
    "set kept \<subseteq> set es" "length kept \<le> length es" "distinct (map fst es) \<longrightarrow> distinct (map fst kept)"
    "\<forall>e \<in> set kept. instant (later w) < cached_expires_at (snd e)" and f: "cache_entries (snd p) = cache_entries w" "http_log (snd p) = http_log w"
      "instant (later w) \<le> instant (snd p)"
    unfolding p_def by auto
  have "(r, w') = (Inr (if cached_expires_at (snd e) > instant (later w) then e # kept else kept), snd p)"
    using Cons.prems k(1) unfolding p_def
    by (auto simp: andthen_def ret_def instant_now_def split: prod.splits)
  moreover have "\<forall>e \<in> set kept. instant w < cached_expires_at (snd e)" using k(5) le_less_trans [OF later_frame(7)] by blast
  ultimately show ?case using k f le_trans [OF later_frame(7) f(3)] le_less_trans [OF later_frame(7), of w] by auto
qed

lemma cache_remove_subset: "set (cache_remove k es) \<subseteq> set es"
  by (auto simp: cache_remove_def)

lemma cache_evict_subset: "set (cache_evict c es) \<subseteq> set es"
  using cache_remove_subset by (auto simp: cache_evict_def split: option.splits)

lemma cache_lookup_run:
  assumes "cache_lookup credentials key w = (r, w')"
  shows "set (cache_entries w') \<subseteq> set (cache_entries w) \<and> http_log w' = http_log w
    \<and> db_script w' = db_script w \<and> instant w \<le> instant w'
    \<and> (\<exists>hit. r = Inr hit \<and> (\<forall>ident. hit = Some ident \<longrightarrow> (\<exists>c. (key, c) \<in> set (cache_entries w)
         \<and> cached_expires_at c > instant w' \<and> ident = \<lparr>authorization = credentials, subject = cached_subject c,
             administrator = cached_administrator c\<rparr>)))"
proof (cases "map_of (cache_entries w) key")
  case None
  then show ?thesis using assms by (auto simp: cache_lookup_def andthen_def get_world_def ret_def)
next
  case (Some c)
  have "(key, c) \<in> set (cache_entries w)" using Some by (rule map_of_SomeD)
  then show ?thesis
    using assms Some cache_remove_subset [of key "cache_entries w"]
    by (auto simp: cache_lookup_def instant_now_def andthen_def get_world_def ret_def bump_def set_world_def set_cache_def
        split: if_splits)
qed

lemma cache_store_run:
  assumes "cache_store ttl capacity key ident w = (r, w')"
  shows "r = Inr () \<and> http_log w' = http_log w \<and> instant w \<le> instant w'
    \<and> (\<exists>kept. set kept \<subseteq> set (cache_entries w) \<and> length kept \<le> length (cache_entries w)
        \<and> (distinct (map fst (cache_entries w)) \<longrightarrow> distinct (map fst kept)) \<and> (\<forall>e \<in> set kept. instant w < cached_expires_at (snd e))
        \<and> cache_entries w' = (key, \<lparr>cached_subject = subject ident, cached_administrator = administrator ident,
             cached_expires_at = instant w' + ttl\<rparr>) # cache_remove key (cache_evict capacity kept))"
proof -
  obtain r1 w1 where r1: "(retain_fresh (cache_entries w) w :: (api_error + _) \<times> _) = (r1, w1)"
    by (cases "retain_fresh (cache_entries w) w :: (api_error + _) \<times> _")
  from retain_fresh_run [OF r1] obtain kept where kept: "r1 = Inr kept" "set kept \<subseteq> set (cache_entries w)"
    "length kept \<le> length (cache_entries w)" "distinct (map fst (cache_entries w)) \<longrightarrow> distinct (map fst kept)"
    "http_log w1 = http_log w" "instant w \<le> instant w1" "\<forall>e \<in> set kept. instant w < cached_expires_at (snd e)" by blast
  show ?thesis
    using assms r1 kept le_trans [OF kept(6) later_frame(7)]
    by (auto simp: cache_store_def instant_now_def andthen_def get_world_def set_cache_def set_world_def
        intro!: exI [of _ kept])
qed

lemma cache_store_total:
  "cache_store ttl capacity key ident w = (Inr (), snd (cache_store ttl capacity key ident w))"
  using cache_store_run [OF surjective_pairing] by (metis prod.collapse)

lemma user_login_ok [ok_iff]:
  "user_login reply = Inr login \<longleftrightarrow> (\<exists>st. is_success st \<and> reply = Inr (st, Inr login))"
  by (auto simp: user_login_def ok_iff split: sum.splits)

lemma repo_permissions_ok [ok_iff]:
  "repo_permissions reply = Inr p \<longleftrightarrow> (\<exists>st. \<not> (400 \<le> st \<and> st < 600) \<and> reply = Inr (st, Inr p))"
  by (auto simp: repo_permissions_def ok_iff split: sum.splits)

text \<open>The cache and the clock while Forgejo is asked, and the answers a granted identity rests on.\<close>

definition asking :: "('s, 'j) world \<Rightarrow> ('s, 'j) world \<Rightarrow> bool" where
  "asking w0 w \<longleftrightarrow> cache_entries w = cache_entries w0 \<and> instant w = instant w0
     \<and> set (http_log w0) \<subseteq> set (http_log w)"

lemma asking_keeps [keeps_intros]:
  "keeps (asking w0) (bump f)" "keeps (asking w0) (get_user u v)" "keeps (asking w0) (get_repo u v)"
  by (auto simp: keeps_def asking_def bump_def set_world_def get_user_def get_repo_def Let_def)

lemma ask_forgejo_keeps: "keeps (asking w0) (ask_forgejo D base credentials owner repository access)"
  unfolding ask_forgejo_def by (intro keeps_intros)

lemma get_userD: "get_user u v w = (Inr x, w') \<Longrightarrow> http_log w' = UserExchange u v x # http_log w"
  by (auto simp: get_user_def Let_def)

lemma get_repoD: "get_repo u v w = (Inr x, w') \<Longrightarrow> http_log w' = RepoExchange u v x # http_log w"
  by (auto simp: get_repo_def Let_def)

lemma ask_forgejo_granted:
  assumes "ask_forgejo D base credentials owner repository access w = (Inr ident, w')"
  shows "authorization ident = credentials
    \<and> granted D base (http_log w') credentials owner repository access (subject ident) (administrator ident)"
  using assms
  by (fastforce simp: ask_forgejo_def run_ok ok_iff granted_def dest!: get_userD get_repoD)

lemma ask_forgejo_logs:
  "ask_forgejo D base credentials owner repository access w = (Inr ident, w') \<Longrightarrow> length (http_log w) < length (http_log w')"
  by (auto simp: ask_forgejo_def run_ok ok_iff bump_ok dest!: get_userD get_repoD)

lemma forgejo_run:
  assumes run: "authenticate_forgejo D base ttl capacity credentials owner repository access w = (r, w')"
  defines "key \<equiv> sha256 D (cache_key_bytes credentials owner repository access)"
  obtains (hit) ident where "cache_lookup credentials key w = (Inr (Some ident), w')" "r = Inr ident"
  | (denied) w1 e where "cache_lookup credentials key w = (Inr None, w1)" "r = Inl e" "asking w1 w'"
  | (asked) w1 w2 ident where "cache_lookup credentials key w = (Inr None, w1)" "asking w1 w2" "r = Inr ident"
      "authorization ident = credentials"
      "granted D base (http_log w2) credentials owner repository access (subject ident) (administrator ident)"
      "cache_store ttl capacity key ident w2 = (Inr (), w')" "length (http_log w1) < length (http_log w2)"
proof -
  obtain h w1 where h: "cache_lookup credentials key w = (h, w1)" by (cases "cache_lookup credentials key w")
  then obtain found where found: "h = Inr found" using cache_lookup_run by blast
  show thesis
  proof (cases found)
    case (Some ident)
    then have "r = Inr ident" "w' = w1"
      using run h found
      by (simp_all add: authenticate_forgejo_def Let_def key_def [symmetric] andthen_def ret_def)
    then show thesis using hit h found Some by simp
  next
    case None
    let ?w1 = "w1\<lparr>metrics := metrics w1\<lparr>auth_cache_misses := auth_cache_misses (metrics w1) + 1\<rparr>\<rparr>"
    obtain a w2 where a: "ask_forgejo D base credentials owner repository access ?w1 = (a, w2)"
      by (cases "ask_forgejo D base credentials owner repository access ?w1")
    have asking: "asking w1 w2"
      by (rule keepsD [OF ask_forgejo_keeps _ a]) (simp add: asking_def)
    have store: "andthen (cache_store ttl capacity key i) (\<lambda>_. ret i) w2
        = (Inr i, snd (cache_store ttl capacity key i w2))" for i
      by (subst andthen_run(1) [OF cache_store_total]) (simp add: ret_def)
    have bumped: "andthen (bump (\<lambda>m. m\<lparr>auth_cache_misses := auth_cache_misses m + 1\<rparr>)) f w1 = f () ?w1"
      for f :: "unit \<Rightarrow> (_, api_error, identity) action"
      by (simp add: andthen_def bump_def set_world_def)
    have "(r, w') = andthen (ask_forgejo D base credentials owner repository access)
        (\<lambda>i. andthen (cache_store ttl capacity key i) (\<lambda>_. ret i)) ?w1"
      using run h found None
      by (simp add: authenticate_forgejo_def Let_def key_def [symmetric] andthen_run bumped)
    then have rest: "(r, w') = (case a of Inl e \<Rightarrow> (Inl e, w2)
        | Inr ident \<Rightarrow> (Inr ident, snd (cache_store ttl capacity key ident w2)))"
      using a store by (cases a) (simp_all add: andthen_run)
    show thesis
    proof (cases a)
      case (Inl e)
      then show thesis using denied [of w1 e] rest asking h found None by simp
    next
      case (Inr ident)
      then have "cache_store ttl capacity key ident w2 = (Inr (), w')"
        using rest cache_store_total [of ttl capacity key ident w2] by simp
      then show thesis
        using asked [of w1 w2 ident] Inr rest asking h found None ask_forgejo_granted [OF a [unfolded Inr]] ask_forgejo_logs [OF a [unfolded Inr]]
        by simp
    qed
  qed
qed

subsection \<open>Capacity and lifetime\<close>

text \<open>The cache is a map, holds at most \<open>capacity\<close> entries, and no entry outlives \<open>ttl\<close> from now.\<close>

definition cache_ok :: "nat \<Rightarrow> nat \<Rightarrow> ('s, 'j) world \<Rightarrow> bool" where
  "cache_ok ttl capacity w \<longleftrightarrow> distinct (map fst (cache_entries w)) \<and> length (cache_entries w) \<le> capacity
     \<and> (\<forall>e \<in> set (cache_entries w). cached_expires_at (snd e) \<le> instant w + ttl)"

lemma fold_choice_in_set:
  "fold (\<lambda>e best. if P e best then e else best) es x \<in> insert x (set es)"
  by (induction es arbitrary: x) (fastforce split: if_splits)+

lemma oldest_entry_in: "oldest_entry es = Some k \<Longrightarrow> k \<in> fst ` set es"
proof (cases es)
  case (Cons e rest)
  moreover assume "oldest_entry es = Some k"
  ultimately have "k = fst (fold (\<lambda>e best.
      if cached_expires_at (snd e) < cached_expires_at (snd best) then e else best) rest e)" by simp
  then show ?thesis
    using fold_choice_in_set [of "\<lambda>e best. cached_expires_at (snd e) < cached_expires_at (snd best)" rest e] Cons
    by auto
qed simp

lemma cache_remove_length:
  assumes "k \<in> fst ` set es"
  shows "length (cache_remove k es) < length es"
proof -
  from assms obtain e where "e \<in> set es" "fst e = k" by blast
  then show ?thesis unfolding cache_remove_def by (intro length_filter_less [of e]) auto
qed

lemma cache_evict_room:
  assumes "length es \<le> capacity" "1 \<le> capacity"
  shows "length (cache_evict capacity es) < capacity"
proof (cases "length es \<ge> capacity")
  case True
  then obtain e rest where es: "es = e # rest" using assms by (cases es) auto
  then obtain k where k: "oldest_entry es = Some k" by simp
  then have "length (cache_remove k es) < length es"
    using cache_remove_length oldest_entry_in by blast
  then show ?thesis using True assms k by (simp add: cache_evict_def)
next
  case False
  then show ?thesis by (simp add: cache_evict_def)
qed

lemma cache_remove_distinct: "distinct (map fst es) \<Longrightarrow> distinct (map fst (cache_remove k es))"
  unfolding cache_remove_def by (rule distinct_map_filter)

lemma cache_evict_distinct: "distinct (map fst es) \<Longrightarrow> distinct (map fst (cache_evict c es))"
  by (auto simp: cache_evict_def cache_remove_distinct split: option.splits)

lemma cache_remove_length_le: "length (cache_remove k es) \<le> length es"
  by (simp add: cache_remove_def)

lemma expiry_bound:
  assumes "cache_ok ttl capacity w" "instant w \<le> instant w'" "e \<in> set es" "set es \<subseteq> set (cache_entries w)"
  shows "cached_expires_at (snd e) \<le> instant w' + ttl"
proof -
  have "cached_expires_at (snd e) \<le> instant w + ttl" using assms by (auto simp: cache_ok_def)
  then show ?thesis using assms(2) by linarith
qed

lemma cache_store_ok:
  assumes ok: "cache_ok ttl capacity w" and cap: "1 \<le> capacity"
    and run: "cache_store ttl capacity key ident w = (r, w')"
  shows "cache_ok ttl capacity w'"
proof -
  from cache_store_run [OF run] obtain kept where t: "instant w \<le> instant w'"
    and sub: "set kept \<subseteq> set (cache_entries w)" "length kept \<le> length (cache_entries w)"
      "distinct (map fst (cache_entries w)) \<longrightarrow> distinct (map fst kept)"
    and es: "cache_entries w' = (key, \<lparr>cached_subject = subject ident,
       cached_administrator = administrator ident, cached_expires_at = instant w' + ttl\<rparr>)
       # cache_remove key (cache_evict capacity kept)" by blast
  have "length (cache_evict capacity kept) < capacity"
    using cache_evict_room [OF _ cap] sub ok unfolding cache_ok_def by (meson le_trans)
  then have len: "length (cache_entries w') \<le> capacity"
    using cache_remove_length_le [of key "cache_evict capacity kept"] by (simp add: es)
  have "key \<notin> fst ` set (cache_remove key (cache_evict capacity kept))"
    by (auto simp: cache_remove_def)
  moreover have "distinct (map fst (cache_remove key (cache_evict capacity kept)))"
    using ok sub by (auto simp: cache_ok_def intro: cache_remove_distinct cache_evict_distinct)
  moreover have "set (cache_remove key (cache_evict capacity kept)) \<subseteq> set (cache_entries w)"
    using cache_remove_subset cache_evict_subset sub(1) by blast
  then have "cached_expires_at (snd e) \<le> instant w' + ttl" if "e \<in> set (cache_entries w')" for e
    using that expiry_bound [OF ok t, of e "cache_remove key (cache_evict capacity kept)"] by (auto simp: es)
  ultimately show ?thesis using len unfolding cache_ok_def by (simp add: es)
qed

lemma cache_ok_shrink:
  assumes "cache_ok ttl capacity w" "cache_lookup credentials key w = (h, w')"
  shows "cache_ok ttl capacity w'"
proof -
  have "cache_entries w' = cache_entries w \<or> cache_entries w' = cache_remove key (cache_entries w)"
    using assms(2) by (auto simp: cache_lookup_def andthen_def get_world_def ret_def bump_def set_world_def
        set_cache_def instant_now_def split: if_splits option.splits)
  moreover have sub: "set (cache_entries w') \<subseteq> set (cache_entries w)" and t: "instant w \<le> instant w'"
    using cache_lookup_run [OF assms(2)] by blast+
  moreover have "cached_expires_at (snd e) \<le> instant w' + ttl" if "e \<in> set (cache_entries w')" for e
    using expiry_bound [OF assms(1) t that sub] .
  ultimately show ?thesis
    using assms(1) cache_remove_length_le [of key "cache_entries w"]
    unfolding cache_ok_def by (metis cache_remove_distinct le_trans)
qed

section \<open>Properties\<close>

text \<open>Claim C16: with Forgejo authentication every granted identity rests on Forgejo's own answers: the
  log contains a successful user lookup made with the caller's exact credentials that returned the granted
  subject, and a repository lookup for the same owner and repository whose permissions allow the requested
  access and carry the granted administrator flag, also when the cache answered.  Cached
  grants keep that justification whatever the outcome.  (For the requests considered, SHA-256 does not
  collide on the cache keys, and credentials and owner contain no NUL.)\<close>

theorem forgejo_grants_are_answered:
  assumes "inj_on (sha256 D) U" "cache_key_bytes credentials owner repository access \<in> U"
    and "nul_free credentials" "nul_free owner" "cache_justified D base U w"
    and "authenticate_forgejo D base ttl capacity credentials owner repository access w = (r, w')"
  shows "cache_justified D base U w'
    \<and> (\<forall>ident. r = Inr ident \<longrightarrow> authorization ident = credentials
         \<and> granted D base (http_log w') credentials owner repository access (subject ident) (administrator ident))"
  using assms(6)
proof (cases rule: forgejo_run)
  case (hit ident)
  note l = cache_lookup_run [OF hit(1)]
  then obtain c where c: "(sha256 D (cache_key_bytes credentials owner repository access), c) \<in> set (cache_entries w)"
    "ident = \<lparr>authorization = credentials, subject = cached_subject c, administrator = cached_administrator c\<rparr>"
    by blast
  from c(1) assms(5) obtain v o' rp a where j: "nul_free v" "nul_free o'" "cache_key_bytes v o' rp a \<in> U"
    "sha256 D (cache_key_bytes credentials owner repository access) = sha256 D (cache_key_bytes v o' rp a)"
    "granted D base (http_log w) v o' rp a (cached_subject c) (cached_administrator c)"
    by (fastforce simp: cache_justified_def entry_justified_def)
  have "cache_key_bytes credentials owner repository access = cache_key_bytes v o' rp a"
    using inj_onD [OF assms(1) j(4) assms(2) j(3)] .
  then have "credentials = v \<and> owner = o' \<and> repository = rp \<and> access = a"
    using cache_key_bytes_inj assms(3,4) j(1,2) by blast
  then show ?thesis
    using j(5) c(2) hit(2) l cache_justified_mono [OF assms(5), of w'] by auto
next
  case (denied w1 e)
  note l = cache_lookup_run [OF denied(1)]
  then show ?thesis
    using denied(2,3) cache_justified_mono [OF assms(5), of w'] by (auto simp: asking_def)
next
  case (asked w1 w2 ident)
  note l = cache_lookup_run [OF asked(1)] and st = cache_store_run [OF asked(6)]
  have w2: "cache_justified D base U w2"
    using asked(2) l cache_justified_mono [OF assms(5), of w2] by (auto simp: asking_def)
  have "entry_justified D base U (http_log w2) e" if "e \<in> set (cache_entries w')" for e
  proof (cases "e \<in> set (cache_entries w2)")
    case True
    then show ?thesis using w2 by (simp add: cache_justified_def)
  next
    case False
    then have "fst e = sha256 D (cache_key_bytes credentials owner repository access)
        \<and> cached_subject (snd e) = subject ident \<and> cached_administrator (snd e) = administrator ident"
      using st that cache_remove_subset cache_evict_subset by (fastforce dest: subsetD)
    then show ?thesis
      unfolding entry_justified_def
      by (intro exI [of _ credentials] exI [of _ owner] exI [of _ repository] exI [of _ access])
        (simp add: asked(5) assms(2-4))
  qed
  then show ?thesis using st asked by (auto simp: cache_justified_def)
qed

text \<open>Claim C17: the Forgejo cache never exceeds its capacity, never holds two entries for one key, and no entry is stamped later than its time to live after
  now; a refused or failed authorization adds nothing to it.  A grant that Forgejo was not asked for comes from an entry of exactly this request's key that had not expired when
  it was honoured.  A grant that Forgejo was asked for leaves one entry for the key, stamped with the time to live from now, and purges every entry that had expired when the
  request began.\<close>

theorem forgejo_cache_bounded:
  fixes D credentials owner repository access
  defines "key \<equiv> sha256 D (cache_key_bytes credentials owner repository access)"
  assumes "cache_ok ttl capacity w" "1 \<le> capacity"
    and "authenticate_forgejo D base ttl capacity credentials owner repository access w = (r, w')"
  shows "cache_ok ttl capacity w' \<and> (\<forall>e. r = Inl e \<longrightarrow> set (cache_entries w') \<subseteq> set (cache_entries w))
    \<and> (\<forall>ident. r = Inr ident \<longrightarrow> http_log w' = http_log w \<longrightarrow>
         (\<exists>c. (key, c) \<in> set (cache_entries w) \<and> instant w' < cached_expires_at c
            \<and> ident = \<lparr>authorization = credentials, subject = cached_subject c, administrator = cached_administrator c\<rparr>))
    \<and> (\<forall>ident. r = Inr ident \<longrightarrow> http_log w' \<noteq> http_log w \<longrightarrow>
         (\<forall>e \<in> set (cache_entries w'). if fst e = key then cached_expires_at (snd e) = instant w' + ttl else instant w < cached_expires_at (snd e)))"
  using assms(4)
proof (cases rule: forgejo_run)
  case (hit ident)
  then show ?thesis using cache_ok_shrink [OF assms(2) hit(1)] cache_lookup_run [OF hit(1)] by (simp add: key_def)
next
  case (denied w1 e)
  then show ?thesis
    using cache_ok_shrink [OF assms(2) denied(1)] cache_lookup_run [OF denied(1)]
    by (auto simp: asking_def cache_ok_def)
next
  case (asked w1 w2 ident)
  note l = cache_lookup_run [OF asked(1)] and st = cache_store_run [OF asked(6)]
  have w2: "cache_ok ttl capacity w2"
    using cache_ok_shrink [OF assms(2) asked(1)] asked(2) by (auto simp: asking_def cache_ok_def)
  have "http_log w' \<noteq> http_log w" using asked(7) l st by auto
  moreover have "if fst e = key then cached_expires_at (snd e) = instant w' + ttl else instant w < cached_expires_at (snd e)" if e: "e \<in> set (cache_entries w')" for e
  proof -
    from st obtain kept where kept: "\<forall>e \<in> set kept. instant w2 < cached_expires_at (snd e)"
      "cache_entries w' = (key, \<lparr>cached_subject = subject ident, cached_administrator = administrator ident,
         cached_expires_at = instant w' + ttl\<rparr>) # cache_remove key (cache_evict capacity kept)" unfolding key_def by blast
    have "instant w \<le> instant w2" using l asked(2) by (simp add: asking_def)
    then show ?thesis using e kept cache_evict_subset [of capacity kept] by (fastforce simp: cache_remove_def)
  qed
  ultimately show ?thesis using cache_store_ok [OF w2 assms(3) asked(6)] asked(3) by blast
qed

text \<open>Claim C18: with OIDC authentication an identity is granted only to the subject of a bearer token that
  verifies against a configured key with the configured issuer and audience, and only by a grant of
  that subject on that repository; and because of the constraints on grants, whoever may write may also read
  and whoever is an administrator may do both.\<close>

theorem oidc_grants_are_backed:
  assumes "quiet w" "schema_ok (db w)"
    and "authenticate_oidc D issuer audience keys credentials owner repository access w = (Inr ident, w')"
  shows "\<exists>token kid alg jwk key r g. credentials = bearer @ token
      \<and> jwt_decode_header D token = Some (Some kid, alg) \<and> map_of keys kid = Some jwk
      \<and> jwt_decoding_key D jwk = Some key
      \<and> jwt_decode D (wall_clock w) token key alg issuer audience = Some (subject ident)
      \<and> r \<in> set (repositories (db w)) \<and> repo_owner r = owner \<and> repo_name r = repository
      \<and> g \<in> set (repository_grants (db w)) \<and> gr_repo g = repo_id r \<and> gr_subject g = subject ident
      \<and> can_read g \<and> (access = Write \<longrightarrow> can_write g)
      \<and> administrator ident = can_admin g \<and> (can_admin g \<longrightarrow> can_write g)"
proof -
  from assms(3) obtain token kid alg jwk key w1 rd wr adm where
    t: "strip_prefix bearer credentials = Some token" "jwt_decode_header D token = Some (Some kid, alg)"
      "map_of keys kid = Some jwk" "jwt_decoding_key D jwk = Some key"
      "jwt_decode D (wall_clock w) token key alg issuer audience = Some (subject ident)"
    and q: "exec_pool (select_grant owner repository (subject ident)) w = (Inr (Some (rd, wr, adm)), w1)"
    and g: "case access of Read \<Rightarrow> rd | Write \<Rightarrow> wr"
    and adm: "administrator ident = adm"
    by (auto simp: authenticate_oidc_def run_ok ok_iff split: prod.splits)
  from exec_pool_quiet_ok [OF assms(1) q] obtain gr r where
    gr: "gr \<in> set (repository_grants (db w))" "gr_subject gr = subject ident"
      "(rd, wr, adm) = (can_read gr, can_write gr, can_admin gr)" "r \<in> set (repositories (db w))"
      "repo_id r = gr_repo gr" "repo_owner r = owner" "repo_name r = repository"
    by (auto simp: select_grant_def dest!: find_SomeD)
  have "grant_check gr"
    using assms(2) gr(1) by (auto simp: schema_ok_def checks_ok_def list_all_iff)
  then have "can_read gr" "access = Write \<longrightarrow> can_write gr" "can_admin gr \<longrightarrow> can_write gr"
    using g gr(3) by (auto simp: grant_check_def split: access.splits)
  moreover have "credentials = bearer @ token"
    using t(1) by (auto simp: strip_prefix_Some)
  ultimately show ?thesis using t gr adm by (metis prod.inject)
qed

section \<open>Witnesses\<close>

text \<open>A concrete instance of the third-party functions: JSON values are the manifests themselves, URLs
  are joined textually, a token is its own header key, and the subject of a token is the token.\<close>

definition demo_deps :: "(mem_store, object_manifest) server_deps" where
  "demo_deps = storage_deps.extend mem_deps
     \<lparr>to_value = Inr, from_value = Inr, hex_error_to_string = (\<lambda>e. ''hex''),
      format_micros = (\<lambda>t. show_nat (nat t)),
      format_seconds = (\<lambda>t. show_nat (nat t)), header_to_str = (\<lambda>b. Some (map (\<lambda>x. char_of (unat x)) b)),
      url_join = (\<lambda>base s. Inr (base @ s)), url_extend = (\<lambda>base segs. Some (base @ concat segs)),
      url_extend_clean = (\<lambda>base segs. Some (base @ concat segs)),
      jwt_decode_header = (\<lambda>t. Some (Some ''k'', ''RS256'')), jwt_decoding_key = Some,
      jwt_decode = (\<lambda>now t key alg issuer audience. Some t)\<rparr>"

lemma demo_deps_simps [simp]:
  "to_value demo_deps = Inr" "from_value demo_deps = Inr"
  "url_join demo_deps = (\<lambda>base s. Inr (base @ s))"
  "url_extend demo_deps = (\<lambda>base segs. Some (base @ concat segs))"
  "jwt_decode_header demo_deps = (\<lambda>t. Some (Some ''k'', ''RS256''))" "jwt_decoding_key demo_deps = Some"
  "jwt_decode demo_deps = (\<lambda>now t key alg issuer audience. Some t)"
  "header_to_str demo_deps = (\<lambda>b. Some (map (\<lambda>x. char_of (unat x)) b))"
  "sha256 demo_deps = sha256 ref_digest_deps" "blake3 demo_deps = blake3 ref_digest_deps"
  by (simp_all add: demo_deps_def storage_deps.defs mem_deps_def core_deps.defs ref_core_deps_def
      digest_deps.defs ref_digest_deps_def)

definition forgejo_world :: "(mem_store, object_manifest) world" where
  "forgejo_world = (fresh_world empty_database sample_store 0)
     \<lparr>user_replies := [Inr (200, Inr ''ada'')], repo_replies := [Inr (200, Inr (True, True, False))]\<rparr>"

lemma forgejo_world_run:
  "fst (authenticate_forgejo demo_deps ''u/'' 30 10 ''t'' ''o'' ''r'' Write forgejo_world)
     = Inr \<lparr>authorization = ''t'', subject = ''ada'', administrator = False\<rparr>"
  by (simp add: authenticate_forgejo_def ask_forgejo_def cache_lookup_def cache_store_def Let_def
      forgejo_world_def fresh_world_def andthen_def get_world_def ret_def bump_def set_world_def of_result_def
      get_user_def get_repo_def user_login_def repo_permissions_def is_success_def forgejo_allows_def
      guard_err_def instant_now_def later_def set_cache_def)

lemma forgejo_world_pair:
  "authenticate_forgejo demo_deps ''u/'' 30 10 ''t'' ''o'' ''r'' Write forgejo_world
     = (Inr \<lparr>authorization = ''t'', subject = ''ada'', administrator = False\<rparr>,
        snd (authenticate_forgejo demo_deps ''u/'' 30 10 ''t'' ''o'' ''r'' Write forgejo_world))"
  using forgejo_world_run by (metis prod.collapse)

theorem forgejo_grants_are_answered_witness:
  "granted demo_deps ''u/''
     (http_log (snd (authenticate_forgejo demo_deps ''u/'' 30 10 ''t'' ''o'' ''r'' Write forgejo_world)))
     ''t'' ''o'' ''r'' Write ''ada'' False"
  using forgejo_grants_are_answered [OF _ _ _ _ _ forgejo_world_pair,
      of "{cache_key_bytes ''t'' ''o'' ''r'' Write}"]
  by (simp add: nul_free_def ascii_bytes_def cache_justified_def forgejo_world_def fresh_world_def)

theorem forgejo_cache_bounded_witness:
  "cache_ok 30 10 (snd (authenticate_forgejo demo_deps ''u/'' 30 10 ''t'' ''o'' ''r'' Write forgejo_world))
   \<and> (\<exists>ident w'. authenticate_forgejo demo_deps ''u/'' 30 10 ''t'' ''o'' ''r'' Write
          (snd (authenticate_forgejo demo_deps ''u/'' 30 10 ''t'' ''o'' ''r'' Write forgejo_world)) = (Inr ident, w') \<and> subject ident = ''ada''
        \<and> (\<exists>c. (sha256 demo_deps (cache_key_bytes ''t'' ''o'' ''r'' Write), c) \<in> set (cache_entries
             (snd (authenticate_forgejo demo_deps ''u/'' 30 10 ''t'' ''o'' ''r'' Write forgejo_world))) \<and> instant w' < cached_expires_at c))"
proof -
  let ?w1 = "snd (authenticate_forgejo demo_deps ''u/'' 30 10 ''t'' ''o'' ''r'' Write forgejo_world)"
  let ?r = "authenticate_forgejo demo_deps ''u/'' 30 10 ''t'' ''o'' ''r'' Write ?w1"
  have ok: "cache_ok 30 10 ?w1"
    using forgejo_cache_bounded [OF _ _ forgejo_world_pair] by (simp add: cache_ok_def forgejo_world_def fresh_world_def)
  have hit: "fst ?r = Inr \<lparr>authorization = ''t'', subject = ''ada'', administrator = False\<rparr>" "http_log (snd ?r) = http_log ?w1"
    by (simp_all add: authenticate_forgejo_def ask_forgejo_def cache_lookup_def cache_store_def Let_def
      forgejo_world_def fresh_world_def andthen_def get_world_def ret_def bump_def set_world_def of_result_def
      get_user_def get_repo_def user_login_def repo_permissions_def is_success_def forgejo_allows_def
      guard_err_def instant_now_def later_def set_cache_def cache_evict_def cache_remove_def)
  then have run: "?r = (Inr \<lparr>authorization = ''t'', subject = ''ada'', administrator = False\<rparr>, snd ?r)" by (metis prod.collapse)
  from forgejo_cache_bounded [OF ok _ run] hit(2) obtain c where
    "(sha256 demo_deps (cache_key_bytes ''t'' ''o'' ''r'' Write), c) \<in> set (cache_entries ?w1)" "instant (snd ?r) < cached_expires_at c" by auto
  with ok run show ?thesis by (metis identity.select_convs(2))
qed

definition grants_world :: "(mem_store, object_manifest) world" where
  "grants_world = fresh_world (empty_database\<lparr>
     repositories := [\<lparr>repo_id = 5, repo_owner = ''o'', repo_name = ''r''\<rparr>],
     repository_grants := [\<lparr>gr_repo = 5, gr_subject = ''ada'', can_read = True, can_write = True,
       can_admin = False\<rparr>]\<rparr>) sample_store 0"

theorem oidc_grants_are_backed_witness:
  "\<exists>g \<in> set (repository_grants (db grants_world)). gr_subject g = ''ada'' \<and> can_read g \<and> can_write g"
proof -
  have q: "quiet grants_world" by (simp add: grants_world_def fresh_world_def)
  have s: "schema_ok (db grants_world)"
    by (simp add: grants_world_def fresh_world_def empty_database_def schema_ok_def checks_ok_def
        uniques_ok_def foreign_keys_ok_def has_repository_def grant_check_def)
  have r: "\<exists>w'. authenticate_oidc demo_deps ''i'' ''a'' [(''k'', ''j'')] ''Bearer ada'' ''o'' ''r'' Write grants_world
      = (Inr \<lparr>authorization = ''Bearer ada'', subject = ''ada'', administrator = False\<rparr>, w')"
    by (simp add: authenticate_oidc_def grants_world_def fresh_world_def andthen_def of_result_def
        get_world_def strip_prefix_def bearer_def exec_pool_def take_event_def Let_def on_err_def
        select_grant_def empty_database_def guard_err_def ret_def)
  then show ?thesis using oidc_grants_are_backed [OF q s] by fastforce
qed

end
