(* ===== verification/Uploads.thy ===== *)
theory Uploads
  imports Auth
begin

text \<open>
  The upload path of \<open>lib.rs\<close>: sessions (\<open>ensure_upload_session\<close>, \<open>begin_cdc\<close>), chunk registration and
  storage (\<open>register_and_store_chunk\<close>, \<open>upload_cdc_chunk\<close>), publication (\<open>publish_manifest\<close>,
  \<open>finalize_cdc\<close>) and whole-object uploads (\<open>upload_basic\<close>).  Random UUIDs are arguments.  The
  catalogue invariants are in the theory \<open>Catalog\<close>.
\<close>

section \<open>Shared helpers\<close>

fun digest_parse_error_to_string :: "('s, 'j) server_deps \<Rightarrow> digest_parse_error \<Rightarrow> string" where
  "digest_parse_error_to_string D (Length n) =
     ''digest must contain 64 hexadecimal characters, received '' @ show_nat n"
| "digest_parse_error_to_string D (Hex e) = ''digest is not valid hexadecimal: '' @ hex_error_to_string D e"

definition parse_oid :: "('s, 'j) server_deps \<Rightarrow> string \<Rightarrow> api_error + object_oid" where
  "parse_oid D text =
     map_err (\<lambda>e. api_error_new 400 (digest_parse_error_to_string D e)) (from_str D text)"

definition repository_id :: "string \<Rightarrow> string \<Rightarrow> (('s, 'j) world, api_error, uuid) action" where
  "repository_id owner repository =
     andthen (query_pool (select_repository owner repository)) (\<lambda>row.
     of_result (ok_or (api_error_new 404 ''repository not found'') row))"

definition different_manifest :: api_error where
  "different_manifest = api_error_new 409 ''an open upload for this OID uses a different manifest''"

section \<open>Sessions\<close>

definition ensure_upload_session ::
  "('s, 'j) server_deps \<Rightarrow> uuid \<Rightarrow> uuid \<Rightarrow> object_manifest \<Rightarrow> (('s, 'j) world, api_error, uuid) action" where
  "ensure_upload_session D new_id repository m =
     transaction database_error (
       andthen (query_tx (expire_sessions_of repository (as_bytes (object_oid m)))) (\<lambda>_.
       andthen (of_result (ok_or (integrity ''object too large'') (i64_try_from (object_size m)))) (\<lambda>size'.
       andthen (of_result (map_err integrity (to_value D m))) (\<lambda>json.
       andthen (query_tx (upsert_open_session new_id repository (as_bytes (object_oid m)) size' json))
         (\<lambda>(id', _, stored).
       andthen (of_result (map_err integrity (from_value D stored))) (\<lambda>stored_manifest.
       andthen (guard_err (stored_manifest \<noteq> m) different_manifest) (\<lambda>_.
       ret id')))))))"

record begin_upload_request =
  req_protocol_version :: u16
  req_manifest :: object_manifest

record begin_upload_response =
  resp_protocol_version :: u16
  resp_upload_id :: uuid
  missing_chunk_indexes :: "u32 list"
  resp_expires_at :: string

text \<open>The loop of \<open>begin_cdc\<close> over the enumerated descriptors.\<close>

definition missing_step ::
  "('s, 'j) server_deps \<Rightarrow> uuid \<Rightarrow> nat \<times> chunk_descriptor \<Rightarrow> u32 list \<Rightarrow> (('s, 'j) world, api_error, u32 list) action" where
  "missing_step D repository = (\<lambda>(index, d) acc.
     andthen (on_err (storage_api_error D) (on_store (\<lambda>s. chunk_exists D s repository (cd_id d)))) (\<lambda>present.
     if present then ret acc
     else andthen (of_result (ok_or (api_error_new 422 ''manifest has too many chunks'') (u32_try_from index)))
            (\<lambda>i. ret (acc @ [i]))))"

definition begin_cdc ::
  "('s, 'j) server_deps \<Rightarrow> app_state \<Rightarrow> string \<Rightarrow> string \<Rightarrow> string \<Rightarrow> header_map \<Rightarrow> begin_upload_request \<Rightarrow> uuid
     \<Rightarrow> (('s, 'j) world, api_error, begin_upload_response) action" where
  "begin_cdc D A owner repository oid_text headers request new_id =
     andthen (authenticate D A headers owner repository Write) (\<lambda>_.
     andthen (of_result (parse_oid D oid_text)) (\<lambda>oid.
     andthen (guard_err (req_protocol_version request \<noteq> 1)
                (api_error_new 400 ''unsupported CDC protocol version'')) (\<lambda>_.
     andthen (of_result (map_err (\<lambda>e. api_error_new 422 (manifest_error_to_string e))
                (validate (req_manifest request)))) (\<lambda>_.
     andthen (guard_err (object_oid (req_manifest request) \<noteq> oid)
                (api_error_new 422 ''manifest OID does not match the requested object OID'')) (\<lambda>_.
     andthen (repository_id owner repository) (\<lambda>repo.
     andthen (of_result (map_err (api_error_new 400) (to_value D (req_manifest request)))) (\<lambda>json.
     andthen (transaction database_error (
       andthen (query_tx (expire_sessions_of repo (as_bytes oid))) (\<lambda>_.
       andthen (of_result (ok_or (api_error_new 422 ''object is too large'')
                  (i64_try_from (object_size (req_manifest request))))) (\<lambda>size'.
       andthen (query_tx (upsert_open_session new_id repo (as_bytes oid) size' json)) (\<lambda>(upload_id, expiry, stored).
       andthen (of_result (map_err integrity (from_value D stored))) (\<lambda>stored_manifest.
       andthen (guard_err (stored_manifest \<noteq> req_manifest request) different_manifest) (\<lambda>_.
       ret (upload_id, expiry, stored_manifest))))))))
       (\<lambda>(upload_id, expiry, stored_manifest).
     andthen (for_fold (missing_step D repo) (enumerate 0 (chunks stored_manifest)) []) (\<lambda>missing.
     ret \<lparr>resp_protocol_version = 1, resp_upload_id = upload_id, missing_chunk_indexes = missing,
          resp_expires_at = format_seconds D expiry\<rparr>)))))))))"

section \<open>Chunks\<close>

definition load_open_upload ::
  "('s, 'j) server_deps \<Rightarrow> uuid \<Rightarrow> object_oid \<Rightarrow> uuid \<Rightarrow> (('s, 'j) world, api_error, object_manifest) action" where
  "load_open_upload D repository oid upload =
     andthen (query_pool (select_open_session upload repository (as_bytes oid))) (\<lambda>row.
     andthen (of_result (ok_or (api_error_new 404 ''open upload session not found'') row)) (\<lambda>json.
     of_result (map_err integrity (from_value D json))))"

definition register_and_store_chunk ::
  "('s, 'j) server_deps \<Rightarrow> uuid \<Rightarrow> uuid \<Rightarrow> chunk_descriptor \<Rightarrow> bytes \<Rightarrow> (('s, 'j) world, api_error, unit) action" where
  "register_and_store_chunk D repository upload d bytes =
     andthen (transaction database_error (
       andthen (query_tx (upsert_chunk repository (as_bytes (cd_id d)) (int (chunk_len d)))) (\<lambda>registered.
       andthen (guard_err (registered = None)
                  (integrity ''chunk metadata disagrees with the manifest length'')) (\<lambda>_.
       query_tx (insert_session_chunk upload repository (as_bytes (cd_id d))))))) (\<lambda>_.
     on_err (storage_api_error D) (on_store (\<lambda>s. put_verified D s repository (cd_id d) bytes)))"

text \<open>\<open>Vec::get\<close>.\<close>

definition nth_opt :: "'a list \<Rightarrow> nat \<Rightarrow> 'a option" where
  "nth_opt xs i = (if i < length xs then Some (xs ! i) else None)"

definition upload_cdc_chunk ::
  "('s, 'j) server_deps \<Rightarrow> app_state \<Rightarrow> string \<Rightarrow> string \<Rightarrow> string \<Rightarrow> uuid \<Rightarrow> nat \<Rightarrow> header_map \<Rightarrow> bytes
     \<Rightarrow> (('s, 'j) world, api_error, nat) action" where
  "upload_cdc_chunk D A owner repository oid_text upload index headers bytes =
     andthen acquire_permit (\<lambda>_.
     andthen (authenticate D A headers owner repository Write) (\<lambda>_.
     andthen (of_result (parse_oid D oid_text)) (\<lambda>oid.
     andthen (repository_id owner repository) (\<lambda>repo.
     andthen (load_open_upload D repo oid upload) (\<lambda>m.
     andthen (of_result (ok_or (api_error_new 404 ''chunk index is outside the manifest'')
                (nth_opt (chunks m) index))) (\<lambda>d.
     andthen (guard_err (length bytes \<noteq> chunk_len d) (api_error_new 422 ''chunk length mismatch'')) (\<lambda>_.
     andthen (register_and_store_chunk D repo upload d bytes) (\<lambda>_.
     andthen (bump (\<lambda>mt. mt\<lparr>chunks_received := chunks_received mt + of_nat (length bytes)\<rparr>)) (\<lambda>_.
     ret 204)))))))))"

section \<open>Publication\<close>

definition load_finalizable_upload ::
  "('s, 'j) server_deps \<Rightarrow> uuid \<Rightarrow> object_oid \<Rightarrow> uuid
     \<Rightarrow> (('s, 'j) world, api_error, object_manifest \<times> bool) action" where
  "load_finalizable_upload D repository oid upload =
     andthen (query_pool (select_finalizable_session upload repository (as_bytes oid))) (\<lambda>row.
     andthen (of_result (ok_or (api_error_new 404 ''upload session not found'') row)) (\<lambda>(json, st).
     andthen (of_result (map_err integrity (from_value D json))) (\<lambda>m.
     ret (m, st = Finalized))))"

text \<open>One round of the loop that links an inserted object to its chunks.\<close>

definition link_chunk ::
  "uuid \<Rightarrow> object_oid \<Rightarrow> nat \<times> chunk_descriptor \<Rightarrow> (('s, 'j) world, api_error, unit) action" where
  "link_chunk repository oid = (\<lambda>(ordinal, d).
     andthen (of_result (ok_or (integrity ''too many chunks'') (i32_try_from ordinal))) (\<lambda>ord.
     andthen (of_result (ok_or (integrity ''offset too large'') (i64_try_from (cd_offset d)))) (\<lambda>off.
     andthen (of_result (ok_or (integrity ''chunk too large'') (i32_try_from (chunk_len d)))) (\<lambda>len.
     andthen (query_tx (insert_object_chunk repository (as_bytes oid) ord (as_bytes (cd_id d)) off len)) (\<lambda>_.
     query_tx (add_references 1 repository (as_bytes (cd_id d))))))))"

text \<open>The body of the publication transaction.\<close>

definition publish_body ::
  "('s, 'j) server_deps \<Rightarrow> uuid \<Rightarrow> uuid \<Rightarrow> object_manifest \<Rightarrow> (('s, 'j) world, api_error, bool) action" where
  "publish_body D repository upload m =
     andthen (query_tx (select_finalizable_session upload repository (as_bytes (object_oid m)))) (\<lambda>row.
     andthen (of_result (ok_or (api_error_new 404 ''upload session not found'') row)) (\<lambda>(_, st).
     if st = Finalized then ret False
     else if st \<noteq> Open then fail (api_error_new 404 ''open upload session not found'')
     else
       andthen (for_each (\<lambda>d. query_tx (insert_chunk_if_absent repository (as_bytes (cd_id d)) (int (chunk_len d))))
                 (chunks m)) (\<lambda>_.
       andthen (of_result (ok_or (integrity ''object too large'') (i64_try_from (object_size m)))) (\<lambda>size'.
       andthen (of_result (map_err integrity (to_value D m))) (\<lambda>json.
       andthen (query_tx (insert_object_if_absent repository (as_bytes (object_oid m)) size' json)) (\<lambda>inserted.
       andthen (if inserted = 1 then for_each (link_chunk repository (object_oid m)) (enumerate 0 (chunks m))
                else ret ()) (\<lambda>_.
       andthen (query_tx (finalize_session upload)) (\<lambda>_.
       ret (inserted = 1)))))))))"

definition publish_manifest ::
  "('s, 'j) server_deps \<Rightarrow> uuid \<Rightarrow> uuid \<Rightarrow> object_manifest \<Rightarrow> (('s, 'j) world, api_error, bool) action" where
  "publish_manifest D repository upload m =
     andthen (of_result (map_err (\<lambda>e. integrity (manifest_error_to_string e)) (validate m))) (\<lambda>_.
     transaction database_error (publish_body D repository upload m))"

text \<open>Reading back the chunks of a session in order; \<open>acc\<close> is what the hasher was fed.\<close>

definition missing_chunks :: "('s, 'j) server_deps \<Rightarrow> storage_error \<Rightarrow> api_error" where
  "missing_chunks D e = (case e of
       Provider NotFound \<Rightarrow> api_error_new 409 ''upload is missing chunks''
     | _ \<Rightarrow> storage_api_error D e)"

definition read_chunk ::
  "('s, 'j) server_deps \<Rightarrow> (storage_error \<Rightarrow> api_error) \<Rightarrow> uuid \<Rightarrow> chunk_descriptor
     \<Rightarrow> (('s, 'j) world, api_error, bytes) action" where
  "read_chunk D conv repository d =
     andthen (on_err conv (on_store (\<lambda>s. get_verified D s repository (cd_id d)))) (\<lambda>bytes.
     andthen (guard_err (length bytes \<noteq> chunk_len d)
                (integrity ''stored chunk length does not match manifest'')) (\<lambda>_.
     ret bytes))"

definition read_all ::
  "('s, 'j) server_deps \<Rightarrow> (storage_error \<Rightarrow> api_error) \<Rightarrow> uuid \<Rightarrow> chunk_descriptor list
     \<Rightarrow> bytes \<Rightarrow> (('s, 'j) world, api_error, bytes) action" where
  "read_all D conv repository =
     for_fold (\<lambda>d acc. andthen (read_chunk D conv repository d) (\<lambda>bytes. ret (acc @ bytes)))"

definition finalize_cdc ::
  "('s, 'j) server_deps \<Rightarrow> app_state \<Rightarrow> string \<Rightarrow> string \<Rightarrow> string \<Rightarrow> uuid \<Rightarrow> header_map
     \<Rightarrow> (('s, 'j) world, api_error, nat) action" where
  "finalize_cdc D A owner repository oid_text upload headers =
     andthen acquire_permit (\<lambda>_.
     andthen (authenticate D A headers owner repository Write) (\<lambda>_.
     andthen (of_result (parse_oid D oid_text)) (\<lambda>oid.
     andthen (repository_id owner repository) (\<lambda>repo.
     andthen (load_finalizable_upload D repo oid upload) (\<lambda>(m, already_finalized).
     if already_finalized then ret 204
     else
       andthen (read_all D (missing_chunks D) repo (chunks m) []) (\<lambda>content.
       andthen (guard_err (sha256 D content \<noteq> oid) (api_error_new 422 ''object SHA-256 mismatch'')) (\<lambda>_.
       andthen (publish_manifest D repo upload m) (\<lambda>published.
       andthen (if published then bump (\<lambda>mt. mt\<lparr>logical_uploaded := logical_uploaded mt + object_size m\<rparr>)
                else ret ()) (\<lambda>_.
       ret 204)))))))))"

section \<open>Whole-object uploads\<close>

text \<open>\<open>str::parse::<u64>\<close>: decimal digits after an optional plus sign, no overflow.\<close>

definition digit_value :: "char \<Rightarrow> nat option" where
  "digit_value c = (let n = of_char c :: nat in if 48 \<le> n \<and> n \<le> 57 then Some (n - 48) else None)"

fun parse_digits :: "nat \<Rightarrow> string \<Rightarrow> nat option" where
  "parse_digits acc [] = Some acc"
| "parse_digits acc (c # cs) = (case digit_value c of
     None \<Rightarrow> None
   | Some v \<Rightarrow> if acc * 10 + v < 2 ^ 64 then parse_digits (acc * 10 + v) cs else None)"

definition parse_u64 :: "string \<Rightarrow> nat option" where
  "parse_u64 s = (let ds = (case s of CHR ''+'' # rest \<Rightarrow> rest | _ \<Rightarrow> s) in
     if ds = [] then None else parse_digits 0 ds)"

definition declared_length :: "('s, 'j) server_deps \<Rightarrow> header_map \<Rightarrow> nat option" where
  "declared_length D headers = Option.bind (map_of headers ''content-length'')
     (\<lambda>v. Option.bind (header_to_str D v) parse_u64)"

definition object_too_large :: api_error where
  "object_too_large = api_error_new 413 ''object exceeds the 100 GiB production limit''"

text \<open>\<open>tokio::io::copy\<close> of the body limited to \<open>limit\<close> bytes: an error beyond the limit is not
  met.\<close>

fun copy_limited :: "reader \<Rightarrow> nat \<Rightarrow> unit + bytes" where
  "copy_limited (Reader content err) limit =
     (if length content \<ge> limit then Inr (take limit content)
      else case err of Some e \<Rightarrow> Inl () | None \<Rightarrow> Inr content)"

text \<open>Opening the staged file for reading; a second script entry decides whether reading it later
  fails.  The failure is met after the content, so that the producer may store more chunks before it than with an earlier failure.\<close>

definition staged_reader :: "bytes \<Rightarrow> (('s, 'j) world, api_error, reader) action" where
  "staged_reader content w = (case io_script w of
       [] \<Rightarrow> (Inr (Reader content None), w)
     | ok # rest \<Rightarrow>
         (Inr (Reader content (if ok then None else Some ''read failed'')), w\<lparr>io_script := rest\<rparr>))"

definition reopen_staged :: "bytes \<Rightarrow> (('s, 'j) world, api_error, reader) action" where
  "reopen_staged content = andthen file_io (\<lambda>_. staged_reader content)"

text \<open>The chunks the producer task sends before it stops, and how it stops.\<close>

function produce :: "'m core_deps_scheme \<Rightarrow> chunk_stream \<Rightarrow> chunk list \<times> (core_error + chunk_stream)" where
  "produce D s =
     (case next_chunk D s of
        (None, s') \<Rightarrow> ([], Inr s')
      | (Some (Inl e), s') \<Rightarrow> ([], Inl e)
      | (Some (Inr c), s') \<Rightarrow> (case produce D s' of (cs, r) \<Rightarrow> (c # cs, r)))"
  by pat_completeness auto
termination
  by (relation "measure (\<lambda>(D, s). length (inner s))") (auto dest: next_chunk_decreases [OF sym])

declare produce.simps [simp del]

definition unprocessable :: "core_error \<Rightarrow> api_error" where
  "unprocessable e = api_error_new 422 (core_error_to_string e)"

definition upload_basic ::
  "('s, 'j) server_deps \<Rightarrow> app_state \<Rightarrow> string \<Rightarrow> string \<Rightarrow> string \<Rightarrow> header_map \<Rightarrow> reader \<Rightarrow> uuid
     \<Rightarrow> (('s, 'j) world, api_error, nat) action" where
  "upload_basic D A owner repository oid_text headers body new_id =
     andthen (authenticate D A headers owner repository Write) (\<lambda>_.
     andthen (of_result (parse_oid D oid_text)) (\<lambda>oid.
     andthen (repository_id owner repository) (\<lambda>repo.
     andthen (guard_err (case declared_length D headers of None \<Rightarrow> False | Some n \<Rightarrow> n > unat MAX_OBJECT_SIZE)
                object_too_large) (\<lambda>_.
     andthen acquire_permit (\<lambda>_.
     andthen file_io (\<lambda>_.
     andthen file_io (\<lambda>_.
     andthen file_io (\<lambda>_.
     andthen (of_result (map_err io_error (copy_limited body (unat MAX_OBJECT_SIZE + 1)))) (\<lambda>staged.
     andthen file_io (\<lambda>_.
     andthen (guard_err (length staged > unat MAX_OBJECT_SIZE) object_too_large) (\<lambda>_.
     andthen file_io (\<lambda>_.
     andthen (reopen_staged staged) (\<lambda>source.
     andthen join_blocking (\<lambda>_.
     andthen (of_result (map_err unprocessable (finish D (new_stream D source beta_v1)))) (\<lambda>m.
     andthen (guard_err (object_oid m \<noteq> oid)
                (api_error_new 422 ''uploaded bytes do not match the requested object OID'')) (\<lambda>_.
     andthen (ensure_upload_session D new_id repo m) (\<lambda>upload.
     andthen (reopen_staged staged) (\<lambda>source2.
     case produce D (new_stream D source2 beta_v1) of (pieces, stopped) \<Rightarrow>
     andthen (for_each (\<lambda>c. register_and_store_chunk D repo upload (descriptor c) (chunk_data c)) pieces) (\<lambda>_.
     andthen join_blocking (\<lambda>_.
     andthen (of_result (map_err unprocessable (res_bind stopped (finish D)))) (\<lambda>_.
     andthen (publish_manifest D repo upload m) (\<lambda>published.
     andthen (if published then bump (\<lambda>mt. mt\<lparr>logical_uploaded := logical_uploaded mt + object_size m\<rparr>)
              else ret ()) (\<lambda>_.
     andthen (bump (\<lambda>mt. mt\<lparr>chunks_received := chunks_received mt + object_size m\<rparr>)) (\<lambda>_.
     ret 204))))))))))))))))))))))))"

end
