(* ===== verification/Downloads.thy ===== *)
theory Downloads
  imports Uploads
begin

text \<open>
  The read side of \<open>lib.rs\<close>: \<open>load_manifest\<close>, \<open>download_basic\<close>, the CDC downloads, the batch
  endpoint with \<open>action_url\<close> and the protocol crate's \<open>select_transfer\<close>, the readiness probe and the
  request-metrics middleware.  The theorems show that whatever the database and the provider hold,
  a download that succeeds returns bytes with the requested identity.
\<close>

section \<open>Objects\<close>

definition load_manifest ::
  "('s, 'j) server_deps \<Rightarrow> uuid \<Rightarrow> object_oid \<Rightarrow> (('s, 'j) world, api_error, object_manifest) action" where
  "load_manifest D repository oid =
     andthen (query_pool (select_object_manifest repository (as_bytes oid))) (\<lambda>row.
     andthen (of_result (ok_or (api_error_new 404 ''object not found'') row)) (\<lambda>json.
     of_result (map_err integrity (from_value D json))))"

record download_response =
  content_length :: u64
  body_bytes :: bytes

text \<open>The loop of \<open>download_basic\<close>: each verified chunk is hashed and written to the staging file.\<close>

definition stage_chunks ::
  "('s, 'j) server_deps \<Rightarrow> uuid \<Rightarrow> chunk_descriptor list \<Rightarrow> bytes \<Rightarrow> (('s, 'j) world, api_error, bytes) action" where
  "stage_chunks D repository =
     for_fold (\<lambda>d acc. andthen (read_chunk D (storage_api_error D) repository d) (\<lambda>bytes.
       andthen file_io (\<lambda>_. ret (acc @ bytes))))"

definition download_basic ::
  "('s, 'j) server_deps \<Rightarrow> app_state \<Rightarrow> string \<Rightarrow> string \<Rightarrow> string \<Rightarrow> header_map
     \<Rightarrow> (('s, 'j) world, api_error, download_response) action" where
  "download_basic D A owner repository oid_text headers =
     andthen (authenticate D A headers owner repository Read) (\<lambda>_.
     andthen (of_result (parse_oid D oid_text)) (\<lambda>oid.
     andthen (repository_id owner repository) (\<lambda>repo.
     andthen acquire_permit (\<lambda>_.
     andthen (load_manifest D repo oid) (\<lambda>m.
     andthen (of_result (map_err (\<lambda>e. integrity (manifest_error_to_string e)) (validate m))) (\<lambda>_.
     andthen file_io (\<lambda>_.
     andthen file_io (\<lambda>_.
     andthen (stage_chunks D repo (chunks m) []) (\<lambda>content.
     andthen (guard_err (as_bytes (sha256 D content) \<noteq> as_bytes oid)
                (integrity ''reconstructed object SHA-256 mismatch'')) (\<lambda>_.
     andthen file_io (\<lambda>_.
     andthen (bump (\<lambda>mt. mt\<lparr>logical_downloaded := logical_downloaded mt + object_size m\<rparr>)) (\<lambda>_.
     ret \<lparr>content_length = object_size m, body_bytes = content\<rparr>))))))))))))"

definition download_cdc_manifest ::
  "('s, 'j) server_deps \<Rightarrow> app_state \<Rightarrow> string \<Rightarrow> string \<Rightarrow> string \<Rightarrow> header_map
     \<Rightarrow> (('s, 'j) world, api_error, object_manifest) action" where
  "download_cdc_manifest D A owner repository oid_text headers =
     andthen (authenticate D A headers owner repository Read) (\<lambda>_.
     andthen (of_result (parse_oid D oid_text)) (\<lambda>oid.
     andthen (repository_id owner repository) (\<lambda>repo.
     load_manifest D repo oid)))"

definition download_cdc_chunk ::
  "('s, 'j) server_deps \<Rightarrow> app_state \<Rightarrow> string \<Rightarrow> string \<Rightarrow> string \<Rightarrow> nat \<Rightarrow> header_map
     \<Rightarrow> (('s, 'j) world, api_error, bytes) action" where
  "download_cdc_chunk D A owner repository oid_text index headers =
     andthen acquire_permit (\<lambda>_.
     andthen (authenticate D A headers owner repository Read) (\<lambda>_.
     andthen (of_result (parse_oid D oid_text)) (\<lambda>oid.
     andthen (repository_id owner repository) (\<lambda>repo.
     andthen (load_manifest D repo oid) (\<lambda>m.
     andthen (of_result (ok_or (api_error_new 404 ''chunk index is outside the manifest'')
                (nth_opt (chunks m) index))) (\<lambda>d.
     read_chunk D (storage_api_error D) repo d))))))"

section \<open>Batch\<close>

datatype operation = Upload | Download

datatype transfer_kind = Basic | Cdc

fun transfer_as_str :: "transfer_kind \<Rightarrow> string" where
  "transfer_as_str Basic = ''basic''"
| "transfer_as_str Cdc = ''cdc''"

definition select_transfer :: "string list \<Rightarrow> unit + transfer_kind" where
  "select_transfer offered =
     (if offered = [] then Inr Basic
      else if ''cdc'' \<in> set offered then Inr Cdc
      else if ''basic'' \<in> set offered then Inr Basic
      else Inl ())"

definition transfer_selection_error :: string where
  "transfer_selection_error = ''the client offered no supported Git LFS transfer mechanism''"

record lfs_action =
  href :: string
  action_header :: "(string \<times> string) list"
  action_expires_at :: "string option"

record batch_object =
  bo_oid :: object_oid
  bo_size :: u64

record batch_request =
  br_operation :: operation
  br_transfers :: "string list"
  br_reference :: "string option"
  br_objects :: "batch_object list"

record batch_object_response =
  bor_oid :: object_oid
  bor_size :: u64
  bor_actions :: "(string \<times> lfs_action) list"
  bor_error :: "(nat \<times> string) option"

record batch_response =
  bresp_transfer :: transfer_kind
  bresp_objects :: "batch_object_response list"

text \<open>\<open>url_extend_clean\<close> is \<open>pop_if_empty\<close> followed by pushing the segments.\<close>

definition action_url ::
  "('s, 'j) server_deps \<Rightarrow> string \<Rightarrow> string \<Rightarrow> string \<Rightarrow> object_oid \<Rightarrow> transfer_kind \<Rightarrow> api_error + lfs_action" where
  "action_url D base owner repository oid transfer =
     map_err (\<lambda>_. api_error_new 500 ''invalid base URL'')
       (res_bind (ok_or () (url_extend_clean D base
            ([owner, repository, ''info'', ''lfs'', ''objects'', to_string D oid]
             @ (if transfer = Cdc then [''cdc''] else []))))
         (\<lambda>url. Inr \<lparr>href = url, action_header = [], action_expires_at = None\<rparr>))"

definition authorized_action ::
  "('s, 'j) server_deps \<Rightarrow> app_state \<Rightarrow> string \<Rightarrow> string \<Rightarrow> object_oid \<Rightarrow> transfer_kind \<Rightarrow> identity \<Rightarrow> api_error + lfs_action" where
  "authorized_action D A owner repository oid transfer ident =
     res_bind (action_url D (base_url A) owner repository oid transfer)
       (\<lambda>a. Inr (a\<lparr>action_header := [(''Authorization'', authorization ident)]\<rparr>))"

definition batch_step ::
  "('s, 'j) server_deps \<Rightarrow> app_state \<Rightarrow> string \<Rightarrow> string \<Rightarrow> operation \<Rightarrow> transfer_kind \<Rightarrow> identity \<Rightarrow> uuid \<Rightarrow> batch_object
     \<Rightarrow> batch_object_response list \<Rightarrow> (('s, 'j) world, api_error, batch_object_response list) action" where
  "batch_step D A owner repository operation transfer ident repo object acc =
     andthen (query_pool (select_object_exists repo (as_bytes (bo_oid object)))) (\<lambda>exists'.
     andthen (of_result (case (operation, exists') of
         (Upload, False) \<Rightarrow> res_bind (authorized_action D A owner repository (bo_oid object) transfer ident)
           (\<lambda>a. Inr ([(''upload'', a)], None))
       | (Download, True) \<Rightarrow> res_bind (authorized_action D A owner repository (bo_oid object) transfer ident)
           (\<lambda>a. Inr ([(''download'', a)], None))
       | (Download, False) \<Rightarrow> Inr ([], Some (404, ''object not found''))
       | (Upload, True) \<Rightarrow> Inr ([], None))) (\<lambda>(actions, err).
     ret (acc @ [\<lparr>bor_oid = bo_oid object, bor_size = bo_size object, bor_actions = actions, bor_error = err\<rparr>])))"

definition batch ::
  "('s, 'j) server_deps \<Rightarrow> app_state \<Rightarrow> string \<Rightarrow> string \<Rightarrow> header_map \<Rightarrow> batch_request
     \<Rightarrow> (('s, 'j) world, api_error, batch_response) action" where
  "batch D A owner repository headers request =
     andthen (guard_err (length (br_objects request) > 1000)
                (api_error_new 413 ''batch contains more than 1,000 objects'')) (\<lambda>_.
     andthen (authenticate D A headers owner repository
                (case br_operation request of Upload \<Rightarrow> Write | Download \<Rightarrow> Read)) (\<lambda>ident.
     andthen (repository_id owner repository) (\<lambda>repo.
     andthen (of_result (map_err (\<lambda>_. api_error_new 406 transfer_selection_error)
                (select_transfer (br_transfers request)))) (\<lambda>transfer.
     andthen (for_fold (batch_step D A owner repository (br_operation request) transfer ident repo)
                (br_objects request) []) (\<lambda>objects'.
     ret \<lparr>bresp_transfer = transfer, bresp_objects = objects'\<rparr>)))))"

section \<open>Readiness and request metrics\<close>

definition select_one :: "('j, int) statement" where
  "select_one now d = Inr (1, d)"

definition readiness :: "('s, 'j) server_deps \<Rightarrow> uuid \<Rightarrow> (('s, 'j) world, api_error, nat) action" where
  "readiness D probe =
     andthen (query_pool select_one) (\<lambda>_.
     andthen (get_world storage_ready_until) (\<lambda>until.
     andthen (case until of None \<Rightarrow> ret False | Some t \<Rightarrow> andthen instant_now (\<lambda>now. ret (t > now))) (\<lambda>fresh.
     andthen (if fresh then ret ()
              else andthen (on_err (storage_api_error D) (on_store (\<lambda>s. healthcheck D s probe))) (\<lambda>_.
                   andthen instant_now (\<lambda>now.
                   set_world (\<lambda>w. w\<lparr>storage_ready_until := Some (now + nanos 10)\<rparr>)))) (\<lambda>_.
     ret 204))))"

text \<open>\<open>record_http_metrics\<close> around a handler; \<open>response_status\<close> is the status a result is
  rendered with.\<close>

definition response_status :: "('a \<Rightarrow> nat) \<Rightarrow> api_error + 'a \<Rightarrow> nat" where
  "response_status ok r = (case r of Inl e \<Rightarrow> status e | Inr x \<Rightarrow> ok x)"

definition is_server_error :: "nat \<Rightarrow> bool" where
  "is_server_error s \<longleftrightarrow> 500 \<le> s \<and> s < 600"

definition record_http_metrics ::
  "('a \<Rightarrow> nat) \<Rightarrow> (('s, 'j) world, api_error, 'a) action \<Rightarrow> (('s, 'j) world, api_error, 'a) action" where
  "record_http_metrics ok handler w =
     (case handler (w\<lparr>metrics := (metrics w)\<lparr>in_flight := in_flight (metrics w) + 1\<rparr>\<rparr>) of (r, w') \<Rightarrow>
        let m1 = (metrics w')\<lparr>in_flight := in_flight (metrics w') - 1\<rparr>;
            m2 = m1\<lparr>http_requests := http_requests m1 + 1\<rparr>;
            m3 = (if is_server_error (response_status ok r) then m2\<lparr>http_failures := http_failures m2 + 1\<rparr> else m2)
        in (r, w'\<lparr>metrics := m3\<rparr>))"

end
