(* ===== verification/Catalog.thy ===== *)
theory Catalog
  imports Downloads
begin

text \<open>
  The catalogue invariant and its preservation by the upload path.  \<open>catalog_ok\<close> says that the schema
  constraints hold, that every reference count equals the number of links to that chunk, that every
  object row carries a well-formed manifest of its own identity and size and is linked to exactly that
  manifest's chunks in order, and that every session row carries a manifest of its own
  identity.  Every handler preserves it, in every outcome and whatever invariant-preserving transactions
  other processes commit in between.
\<close>

section \<open>The invariant\<close>

definition count_refs :: "'j database \<Rightarrow> uuid \<Rightarrow> bytes \<Rightarrow> nat" where
  "count_refs d r c = length (filter (\<lambda>l. oc_repo l = r \<and> oc_chunk l = c) (object_chunks d))"

definition refs_exact :: "'j database \<Rightarrow> bool" where
  "refs_exact d \<longleftrightarrow> (\<forall>c \<in> set (chunk_table d). reference_count c = int (count_refs d (ch_repo c) (ch_id c)))"

definition links :: "'j database \<Rightarrow> uuid \<Rightarrow> bytes \<Rightarrow> object_chunk_row list" where
  "links d r oid = filter (\<lambda>l. oc_repo l = r \<and> oc_oid l = oid) (object_chunks d)"

definition link_row :: "uuid \<Rightarrow> object_oid \<Rightarrow> nat \<times> chunk_descriptor \<Rightarrow> object_chunk_row" where
  "link_row r oid = (\<lambda>(i, c). \<lparr>oc_repo = r, oc_oid = as_bytes oid, oc_ordinal = int i,
     oc_chunk = as_bytes (cd_id c), byte_offset = int (unat (cd_offset c)), byte_length = int (chunk_len c)\<rparr>)"

definition object_described :: "('s, 'j) server_deps \<Rightarrow> 'j database \<Rightarrow> 'j object_row \<Rightarrow> bool" where
  "object_described D d o' \<longleftrightarrow>
     (\<exists>m. from_value D (obj_manifest o') = Inr m \<and> well_formed m
        \<and> as_bytes (object_oid m) = obj_oid o' \<and> obj_size o' = int (unat (object_size m))
        \<and> links d (obj_repo o') (obj_oid o') = map (link_row (obj_repo o') (object_oid m)) (enumerate 0 (chunks m)))"

definition session_described :: "('s, 'j) server_deps \<Rightarrow> 'j session_row \<Rightarrow> bool" where
  "session_described D s \<longleftrightarrow>
     (\<exists>m. from_value D (ses_manifest s) = Inr m \<and> as_bytes (object_oid m) = ses_oid s)"

definition catalog_ok :: "('s, 'j) server_deps \<Rightarrow> 'j database \<Rightarrow> bool" where
  "catalog_ok D d \<longleftrightarrow> schema_ok d \<and> refs_exact d
     \<and> (\<forall>o' \<in> set (objects d). object_described D d o')
     \<and> (\<forall>s \<in> set (upload_sessions d). session_described D s)"

text \<open>JSON values decode to what was encoded.\<close>

definition json_roundtrip :: "('s, 'j) server_deps \<Rightarrow> bool" where
  "json_roundtrip D \<longleftrightarrow> (\<forall>m j. to_value D m = Inr j \<longrightarrow> from_value D j = Inr m)"

section \<open>Statements outside publication\<close>

lemma catalog_okD:
  assumes "catalog_ok D d"
  shows "schema_ok d" "refs_exact d" "o' \<in> set (objects d) \<Longrightarrow> object_described D d o'"
    "s \<in> set (upload_sessions d) \<Longrightarrow> session_described D s"
  using assms by (auto simp: catalog_ok_def)

lemma same_tables:
  assumes "chunk_table d' = chunk_table d" "object_chunks d' = object_chunks d"
  shows "refs_exact d' = refs_exact d" "links d' = links d" "count_refs d' = count_refs d"
  using assms by (auto simp: refs_exact_def links_def count_refs_def fun_eq_iff)

lemma object_described_links:
  "links d' (obj_repo o') (obj_oid o') = links d (obj_repo o') (obj_oid o') \<Longrightarrow>
     object_described D d' o' = object_described D d o'"
  by (simp add: object_described_def)

lemma session_describedI:
  "from_value D (ses_manifest s) = Inr m \<Longrightarrow> as_bytes (object_oid m) = ses_oid s \<Longrightarrow> session_described D s"
  by (auto simp: session_described_def)

lemma catalog_ok_sessions:
  assumes "catalog_ok D d"
  shows "catalog_ok D (d\<lparr>upload_sessions := ss\<rparr>) \<longleftrightarrow>
    schema_ok (d\<lparr>upload_sessions := ss\<rparr>) \<and> (\<forall>s \<in> set ss. session_described D s)"
  using assms same_tables [of "d\<lparr>upload_sessions := ss\<rparr>" d]
  by (auto simp: catalog_ok_def object_described_def)

lemma session_described_update [simp]:
  "session_described D (s\<lparr>ses_state := st\<rparr>) = session_described D s"
  "session_described D (s\<lparr>expires_at := t\<rparr>) = session_described D s"
  by (simp_all add: session_described_def)

lemma expire_sessions_of_keeps [intro!]: "st_keeps (catalog_ok D) (expire_sessions_of r oid)"
  by (rule st_keepsI)
    (auto simp: expire_sessions_of_def ok_iff catalog_ok_sessions intro: catalog_okD(4))

lemma finalize_session_keeps [intro!]: "st_keeps (catalog_ok D) (finalize_session u)"
  by (rule st_keepsI)
    (auto simp: finalize_session_def ok_iff catalog_ok_sessions intro: catalog_okD(4))

lemma upsert_open_session_keeps:
  assumes "from_value D j = Inr m" "as_bytes (object_oid m) = oid"
  shows "st_keeps (catalog_ok D) (upsert_open_session i r oid n j)"
  using assms
  by (intro st_keepsI)
    (auto simp: upsert_open_session_def ok_iff Let_def catalog_ok_sessions split: if_splits option.splits
      intro: catalog_okD(4) session_describedI)

lemma insert_session_chunk_keeps [intro!]: "st_keeps (catalog_ok D) (insert_session_chunk u r c)"
proof (rule st_keepsI)
  fix now d x d' assume ok: "catalog_ok D d" and st: "insert_session_chunk u r c now d = Inr (x, d')"
  then consider "d' = d" | sc where "d' = d\<lparr>upload_session_chunks := sc\<rparr>" "schema_ok d'"
    by (auto simp: insert_session_chunk_def ok_iff Let_def split: if_splits)
  then show "catalog_ok D d'"
  proof cases
    case 2
    then show ?thesis
      using ok same_tables [of d' d] by (auto simp: catalog_ok_def object_described_def)
  qed (use ok in simp)
qed

text \<open>A chunk row that is not yet there has no links, by the foreign key on links.\<close>

lemma no_links_without_chunk:
  assumes "schema_ok d" "(r, c) \<notin> set (map chunk_key (chunk_table d))"
  shows "count_refs d r c = 0"
proof -
  have "(oc_repo l, oc_chunk l) \<in> set (map chunk_key (chunk_table d))" if "l \<in> set (object_chunks d)" for l
    using assms(1) that by (auto simp: schema_ok_def foreign_keys_ok_def list_all_iff)
  then have "\<not> (oc_repo l = r \<and> oc_chunk l = c)" if "l \<in> set (object_chunks d)" for l
    using assms(2) that by blast
  then show ?thesis by (auto simp: count_refs_def filter_empty_conv)
qed

lemma catalog_ok_new_chunk:
  assumes ok: "catalog_ok D d" and new: "(r, c) \<notin> set (map chunk_key (chunk_table d))"
    and s: "schema_ok (d\<lparr>chunk_table := chunk_table d @ [\<lparr>ch_repo = r, ch_id = c, ch_size = n, reference_count = 0\<rparr>]\<rparr>)"
  shows "catalog_ok D (d\<lparr>chunk_table := chunk_table d @ [\<lparr>ch_repo = r, ch_id = c, ch_size = n, reference_count = 0\<rparr>]\<rparr>)"
proof -
  let ?d = "d\<lparr>chunk_table := chunk_table d @ [\<lparr>ch_repo = r, ch_id = c, ch_size = n, reference_count = 0\<rparr>]\<rparr>"
  have "count_refs ?d = count_refs d" "links ?d = links d"
    by (simp_all add: count_refs_def links_def fun_eq_iff)
  then show ?thesis
    using ok s no_links_without_chunk [OF catalog_okD(1) [OF ok] new]
    by (auto simp: catalog_ok_def refs_exact_def object_described_def)
qed

lemma insert_chunk_if_absent_keeps [intro!]: "st_keeps (catalog_ok D) (insert_chunk_if_absent r c n)"
  by (rule st_keepsI)
    (auto simp: insert_chunk_if_absent_def ok_iff Let_def split: if_splits intro!: catalog_ok_new_chunk)

lemma upsert_chunk_keeps [intro!]: "st_keeps (catalog_ok D) (upsert_chunk r c n)"
proof (rule st_keepsI)
  fix now d x d' assume ok: "catalog_ok D d" and st: "upsert_chunk r c n now d = Inr (x, d')"
  show "catalog_ok D d'"
  proof (cases "find (\<lambda>k. chunk_key k = (r, c)) (chunk_table d)")
    case None
    then have "(r, c) \<notin> set (map chunk_key (chunk_table d))" by (auto simp: find_None_iff)
    then show ?thesis
      using ok st None by (auto simp: upsert_chunk_def ok_iff Let_def split: if_splits intro!: catalog_ok_new_chunk)
  next
    case (Some k)
    then show ?thesis using ok st by (auto simp: upsert_chunk_def Let_def split: if_splits)
  qed
qed

section \<open>Publication\<close>

lemma query_txD:
  assumes "query_tx st w = (Inr x, w')"
  shows "st (tx_now w) (db w) = Inr (x, db w') \<and> tx_now w' = tx_now w \<and> store w' = store w"
  using assms by (auto simp: run_ok take_event_frame)

lemma link_chunk_run:
  assumes "link_chunk r oid (i, c) w = (Inr u, w')"
  shows "db w' = (db w)\<lparr>object_chunks := object_chunks (db w) @ [link_row r oid (i, c)],
      chunk_table := map (\<lambda>k. if chunk_key k = (r, as_bytes (cd_id c))
        then k\<lparr>reference_count := reference_count k + 1\<rparr> else k) (chunk_table (db w))\<rparr>"
    and "schema_ok (db w')"
  using assms
  by (auto simp: link_chunk_def andthen_ok of_result_ok ok_iff insert_object_chunk_def add_references_def
      i32_try_from_def i64_try_from_def link_row_def split: if_splits dest!: query_txD)

lemma count_refs_append:
  "count_refs (d\<lparr>object_chunks := object_chunks d @ [l], chunk_table := ct\<rparr>) r c =
     count_refs d r c + (if oc_repo l = r \<and> oc_chunk l = c then 1 else 0)"
  by (simp add: count_refs_def)

lemma refs_exact_link:
  assumes "refs_exact d" "oc_repo l = r" "oc_chunk l = c"
  shows "refs_exact (d\<lparr>object_chunks := object_chunks d @ [l],
    chunk_table := map (\<lambda>k. if chunk_key k = (r, c) then k\<lparr>reference_count := reference_count k + 1\<rparr> else k)
      (chunk_table d)\<rparr>)"
  using assms by (auto simp: refs_exact_def count_refs_append chunk_key_def)

lemma link_loop:
  assumes "for_each (link_chunk r oid) xs w = (Inr u, w')" "refs_exact (db w)" "schema_ok (db w)"
  shows "refs_exact (db w') \<and> schema_ok (db w')
    \<and> (\<exists>ct. db w' = (db w)\<lparr>object_chunks := object_chunks (db w) @ map (link_row r oid) xs, chunk_table := ct\<rparr>)"
  using assms
proof (induction xs arbitrary: w)
  case Nil
  then show ?case by (auto simp: run_ok intro!: exI [of _ "chunk_table (db w)"])
next
  case (Cons x xs)
  obtain i c where x: "x = (i, c)" by (cases x)
  from Cons.prems(1) obtain w1 where first: "link_chunk r oid (i, c) w = (Inr (), w1)"
    and rest: "for_each (link_chunk r oid) xs w1 = (Inr u, w')"
    by (auto simp: x andthen_ok)
  note d1 = link_chunk_run [OF first]
  have "refs_exact (db w1)"
    unfolding d1(1) by (rule refs_exact_link [OF Cons.prems(2)]) (simp_all add: link_row_def)
  from Cons.IH [OF rest this d1(2)] obtain ct where "refs_exact (db w')" "schema_ok (db w')"
    "db w' = (db w1)\<lparr>object_chunks := object_chunks (db w1) @ map (link_row r oid) xs, chunk_table := ct\<rparr>"
    by blast
  then show ?case unfolding d1(1) by (auto simp: x)
qed

lemma link_row_key: "oc_repo (link_row r oid x) = r" "oc_oid (link_row r oid x) = as_bytes oid"
  by (cases x; simp add: link_row_def)+

lemma links_append:
  "links (d\<lparr>object_chunks := object_chunks d @ map (link_row r oid) xs, chunk_table := ct\<rparr>) r' oid' =
     links d r' oid' @ (if r' = r \<and> oid' = as_bytes oid then map (link_row r oid) xs else [])"
  by (auto simp: links_def filter_empty_conv filter_id_conv link_row_key)

lemma no_links_without_object:
  assumes "schema_ok d" "(r, oid) \<notin> set (map object_key (objects d))"
  shows "links d r oid = []"
proof -
  have "(oc_repo l, oc_oid l) \<in> set (map object_key (objects d))" if "l \<in> set (object_chunks d)" for l
    using assms(1) that by (auto simp: schema_ok_def foreign_keys_ok_def list_all_iff)
  then show ?thesis using assms(2) by (auto simp: links_def filter_empty_conv)
qed

text \<open>Inserting an absent object and linking all its chunks.\<close>

lemma catalog_ok_publish:
  assumes ok: "catalog_ok D d" and new: "(r, as_bytes (object_oid m)) \<notin> set (map object_key (objects d))"
    and m: "well_formed m" "from_value D j = Inr m"
    and d2: "d2 = d\<lparr>objects := objects d @ [\<lparr>obj_repo = r, obj_oid = as_bytes (object_oid m),
        obj_size = int (unat (object_size m)), obj_manifest = j\<rparr>]\<rparr>"
    and d3: "d3 = d2\<lparr>object_chunks := object_chunks d2 @ map (link_row r (object_oid m)) (enumerate 0 (chunks m)),
        chunk_table := ct\<rparr>"
    and s: "schema_ok d3" "refs_exact d3"
  shows "catalog_ok D d3"
proof -
  have none: "links d r (as_bytes (object_oid m)) = []"
    by (rule no_links_without_object [OF catalog_okD(1) [OF ok] new])
  have same: "links d2 = links d" by (simp add: d2 links_def fun_eq_iff)
  have "object_described D d3 o'" if "o' \<in> set (objects d)" for o'
  proof -
    have "object_key o' \<noteq> (r, as_bytes (object_oid m))" using new that by force
    then have "links d3 (obj_repo o') (obj_oid o') = links d (obj_repo o') (obj_oid o')"
      unfolding d3 links_append same by (auto simp: object_key_def)
    then show ?thesis using catalog_okD(3) [OF ok that] object_described_links by blast
  qed
  moreover have "object_described D d3 \<lparr>obj_repo = r, obj_oid = as_bytes (object_oid m),
        obj_size = int (unat (object_size m)), obj_manifest = j\<rparr>"
    unfolding object_described_def d3 links_append same
    by (rule exI [of _ m]) (simp add: m none)
  moreover have "objects d3 = objects d @ [\<lparr>obj_repo = r, obj_oid = as_bytes (object_oid m),
        obj_size = int (unat (object_size m)), obj_manifest = j\<rparr>]" "upload_sessions d3 = upload_sessions d"
    by (simp_all add: d3 d2)
  ultimately show ?thesis using s ok by (auto simp: catalog_ok_def)
qed

lemma insert_object_run:
  assumes "insert_object_if_absent r oid n j now d = Inr (x, d')"
  obtains (present) "x = 0" "d' = d"
  | (absent) "x = 1" "(r, oid) \<notin> set (map object_key (objects d))" "schema_ok d'"
      "d' = d\<lparr>objects := objects d @ [\<lparr>obj_repo = r, obj_oid = oid, obj_size = n, obj_manifest = j\<rparr>]\<rparr>"
  using assms by (auto simp: insert_object_if_absent_def ok_iff Let_def split: if_splits)

lemma publish_body_stable [keeps_intros]: "keeps (stable P) (publish_body D r u m)"
  unfolding publish_body_def link_chunk_def
  by (auto intro!: keeps_intros)

text \<open>A successful publication: the session had been finalized before, or it was live and the chunks, the object, its
  links and the session's state were written in this order.\<close>

lemma publish_body_cases:
  assumes "publish_body D r u m w = (Inr x, w')"
  obtains (finalized) w0 js where "query_tx (select_finalizable_session u r (as_bytes (object_oid m))) w
      = (Inr (Some (js, Finalized)), w0)" "x = False" "w' = w0"
  | (opened) w0 js w1 size' j w2 ins w3 where
      "query_tx (select_finalizable_session u r (as_bytes (object_oid m))) w = (Inr (Some (js, Open)), w0)"
      "for_each (\<lambda>d. query_tx (insert_chunk_if_absent r (as_bytes (cd_id d)) (int (chunk_len d)))) (chunks m) w0
         = (Inr (), w1)"
      "i64_try_from (object_size m) = Some size'" "to_value D m = Inr j"
      "query_tx (insert_object_if_absent r (as_bytes (object_oid m)) size' j) w1 = (Inr ins, w2)"
      "(if ins = 1 then for_each (link_chunk r (object_oid m)) (enumerate 0 (chunks m)) else ret ()) w2 = (Inr (), w3)"
      "query_tx (finalize_session u) w3 = (Inr (), w')" "x = (ins = 1)"
proof -
  let ?ins = "for_each (\<lambda>d. query_tx (insert_chunk_if_absent r (as_bytes (cd_id d)) (int (chunk_len d)))) (chunks m)"
  from assms obtain js ss w0 where sel: "query_tx (select_finalizable_session u r (as_bytes (object_oid m))) w
      = (Inr (Some (js, ss)), w0)"
    and rest: "(if ss = Finalized then ret False else if ss \<noteq> Open then fail (api_error_new 404 ''open upload session not found'')
      else andthen ?ins (\<lambda>_. andthen (of_result (ok_or (integrity ''object too large'') (i64_try_from (object_size m)))) (\<lambda>size'.
       andthen (of_result (map_err integrity (to_value D m))) (\<lambda>json.
       andthen (query_tx (insert_object_if_absent r (as_bytes (object_oid m)) size' json)) (\<lambda>inserted.
       andthen (if inserted = 1 then for_each (link_chunk r (object_oid m)) (enumerate 0 (chunks m)) else ret ()) (\<lambda>_.
       andthen (query_tx (finalize_session u)) (\<lambda>_. ret (inserted = 1)))))))) w0 = (Inr x, w')"
    unfolding publish_body_def by (auto simp: andthen_ok of_result_ok ok_iff simp del: on_err_ok)
  show thesis
  proof (cases "ss = Finalized")
    case True
    then show ?thesis using sel rest finalized by (simp add: ret_ok)
  next
    case False
    with rest have "ss = Open" by (auto simp: run_ok split: if_splits)
    with rest obtain size' j w1 w2 ins w3 where "?ins w0 = (Inr (), w1)"
      "i64_try_from (object_size m) = Some size'" "to_value D m = Inr j"
      "query_tx (insert_object_if_absent r (as_bytes (object_oid m)) size' j) w1 = (Inr ins, w2)"
      "(if ins = 1 then for_each (link_chunk r (object_oid m)) (enumerate 0 (chunks m)) else ret ()) w2 = (Inr (), w3)"
      "query_tx (finalize_session u) w3 = (Inr (), w')" "x = (ins = 1)"
      by (auto simp: andthen_ok of_result_ok ok_iff ret_ok simp del: on_err_ok split_paired_Ex)
    then show ?thesis using sel \<open>ss = Open\<close> opened by blast
  qed
qed

lemma publish_body_keeps:
  assumes json: "json_roundtrip D" and wf: "well_formed m"
  shows "ok_keeps (holds (catalog_ok D)) (publish_body D r u m)"
proof (rule ok_keepsI)
  fix w x w' assume h: "holds (catalog_ok D) w" and run: "publish_body D r u m w = (Inr x, w')"
  have st: "stable (catalog_ok D) w'"
    using keeps_stableD [OF publish_body_stable _ run] h by (simp add: holds_def)
  from run show "holds (catalog_ok D) w'"
  proof (cases rule: publish_body_cases)
    case (finalized w0 js)
    then show ?thesis using query_tx_holds [OF _ h finalized(1)] by simp
  next
    case (opened w0 js w1 size' j w2 ins w3)
    have h0: "holds (catalog_ok D) w0" by (rule query_tx_holds [OF _ h opened(1)]) simp
    have k: "keeps (holds (catalog_ok D)) (for_each (\<lambda>d. query_tx (insert_chunk_if_absent r (as_bytes (cd_id d))
        (int (chunk_len d)))) (chunks m))" by (auto intro!: keeps_intros)
    have h1: "catalog_ok D (db w1)"
      using keeps_holdsD [OF k h0 opened(2)] by (simp add: holds_def)
    have "size' = int (unat (object_size m))" using well_formed_size_i64 [OF wf] opened(3) by simp
    have "catalog_ok D (db w3)"
      using query_txD [OF opened(5), THEN conjunct1]
    proof (cases rule: insert_object_run)
      case present
      then show ?thesis using opened(6) h1 by (simp add: ret_ok)
    next
      case absent
      with opened(6) have l: "for_each (link_chunk r (object_oid m)) (enumerate 0 (chunks m)) w2 = (Inr (), w3)" by simp
      have "refs_exact (db w2)"
        using catalog_okD(2) [OF h1] same_tables(1) [of "db w2" "db w1"] absent(4) by simp
      from link_loop [OF l this absent(3)] obtain ct where "refs_exact (db w3)" "schema_ok (db w3)"
        "db w3 = (db w2)\<lparr>object_chunks := object_chunks (db w2) @ map (link_row r (object_oid m)) (enumerate 0 (chunks m)),
           chunk_table := ct\<rparr>" by blast
      then show ?thesis
        using catalog_ok_publish [OF h1 absent(2) wf _ _ _, of j "db w2" "db w3" ct] absent(4) json opened(4)
          \<open>size' = int (unat (object_size m))\<close>
        by (auto simp: json_roundtrip_def)
    qed
    then have "catalog_ok D (db w')"
      using query_txD [OF opened(7), THEN conjunct1] st_keepsD [OF finalize_session_keeps] by blast
    then show ?thesis using st by (simp add: holds_def)
  qed
qed

section \<open>The handlers\<close>

lemma publish_manifest_keeps [keeps_intros]:
  assumes "json_roundtrip D"
  shows "keeps (holds (catalog_ok D)) (publish_manifest D r u m)" "keeps (stable P) (publish_manifest D r u m)"
  unfolding publish_manifest_def
  by (rule keeps_checked, rule transaction_keeps)
    (auto intro!: keeps_intros publish_body_keeps [OF assms] simp: ok_iff validate_iff_well_formed)

lemma repository_id_local [keeps_intros]:
  "keeps (holds P) (repository_id ow rp)" "keeps (stable P) (repository_id ow rp)"
  "keeps (store_is s) (repository_id ow rp)"
  unfolding repository_id_def by (auto intro!: keeps_intros)

lemma loads_local [keeps_intros]:
  "keeps (holds P) (load_open_upload D r oid u)" "keeps (stable P) (load_open_upload D r oid u)"
  "keeps (store_is s) (load_open_upload D r oid u)"
  "keeps (holds P) (load_finalizable_upload D r oid u)" "keeps (stable P) (load_finalizable_upload D r oid u)"
  "keeps (store_is s) (load_finalizable_upload D r oid u)"
  "keeps (holds P) (load_manifest D r oid)" "keeps (stable P) (load_manifest D r oid)"
  "keeps (store_is s) (load_manifest D r oid)"
  unfolding load_open_upload_def load_finalizable_upload_def load_manifest_def by (auto intro!: keeps_intros)

lemma reads_local [keeps_intros]:
  "keeps (holds P) (read_chunk D cv r c)" "keeps (stable P) (read_chunk D cv r c)"
  "keeps (holds P) (read_all D cv r cs acc)" "keeps (stable P) (read_all D cv r cs acc)"
  "keeps (holds P) (stage_chunks D r cs acc)" "keeps (stable P) (stage_chunks D r cs acc)"
  unfolding read_chunk_def read_all_def stage_chunks_def by (auto intro!: keeps_intros)

lemma upsert_json_keeps:
  "json_roundtrip D \<Longrightarrow> to_value D m = Inr j \<Longrightarrow>
     st_keeps (catalog_ok D) (upsert_open_session i r (as_bytes (object_oid m)) n j)"
  by (rule upsert_open_session_keeps [of D j m]) (auto simp: json_roundtrip_def)

lemma ensure_upload_session_keeps [keeps_intros]:
  assumes "json_roundtrip D"
  shows "keeps (holds (catalog_ok D)) (ensure_upload_session D i r m)"
    "keeps (stable P) (ensure_upload_session D i r m)" "keeps (store_is s) (ensure_upload_session D i r m)"
proof -
  have tail: "keeps (holds (catalog_ok D)) (andthen (of_result (map_err integrity (to_value D m))) (\<lambda>json.
       andthen (query_tx (upsert_open_session i r (as_bytes (object_oid m)) n json))
         (\<lambda>(id', _, stored). andthen (of_result (map_err integrity (from_value D stored))) (\<lambda>stored_manifest.
       andthen (guard_err (stored_manifest \<noteq> m) different_manifest) (\<lambda>_. ret id')))))" for n
    by (rule keeps_of_result_then) (auto intro!: keeps_intros upsert_json_keeps [OF assms] simp: ok_iff)
  show "keeps (holds (catalog_ok D)) (ensure_upload_session D i r m)"
    unfolding ensure_upload_session_def
    by (intro transaction_keeps keeps_ok_keeps keeps_andthen [OF _ keeps_andthen [OF _ tail]])
      (auto intro!: keeps_intros)
  show "keeps (stable P) (ensure_upload_session D i r m)" "keeps (store_is s) (ensure_upload_session D i r m)"
    unfolding ensure_upload_session_def by (auto intro!: keeps_intros)
qed

lemma register_and_store_chunk_keeps [keeps_intros]:
  "keeps (holds (catalog_ok D)) (register_and_store_chunk D r u c b)"
  "keeps (stable P) (register_and_store_chunk D r u c b)"
  unfolding register_and_store_chunk_def
  by (auto intro!: keeps_intros transaction_keeps keeps_ok_keeps)

lemma missing_step_keeps [keeps_intros]:
  "keeps (holds P) (missing_step D r x acc)" "keeps (stable P) (missing_step D r x acc)"
  unfolding missing_step_def by (auto intro!: keeps_intros split: prod.split)

lemma staged_reader_local [keeps_intros]:
  "keeps (holds P) (staged_reader b)" "keeps (stable P) (staged_reader b)" "keeps (store_is s) (staged_reader b)"
  by (simp_all add: keeps_def holds_def stable_def store_is_def staged_reader_def split: list.split)

lemma reopen_staged_local [keeps_intros]:
  "keeps (holds P) (reopen_staged b)" "keeps (stable P) (reopen_staged b)" "keeps (store_is s) (reopen_staged b)"
  unfolding reopen_staged_def by (auto intro!: keeps_intros)

lemma publish_body_store [keeps_intros]: "keeps (store_is s) (publish_body D r u m)"
  unfolding publish_body_def link_chunk_def by (auto intro!: keeps_intros)

lemma publish_manifest_store [keeps_intros]: "keeps (store_is s) (publish_manifest D r u m)"
  unfolding publish_manifest_def by (auto intro!: keeps_intros)

lemma upload_cdc_chunk_keeps [keeps_intros]:
  "keeps (holds (catalog_ok D)) (upload_cdc_chunk D A ow rp ot u i hs b)"
  "keeps (stable P) (upload_cdc_chunk D A ow rp ot u i hs b)"
  unfolding upload_cdc_chunk_def by (auto intro!: keeps_intros)

lemma finalize_cdc_keeps [keeps_intros]:
  assumes "json_roundtrip D"
  shows "keeps (holds (catalog_ok D)) (finalize_cdc D A ow rp ot u hs)"
    "keeps (stable P) (finalize_cdc D A ow rp ot u hs)"
  unfolding finalize_cdc_def by (auto intro!: keeps_intros assms)

lemma upload_basic_keeps [keeps_intros]:
  assumes "json_roundtrip D"
  shows "keeps (holds (catalog_ok D)) (upload_basic D A ow rp ot hs body i)"
    "keeps (stable P) (upload_basic D A ow rp ot hs body i)"
  unfolding upload_basic_def by (intro keeps_intros assms)+

lemma begin_cdc_keeps [keeps_intros]:
  assumes "json_roundtrip D"
  shows "keeps (holds (catalog_ok D)) (begin_cdc D A ow rp ot hs req i)"
    "keeps (stable P) (begin_cdc D A ow rp ot hs req i)"
proof -
  have tx: "keeps (holds (catalog_ok D)) (transaction database_error (
       andthen (query_tx (expire_sessions_of repo (as_bytes oid))) (\<lambda>_.
       andthen (of_result (ok_or (api_error_new 422 ''object is too large'')
                  (i64_try_from (object_size (req_manifest req))))) (\<lambda>size'.
       andthen (query_tx (upsert_open_session i repo (as_bytes oid) size' j)) (\<lambda>(upload_id, expiry, stored).
       andthen (of_result (map_err integrity (from_value D stored))) (\<lambda>stored_manifest.
       andthen (guard_err (stored_manifest \<noteq> req_manifest req) different_manifest) (\<lambda>_.
       ret (upload_id, expiry, stored_manifest))))))))"
    if "to_value D (req_manifest req) = Inr j" "object_oid (req_manifest req) = oid" for repo j oid
    using that upsert_json_keeps [OF assms that(1)]
    by (intro transaction_keeps keeps_ok_keeps) (auto intro!: keeps_intros)
  show "keeps (holds (catalog_ok D)) (begin_cdc D A ow rp ot hs req i)"
    unfolding begin_cdc_def
    by (rule keeps_andthen keeps_checked authenticate_keeps repository_id_local tx
        | auto intro!: keeps_intros simp: ok_iff)+
  show "keeps (stable P) (begin_cdc D A ow rp ot hs req i)"
    unfolding begin_cdc_def by (auto intro!: keeps_intros)
qed

end
