(* ===== verification/Demo.thy ===== *)
theory Demo
  imports Catalog
begin

text \<open>
  A concrete deployment on which the properties are exercised: the third-party functions \<open>demo_deps\<close>, one
  repository, development-token authentication, and databases with an open upload and with a published
  object of one 32-byte chunk that the store holds.
\<close>

section \<open>Requests\<close>

definition demo_app :: app_state where
  "demo_app = app_state_new demo_deps ''u/'' ''secret''"

definition demo_headers :: header_map where
  "demo_headers = [(''authorization'', ascii_bytes ''Bearer secret'')]"

definition demo_oid_text :: string where
  "demo_oid_text = to_string demo_deps (digest_fill 9)"

lemma char_byte_round [simp]: "char_of (unat (of_nat (of_char c) :: byte)) = c"
  by (simp add: unat_of_nat of_char_mod_256)

lemma demo_header_value: "authorization_value demo_deps demo_headers = Some ''Bearer secret''"
  by (simp only: authorization_value_def demo_headers_def map_of.simps fst_conv snd_conv fun_upd_same
      option.case demo_deps_simps ascii_bytes_def map_map comp_def char_byte_round list.map_ident)

definition demo_identity :: identity where
  "demo_identity = \<lparr>authorization = ''Bearer secret'', subject = ''development-user'', administrator = True\<rparr>"

lemma demo_auth [simp]: "authenticate demo_deps demo_app demo_headers ow rp a = ret demo_identity"
  by (rule ext)
    (simp add: authenticate_def demo_header_value demo_app_def app_state_new_def strip_prefix_def bearer_def
      demo_identity_def andthen_def of_result_def)

lemma demo_fields:
  "hex_encode demo_deps = hex_encode mem_deps" "hex_decode_to_slice demo_deps = hex_decode_to_slice mem_deps"
  "uuid_to_string demo_deps = uuid_to_string mem_deps" "os_put_create demo_deps = os_put_create mem_deps"
  "os_put demo_deps = os_put mem_deps" "os_get demo_deps = os_get mem_deps" "os_head demo_deps = os_head mem_deps"
  "os_delete demo_deps = os_delete mem_deps" "stream_cdc demo_deps = stream_cdc mem_deps"
  by (simp_all add: demo_deps_def storage_deps.defs mem_deps_def core_deps.defs ref_core_deps_def
      digest_deps.defs ref_digest_deps_def)

lemma demo_path: "chunk_path demo_deps = chunk_path mem_deps"
  by (simp add: fun_eq_iff chunk_path_def to_string_def Let_def demo_fields)

interpretation demo: object_store demo_deps mem_contents
  using mem.object_store_axioms unfolding object_store_def demo_fields .

lemma demo_json: "json_roundtrip demo_deps"
  by (simp add: json_roundtrip_def)

lemma demo_parse [simp]: "parse_oid demo_deps demo_oid_text = Inr (digest_fill 9)"
  by (simp add: parse_oid_def demo_oid_text_def from_str_to_string [OF demo.hex])

lemma demo_hash [simp]:
  "sha256 ref_digest_deps (replicate 32 x) = digest_fill x" "as_bytes (digest_fill x) = replicate 32 x"
  by (simp_all add: ref_digest_deps_def digest_fill_def as_bytes_from_bytes)

section \<open>Data\<close>

definition demo_manifest :: object_manifest where
  "demo_manifest = \<lparr>version = V1, profile = FastCdcV1, object_oid = digest_fill 9, object_size = 32,
     chunks = [\<lparr>cd_id = digest_fill 9, cd_offset = 0, cd_length = 32\<rparr>]\<rparr>"

lemma demo_validate: "validate demo_manifest = Inr ()"
  by (simp add: validate_def demo_manifest_def MAX_OBJECT_SIZE_def MAX_CHUNK_DESCRIPTORS_def
      checked_add_def u64_of_u32_def)

definition demo_repositories :: "object_manifest database" where
  "demo_repositories = empty_database\<lparr>repositories := [\<lparr>repo_id = 5, repo_owner = ''o'', repo_name = ''r''\<rparr>]\<rparr>"

definition demo_chunk_row :: "int \<Rightarrow> chunk_row" where
  "demo_chunk_row n = \<lparr>ch_repo = 5, ch_id = replicate 32 9, ch_size = 32, reference_count = n\<rparr>"

definition demo_session :: "session_state \<Rightarrow> object_manifest session_row" where
  "demo_session st = \<lparr>ses_id = 11, ses_repo = 5, ses_oid = replicate 32 9, ses_size = 32,
     ses_manifest = demo_manifest, ses_state = st, expires_at = 2000\<rparr>"

definition demo_object :: "object_manifest object_row" where
  "demo_object = \<lparr>obj_repo = 5, obj_oid = replicate 32 9, obj_size = 32, obj_manifest = demo_manifest\<rparr>"

definition demo_published :: "object_manifest database" where
  "demo_published = demo_repositories\<lparr>objects := [demo_object], chunk_table := [demo_chunk_row 1],
     object_chunks := [\<lparr>oc_repo = 5, oc_oid = replicate 32 9, oc_ordinal = 0, oc_chunk = replicate 32 9,
       byte_offset = 0, byte_length = 32\<rparr>],
     upload_sessions := [demo_session Finalized],
     upload_session_chunks := [\<lparr>sc_session = 11, sc_repo = 5, sc_chunk = replicate 32 9\<rparr>]\<rparr>"

definition demo_uploading :: "object_manifest database" where
  "demo_uploading = demo_repositories\<lparr>chunk_table := [demo_chunk_row 0], upload_sessions := [demo_session Open],
     upload_session_chunks := [\<lparr>sc_session = 11, sc_repo = 5, sc_chunk = replicate 32 9\<rparr>]\<rparr>"

lemmas demo_databases = demo_published_def demo_uploading_def demo_repositories_def demo_object_def
  demo_chunk_row_def demo_session_def empty_database_def

lemmas schema_defs = schema_ok_def checks_ok_def uniques_ok_def foreign_keys_ok_def has_repository_def
  object_check_def chunk_check_def object_chunk_check_def session_check_def grant_check_def is_bigint_def is_integer_def
  object_key_def chunk_key_def session_key_def tombstone_key_def queue_key_def is_open_def

lemma demo_catalog:
  "catalog_ok demo_deps demo_repositories" "catalog_ok demo_deps demo_uploading" "catalog_ok demo_deps demo_published"
  using demo_validate
  by (simp_all add: demo_databases catalog_ok_def schema_defs refs_exact_def count_refs_def object_described_def
      session_described_def links_def link_row_def validate_iff_well_formed)
    (simp_all add: demo_manifest_def)

definition demo_world :: "object_manifest database \<Rightarrow> (mem_store, object_manifest) world" where
  "demo_world d = fresh_world d sample_store 1000"

lemma demo_world_simps [simp]:
  "db (demo_world d) = d" "db_script (demo_world d) = []" "store (demo_world d) = sample_store"
  "clock (demo_world d) = 1000" "tx_now (demo_world d) = 1000" "quiet (demo_world d)"
  "semaphores_closed (demo_world d) = False" "io_script (demo_world d) = []"
  by (simp_all add: demo_world_def fresh_world_def)

lemma take_event_none [simp]: "db_script w = [] \<Longrightarrow> take_event w = (default_event, w)"
  by (simp add: take_event_def)

lemma demo_chunk_view: "chunk_view demo_deps mem_contents sample_store 5 (digest_fill 9) = Some (replicate 32 9)"
  by (simp add: chunk_view_def mem_contents_def sample_store_def demo_path)

lemma demo_get_verified:
  "get_verified demo_deps sample_store 5 (digest_fill 9) = (Inr (replicate 32 9), sample_store)"
  by (simp add: get_verified_def demo_path demo_fields mem_get_def mem_op_def mem_contents_def sample_store_def
      verify_digest_def Let_def)

text \<open>Definitions that evaluate an action on a concrete world.\<close>

lemmas run_defs = andthen_def ret_def fail_def of_result_def on_err_def get_world_def set_world_def guard_err_def
  transaction_def db_begin_def exec_tx_def exec_pool_def on_store_def bump_def acquire_permit_def file_io_def
  join_blocking_def instant_now_def later_def Let_def

lemma demo_repository_id:
  "repositories d = [\<lparr>repo_id = 5, repo_owner = ''o'', repo_name = ''r''\<rparr>] \<Longrightarrow>
     repository_id ''o'' ''r'' (demo_world d) = (Inr 5, demo_world d)"
  by (simp add: repository_id_def run_defs select_repository_def demo_world_def fresh_world_def)

lemma demo_databases_repositories [simp]:
  "repositories demo_repositories = [\<lparr>repo_id = 5, repo_owner = ''o'', repo_name = ''r''\<rparr>]"
  "repositories demo_uploading = [\<lparr>repo_id = 5, repo_owner = ''o'', repo_name = ''r''\<rparr>]"
  "repositories demo_published = [\<lparr>repo_id = 5, repo_owner = ''o'', repo_name = ''r''\<rparr>]"
  by (simp_all add: demo_databases)

lemma demo_download:
  "\<exists>w'. download_basic demo_deps demo_app ''o'' ''r'' demo_oid_text demo_headers (demo_world demo_published)
     = (Inr \<lparr>content_length = 32, body_bytes = replicate 32 9\<rparr>, w')"
proof -
  have "select_object_manifest 5 (as_bytes (digest_fill 9)) now demo_published = Inr (Some demo_manifest, demo_published)" for now
    by (simp add: select_object_manifest_def demo_databases object_key_def)
  then have "load_manifest demo_deps 5 (digest_fill 9) (demo_world demo_published) = (Inr demo_manifest, demo_world demo_published)"
    by (simp add: load_manifest_def run_defs demo_world_def fresh_world_def)
  then show ?thesis
    using demo_validate demo_repository_id [of demo_published] demo_get_verified
    by (simp add: download_basic_def run_defs stage_chunks_def read_chunk_def)
      (simp add: demo_manifest_def run_defs)
qed

end
