(* ===== verification/Integrity.thy ===== *)
theory Integrity
  imports Gc Demo
begin

text \<open>
  Database and chunk store together.  \<open>present\<close> relates chunk descriptors to stored bytes;
  an object is \<open>available\<close> when the store holds every chunk of its manifest, intact, of the right
  length, and their concatenation has the object's SHA-256.  The lemmas show that reads only return
  such bytes, that publication follows verification, and that uploads and garbage collection keep every
  published object available (when no other process writes in between).
\<close>

section \<open>Stored content\<close>

definition holds_chunk ::
  "('s, 'j) server_deps \<Rightarrow> ('s \<Rightarrow> string \<Rightarrow> bytes option) \<Rightarrow> 's \<Rightarrow> uuid \<Rightarrow> chunk_descriptor \<Rightarrow> bytes \<Rightarrow> bool" where
  "holds_chunk D contents s r c b \<longleftrightarrow>
     chunk_view D contents s r (cd_id c) = Some b \<and> blake3 D b = cd_id c \<and> length b = chunk_len c"

definition present ::
  "('s, 'j) server_deps \<Rightarrow> ('s \<Rightarrow> string \<Rightarrow> bytes option) \<Rightarrow> 's \<Rightarrow> uuid \<Rightarrow> chunk_descriptor list \<Rightarrow> bytes list \<Rightarrow> bool" where
  "present D contents s r = list_all2 (holds_chunk D contents s r)"

definition available ::
  "('s, 'j) server_deps \<Rightarrow> ('s \<Rightarrow> string \<Rightarrow> bytes option) \<Rightarrow> 's \<Rightarrow> 'j object_row \<Rightarrow> bool" where
  "available D contents s o' \<longleftrightarrow>
     (\<exists>m bs. from_value D (obj_manifest o') = Inr m \<and> present D contents s (obj_repo o') (chunks m) bs
        \<and> as_bytes (sha256 D (concat bs)) = obj_oid o')"

section \<open>Reading\<close>

lemma read_chunk_ok:
  assumes "read_chunk D cv r c w = (Inr b, w')"
  shows "blake3 D b = cd_id c \<and> length b = chunk_len c \<and> db w' = db w \<and> db_script w' = db_script w
    \<and> (\<exists>s'. get_verified D (store w) r (cd_id c) = (Inr b, s') \<and> store w' = s')"
  using assms
  by (auto simp: read_chunk_def run_ok get_verified_def ok_iff split: prod.splits sum.splits)

lemma read_chunk_view:
  assumes "object_store D contents" "read_chunk D cv r c w = (res, w')"
  shows "chunk_view D contents (store w') = chunk_view D contents (store w)"
proof -
  have v: "chunk_view D contents (snd (get_verified D s r x)) = chunk_view D contents s" for s x
    using chunk_store.get_view [OF object_store.chunk_store_laws [OF assms(1)]] .
  show ?thesis
    using assms(2) v [of "store w" "cd_id c"]
    by (auto simp: read_chunk_def andthen_def on_err_def on_store_def guard_err_def fail_def ret_def
        split: prod.splits sum.splits if_splits)
qed

lemma read_chunk_holds:
  assumes "object_store D contents" "read_chunk D cv r c w = (Inr b, w')"
  shows "holds_chunk D contents (store w) r c b"
proof -
  from read_chunk_ok [OF assms(2)] obtain s' where g: "get_verified D (store w) r (cd_id c) = (Inr b, s')"
    and b: "blake3 D b = cd_id c" "length b = chunk_len c" by blast
  show ?thesis
    using chunk_store.get_ok [OF object_store.chunk_store_laws [OF assms(1)] g] b
    by (simp add: holds_chunk_def)
qed

lemma present_cong:
  assumes "chunk_view D contents s' = chunk_view D contents s"
  shows "present D contents s' = present D contents s" "available D contents s' = available D contents s"
  using assms by (simp_all add: present_def available_def holds_chunk_def [abs_def] fun_eq_iff)

lemma read_all_ok:
  assumes os: "object_store D contents" and run: "read_all D cv r cs acc w = (Inr content, w')"
  shows "(\<exists>bs. content = acc @ concat bs \<and> present D contents (store w) r cs bs)
    \<and> chunk_view D contents (store w') = chunk_view D contents (store w)"
  using run
proof (induction cs arbitrary: acc w)
  case Nil
  then show ?case by (auto simp: read_all_def run_ok present_def)
next
  case (Cons c cs)
  from Cons.prems obtain b w1 where b: "read_chunk D cv r c w = (Inr b, w1)"
    and rest: "read_all D cv r cs (acc @ b) w1 = (Inr content, w')"
    by (auto simp: read_all_def andthen_ok ret_ok)
  note v = read_chunk_view [OF os b] and h = read_chunk_holds [OF os b]
  from Cons.IH [OF rest] obtain bs where bs: "content = acc @ b @ concat bs"
    "present D contents (store w1) r cs bs" "chunk_view D contents (store w') = chunk_view D contents (store w1)"
    by auto
  then have "present D contents (store w) r (c # cs) (b # bs)"
    using h present_cong(1) [OF v] by (simp add: present_def)
  then show ?case using bs(1,3) v by (intro conjI exI [of _ "b # bs"]) auto
qed

lemma read_all_view:
  assumes os: "object_store D contents" and run: "read_all D cv r cs acc w = (res, w')"
  shows "chunk_view D contents (store w') = chunk_view D contents (store w)"
  using run
proof (induction cs arbitrary: acc w)
  case Nil
  then show ?case by (simp add: read_all_def ret_def)
next
  case (Cons c cs)
  obtain x w1 where x: "read_chunk D cv r c w = (x, w1)" by (cases "read_chunk D cv r c w")
  note v = read_chunk_view [OF os x]
  show ?case
  proof (cases x)
    case (Inl e)
    then show ?thesis using Cons.prems x v by (simp add: read_all_def andthen_def)
  next
    case (Inr b)
    then have "read_all D cv r cs (acc @ b) w1 = (res, w')"
      using Cons.prems x by (simp add: read_all_def andthen_def ret_def)
    then show ?thesis using Cons.IH v by simp
  qed
qed

text \<open>What was staged for a download, for any provider.\<close>

lemma stage_chunks_ok:
  assumes "stage_chunks D r cs acc w = (Inr content, w')"
  shows "length content = length acc + sum_list (map chunk_len cs)
    \<and> (\<exists>bs. content = acc @ concat bs \<and> list_all2 (\<lambda>c b. blake3 D b = cd_id c \<and> length b = chunk_len c) cs bs)"
  using assms
proof (induction cs arbitrary: acc w)
  case Nil
  then show ?case by (auto simp: stage_chunks_def run_ok)
next
  case (Cons c cs)
  from Cons.prems obtain b w1 w2 where b: "read_chunk D (storage_api_error D) r c w = (Inr b, w1)"
    and rest: "stage_chunks D r cs (acc @ b) w2 = (Inr content, w')"
    by (auto simp: stage_chunks_def andthen_ok ret_ok)
  from Cons.IH [OF rest] obtain bs where bs: "length content = length acc + length b + sum_list (map chunk_len cs)"
    "content = acc @ b @ concat bs" "list_all2 (\<lambda>c b. blake3 D b = cd_id c \<and> length b = chunk_len c) cs bs"
    by auto
  then show ?case
    using read_chunk_ok [OF b] by (intro conjI exI [of _ "b # bs"]) auto
qed

text \<open>Claim C5: whatever the database, the provider and the network do, a whole-object download that
  succeeds returns a body whose SHA-256 is the requested object identity and whose length is the
  \<open>Content-Length\<close> it announces.\<close>

theorem download_basic_returns_object:
  assumes "download_basic D A owner repository oid_text headers w = (Inr resp, w')"
  shows "\<exists>oid. parse_oid D oid_text = Inr oid \<and> sha256 D (body_bytes resp) = oid
    \<and> length (body_bytes resp) = unat (content_length resp)"
proof -
  from assms obtain oid r m content w1 w2 where p: "parse_oid D oid_text = Inr oid"
    and v: "validate m = Inr ()" and st: "stage_chunks D r (chunks m) [] w1 = (Inr content, w2)"
    and h: "as_bytes (sha256 D content) = as_bytes oid"
    and resp: "resp = \<lparr>content_length = object_size m, body_bytes = content\<rparr>"
    by (auto simp: download_basic_def run_ok ok_iff)
  have "length content = sum_list (map chunk_len (chunks m))"
    using stage_chunks_ok [OF st] by simp
  then have "length content = unat (object_size m)"
    using v by (simp add: validate_iff_well_formed well_formed_def)
  then show ?thesis using p h resp by (auto simp: as_bytes_inject)
qed

theorem download_basic_returns_object_witness: "sha256 demo_deps (replicate 32 9) = digest_fill 9"
proof -
  obtain w' where "download_basic demo_deps demo_app ''o'' ''r'' demo_oid_text demo_headers (demo_world demo_published)
     = (Inr \<lparr>content_length = 32, body_bytes = replicate 32 9\<rparr>, w')" using demo_download by blast
  from download_basic_returns_object [OF this] show ?thesis by simp
qed

section \<open>Keeping published objects available\<close>

definition grows ::
  "('s, 'j) server_deps \<Rightarrow> ('s \<Rightarrow> string \<Rightarrow> bytes option) \<Rightarrow> 's \<Rightarrow> ('s, 'j) world \<Rightarrow> bool" where
  "grows D contents s w \<longleftrightarrow>
     (\<forall>r c b. chunk_view D contents s r c = Some b \<longrightarrow> chunk_view D contents (store w) r c = Some b)"

definition objects_in :: "'j object_row set \<Rightarrow> 'j database \<Rightarrow> bool" where
  "objects_in S d \<longleftrightarrow> set (objects d) \<subseteq> S"

text \<open>The system invariant: no concurrent writers, a consistent catalogue, and every object available.\<close>

definition system_ok ::
  "('s, 'j) server_deps \<Rightarrow> ('s \<Rightarrow> string \<Rightarrow> bytes option) \<Rightarrow> ('s, 'j) world \<Rightarrow> bool" where
  "system_ok D contents w \<longleftrightarrow> quiet w \<and> catalog_ok D (db w)
     \<and> (\<forall>o' \<in> set (objects (db w)). available D contents (store w) o')"

lemma present_mono:
  "grows D contents s w \<Longrightarrow> present D contents s r cs bs \<Longrightarrow> present D contents (store w) r cs bs"
  unfolding present_def by (erule list_all2_mono) (simp add: grows_def holds_chunk_def)

lemma available_mono: "grows D contents s w \<Longrightarrow> available D contents s o' \<Longrightarrow> available D contents (store w) o'"
  unfolding available_def using present_mono by metis

lemma objects_in_statements [simp, intro!]:
  "st_keeps (objects_in S) (expire_sessions_of r oid)" "st_keeps (objects_in S) (upsert_open_session i r oid n j)"
  "st_keeps (objects_in S) (upsert_chunk r c n)" "st_keeps (objects_in S) (insert_session_chunk u r c)"
  "st_keeps (objects_in S) (insert_chunk_if_absent r c n)" "st_keeps (objects_in S) (finalize_session u)"
  "st_keeps (objects_in S) (insert_object_chunk r oid od c p l)" "st_keeps (objects_in S) (add_references k r c)"
  by (rule st_keepsI; auto simp: objects_in_def expire_sessions_of_def upsert_open_session_def upsert_chunk_def
      insert_session_chunk_def insert_chunk_if_absent_def finalize_session_def insert_object_chunk_def
      add_references_def ok_iff Let_def split: if_splits option.splits)+

lemma objects_in_insert:
  assumes "\<lparr>obj_repo = r, obj_oid = oid, obj_size = n, obj_manifest = j\<rparr> \<in> S"
  shows "st_keeps (objects_in S) (insert_object_if_absent r oid n j)"
  using assms
  by (intro st_keepsI) (auto simp: objects_in_def elim!: insert_object_run)

text \<open>Actions that add chunks and no objects.\<close>

lemma grows_refl [simp]: "grows D contents (store w) w"
  by (simp add: grows_def)

lemma store_is_grows: "(\<And>s. keeps (store_is s) m) \<Longrightarrow> keeps (grows D contents s) m"
  by (rule keepsI) (metis grows_def keeps_storeD)

lemma on_store_grows:
  assumes "\<And>s r s' . op s = (r, s') \<Longrightarrow>
      \<forall>r c b. chunk_view D contents s r c = Some b \<longrightarrow> chunk_view D contents s' r c = Some b"
  shows "keeps (grows D contents s) (on_store op)"
  by (rule keepsI) (use assms in \<open>auto simp: grows_def on_store_def split: prod.splits\<close>)

lemma put_grows:
  assumes "object_store D contents"
  shows "keeps (grows D contents s) (on_store (\<lambda>s. put_verified D s r c b))"
  by (rule on_store_grows)
    (use chunk_store.put_keeps [OF object_store.chunk_store_laws [OF assms]] in blast)

lemma exists_grows:
  assumes "object_store D contents"
  shows "keeps (grows D contents s) (on_store (\<lambda>s. chunk_exists D s r c))"
proof (rule on_store_grows)
  fix s0 x s' assume "chunk_exists D s0 r c = (x, s')"
  then show "\<forall>r c b. chunk_view D contents s0 r c = Some b \<longrightarrow> chunk_view D contents s' r c = Some b"
    using chunk_store.exists_view [OF object_store.chunk_store_laws [OF assms], of s0 r c] by simp
qed

lemma keeps_system_ok:
  assumes c: "keeps (holds (catalog_ok D)) m" and q: "\<And>P. keeps (stable P) m"
    and o: "\<And>S. keeps (holds (objects_in S)) m" and g: "\<And>s. keeps (grows D contents s) m"
  shows "keeps (system_ok D contents) m"
proof (rule keepsI)
  fix w r w' assume h: "system_ok D contents w" and run: "m w = (r, w')"
  have hold: "holds P w'" if "keeps (holds P) m" "P (db w)" for P
    by (rule keeps_holdsD [OF that(1) _ run]) (use h that(2) in \<open>simp add: system_ok_def holds_def quiet_stable\<close>)
  have sub: "set (objects (db w')) \<subseteq> set (objects (db w))"
    using hold [OF o [of "set (objects (db w))"]] by (simp add: holds_def objects_in_def)
  have gr: "grows D contents (store w) w'" by (rule keepsD [OF g grows_refl run])
  have "available D contents (store w') o'" if "o' \<in> set (objects (db w'))" for o'
    using available_mono [OF gr] subsetD [OF sub that] h by (simp add: system_ok_def)
  moreover have "catalog_ok D (db w')" using hold [OF c] h by (simp add: holds_def system_ok_def)
  moreover have "quiet w'" using keepsD [OF keeps_quiet [OF q] _ run] h by (simp add: system_ok_def)
  ultimately show "system_ok D contents w'" by (simp add: system_ok_def)
qed

subsection \<open>Uploads\<close>

lemma grows_intros [keeps_intros]:
  "keeps (grows D contents s) (authenticate D' A hs ow rp a)" "keeps (grows D contents s) (repository_id ow rp)"
  "keeps (grows D contents s) (load_open_upload D' r oid u)" "keeps (grows D contents s) acquire_permit"
  "keeps (grows D contents s) (exec_tx st)" "keeps (grows D contents s) (exec_pool st)"
  "keeps (grows D contents s) (bump f)" "keeps (grows D contents s) file_io"
  "keeps (grows D contents s) join_blocking" "keeps (grows D contents s) (reopen_staged bb)"
  "keeps (grows D contents s) (load_finalizable_upload D' r oid u)"
  by (rule store_is_grows, rule keeps_intros)+

lemma grows_transaction [keeps_intros]:
  "(\<And>s. keeps (store_is s) body) \<Longrightarrow> keeps (grows D contents s) (transaction cv body)"
  by (rule store_is_grows) (rule transaction_store)

lemma register_and_store_chunk_grows [keeps_intros]:
  assumes "object_store D contents"
  shows "keeps (grows D contents s) (register_and_store_chunk D r u c b)"
  unfolding register_and_store_chunk_def by (auto intro!: keeps_intros put_grows [OF assms])

lemma register_and_store_chunk_objects [keeps_intros]:
  "keeps (holds (objects_in S)) (register_and_store_chunk D r u c b)"
  unfolding register_and_store_chunk_def by (auto intro!: keeps_intros transaction_keeps keeps_ok_keeps)

lemma upload_cdc_chunk_system:
  assumes "object_store D contents"
  shows "keeps (system_ok D contents) (upload_cdc_chunk D A ow rp ot u i hs b)"
proof (rule keeps_system_ok)
  show "keeps (holds (objects_in S)) (upload_cdc_chunk D A ow rp ot u i hs b)" for S
    unfolding upload_cdc_chunk_def by (auto intro!: keeps_intros)
  show "keeps (grows D contents s) (upload_cdc_chunk D A ow rp ot u i hs b)" for s
    unfolding upload_cdc_chunk_def by (auto intro!: keeps_intros assms)
qed (auto intro!: keeps_intros)

lemma missing_step_grows [keeps_intros]:
  assumes "object_store D contents"
  shows "keeps (grows D contents s) (missing_step D r x acc)"
  unfolding missing_step_def by (auto intro!: keeps_intros exists_grows [OF assms] split: prod.split)

lemma begin_cdc_system:
  assumes "object_store D contents" "json_roundtrip D"
  shows "keeps (system_ok D contents) (begin_cdc D A ow rp ot hs req i)"
proof (rule keeps_system_ok)
  show "keeps (holds (objects_in S)) (begin_cdc D A ow rp ot hs req i)" for S
    unfolding begin_cdc_def by (auto intro!: keeps_intros transaction_keeps keeps_ok_keeps)
  show "keeps (grows D contents s) (begin_cdc D A ow rp ot hs req i)" for s
    unfolding begin_cdc_def by (auto intro!: keeps_intros assms)
qed (auto intro!: keeps_intros assms)

text \<open>Publishing a manifest whose content is in the store.\<close>

lemma publish_objects_in:
  assumes json: "json_roundtrip D"
    and new: "\<And>n j. from_value D j = Inr m \<Longrightarrow>
      \<lparr>obj_repo = r, obj_oid = as_bytes (object_oid m), obj_size = n, obj_manifest = j\<rparr> \<in> S"
  shows "keeps (holds (objects_in S)) (publish_manifest D r u m)"
proof -
  have ins: "st_keeps (objects_in S) (insert_object_if_absent r (as_bytes (object_oid m)) n j)"
    if "map_err integrity (to_value D m) = Inr j" for n j
    using that json new by (auto simp: ok_iff json_roundtrip_def intro!: objects_in_insert)
  have link: "keeps (holds (objects_in S)) (link_chunk r (object_oid m) x)" for x
    unfolding link_chunk_def by (auto intro!: keeps_intros)
  have "keeps (holds (objects_in S)) (publish_body D r u m)"
    unfolding publish_body_def
    by (rule keeps_of_result_then keeps_andthen keeps_on_err exec_tx_keeps keeps_for_each keeps_if keeps_ret
        keeps_fail keeps_case_prod link ins objects_in_statements st_keeps_select | assumption)+
  then show ?thesis
    unfolding publish_manifest_def
    by (intro keeps_andthen keeps_of_result transaction_keeps keeps_ok_keeps publish_body_stable)
qed

definition content_ready ::
  "('s, 'j) server_deps \<Rightarrow> ('s \<Rightarrow> string \<Rightarrow> bytes option) \<Rightarrow> uuid \<Rightarrow> object_manifest \<Rightarrow> ('s, 'j) world \<Rightarrow> bool" where
  "content_ready D contents r m w \<longleftrightarrow>
     (\<exists>bs. present D contents (store w) r (chunks m) bs \<and> sha256 D (concat bs) = object_oid m)"

lemma publish_system:
  assumes json: "json_roundtrip D"
  shows "triple (\<lambda>w. system_ok D contents w \<and> content_ready D contents r m w) (publish_manifest D r u m)
    (\<lambda>_. system_ok D contents) (system_ok D contents)"
proof -
  have "system_ok D contents w'" if sys: "system_ok D contents w" and ready: "content_ready D contents r m w"
    and run: "publish_manifest D r u m w = (res, w')" for w w' res
  proof -
    define S where "S = set (objects (db w)) \<union> {o'. obj_repo o' = r
        \<and> obj_oid o' = as_bytes (object_oid m) \<and> from_value D (obj_manifest o') = Inr m}"
    have hold: "holds P w'" if "keeps (holds P) (publish_manifest D r u m)" "P (db w)" for P
      by (rule keeps_holdsD [OF that(1) _ run]) (use sys that(2) in \<open>simp add: system_ok_def holds_def quiet_stable\<close>)
    have "keeps (holds (objects_in S)) (publish_manifest D r u m)"
      by (rule publish_objects_in [OF json]) (simp add: S_def)
    then have sub: "set (objects (db w')) \<subseteq> S"
      using hold [of "objects_in S"] by (simp add: holds_def objects_in_def S_def)
    have st: "store w' = store w" by (rule keeps_storeD [OF publish_manifest_store run])
    have "available D contents (store w') o'" if "o' \<in> set (objects (db w'))" for o'
    proof (cases "o' \<in> set (objects (db w))")
      case True
      then show ?thesis using sys by (simp add: st system_ok_def)
    next
      case False
      then have "obj_repo o' = r" "obj_oid o' = as_bytes (object_oid m)" "from_value D (obj_manifest o') = Inr m"
        using subsetD [OF sub that] by (auto simp: S_def)
      then show ?thesis using ready unfolding st content_ready_def available_def by metis
    qed
    moreover have "catalog_ok D (db w')"
      using hold [OF publish_manifest_keeps(1) [OF json]] sys by (simp add: holds_def system_ok_def)
    moreover have "quiet w'"
      using keepsD [OF keeps_quiet [OF publish_manifest_keeps(2) [OF json]] _ run] sys by (simp add: system_ok_def)
    ultimately show ?thesis by (simp add: system_ok_def)
  qed
  then show ?thesis by (auto intro!: tripleI)
qed

lemma quiet_select_session:
  assumes "quiet w" "query_pool (select_finalizable_session u r oid) w = (Inr (Some (j, st)), w')"
  shows "\<exists>s \<in> set (upload_sessions (db w)). ses_id s = u \<and> ses_repo s = r \<and> ses_oid s = oid
    \<and> ses_manifest s = j \<and> ses_state s = st"
proof -
  from assms(2) have "exec_pool (select_finalizable_session u r oid) w = (Inr (Some (j, st)), w')"
    by (simp add: run_ok)
  from exec_pool_quiet_ok [OF assms(1) this] show ?thesis
    by (auto simp: select_finalizable_session_def session_matches_def dest!: find_SomeD)
qed

lemma load_finalizable_ok:
  assumes q: "quiet w" and c: "catalog_ok D (db w)"
    and run: "load_finalizable_upload D r oid u w = (Inr (m, fin), w')"
  shows "object_oid m = oid \<and> (\<exists>s \<in> set (upload_sessions (db w)). ses_id s = u \<and> ses_repo s = r
    \<and> ses_oid s = as_bytes oid \<and> from_value D (ses_manifest s) = Inr m \<and> (fin \<longleftrightarrow> ses_state s = Finalized))"
proof -
  from run obtain j st w1 where sel: "query_pool (select_finalizable_session u r (as_bytes oid)) w = (Inr (Some (j, st)), w1)"
    and m: "from_value D j = Inr m" "fin \<longleftrightarrow> st = Finalized"
    by (auto simp: load_finalizable_upload_def andthen_ok of_result_ok ret_ok ok_iff)
  from quiet_select_session [OF q sel] obtain s where s: "s \<in> set (upload_sessions (db w))" "ses_id s = u"
    "ses_repo s = r" "ses_oid s = as_bytes oid" "ses_manifest s = j" "ses_state s = st" by blast
  have "session_described D s" using catalog_okD(4) [OF c s(1)] .
  then have "object_oid m = oid" using s m(1) by (auto simp: session_described_def as_bytes_inject)
  then show ?thesis using s m by auto
qed

lemma system_ok_local:
  assumes "\<And>P. keeps (holds P) m" "\<And>P. keeps (stable P) m" "\<And>s. keeps (grows D contents s) m"
  shows "keeps (system_ok D contents) m"
  by (rule keeps_system_ok) (auto intro!: assms)

lemma system_ok_triple:
  assumes "\<And>P. keeps (holds P) m" "\<And>P. keeps (stable P) m" "\<And>s. keeps (grows D contents s) m"
  shows "triple (system_ok D contents) m (\<lambda>_. system_ok D contents) (system_ok D contents)"
  by (rule triple_keeps, rule system_ok_local) (auto intro!: assms)

lemma load_finalizable_triple:
  "triple (system_ok D contents) (load_finalizable_upload D r oid u)
     (\<lambda>x w. system_ok D contents w \<and> object_oid (fst x) = oid) (system_ok D contents)"
proof (rule tripleI)
  let ?I = "system_ok D contents"
  have k: "keeps ?I (load_finalizable_upload D r oid u)"
    by (rule system_ok_local) (auto intro!: keeps_intros)
  show "?I w'" if "?I w" "load_finalizable_upload D r oid u w = (Inl e, w')" for w e w'
    using keepsD [OF k that] .
  show "?I w' \<and> object_oid (fst x) = oid"
    if "?I w" "load_finalizable_upload D r oid u w = (Inr x, w')" for w x w'
    using keepsD [OF k that] that load_finalizable_ok [of w D r oid u] by (cases x) (auto simp: system_ok_def)
qed

lemma read_all_triple:
  assumes os: "object_store D contents"
  shows "triple (system_ok D contents) (read_all D cv r cs [])
    (\<lambda>content w. system_ok D contents w \<and> (\<exists>bs. present D contents (store w) r cs bs \<and> content = concat bs))
    (system_ok D contents)"
proof (rule tripleI)
  let ?I = "system_ok D contents"
  have keep: "?I w'" if "?I w" "read_all D cv r cs [] w = (x, w')" for w x w'
  proof -
    have "db w' = db w" by (rule keeps_dbD [OF reads_local(3) _ that(2)]) (use that in \<open>simp add: system_ok_def\<close>)
    moreover have "quiet w'"
      using keepsD [OF keeps_quiet [OF reads_local(4)] _ that(2)] that(1) by (simp add: system_ok_def)
    ultimately show ?thesis
      using that(1) present_cong(2) [OF read_all_view [OF os that(2)]] by (simp add: system_ok_def)
  qed
  show "?I w'" if "?I w" "read_all D cv r cs [] w = (Inl e, w')" for w e w'
    using keep that by blast
  show "?I w' \<and> (\<exists>bs. present D contents (store w') r cs bs \<and> x = concat bs)"
    if "?I w" "read_all D cv r cs [] w = (Inr x, w')" for w x w'
    using keep [OF that] read_all_ok [OF os that(2)] present_cong(1) by fastforce
qed

lemma bump_published_system:
  "triple (system_ok D contents) (andthen (if p then bump f else ret ()) (\<lambda>_. ret (204::nat)))
     (\<lambda>_. system_ok D contents) (system_ok D contents)"
  by (rule system_ok_triple) (auto intro!: keeps_intros)

lemma verify_and_publish_system:
  assumes os: "object_store D contents" and json: "json_roundtrip D" and oid: "object_oid m = oid"
  shows "triple (system_ok D contents)
    (andthen (read_all D (missing_chunks D) r (chunks m) []) (\<lambda>content.
     andthen (guard_err (sha256 D content \<noteq> oid) e) (\<lambda>_.
     andthen (publish_manifest D r u m) (\<lambda>published.
     andthen (if published then bump f else ret ()) (\<lambda>_. ret (204::nat))))))
    (\<lambda>_. system_ok D contents) (system_ok D contents)"
proof (rule triple_andthen [OF read_all_triple [OF os]])
  fix content
  let ?P = "\<lambda>w. system_ok D contents w \<and> (\<exists>bs. present D contents (store w) r (chunks m) bs \<and> content = concat bs)"
  have "triple ?P (guard_err (sha256 D content \<noteq> oid) e)
      (\<lambda>_ w. system_ok D contents w \<and> content_ready D contents r m w) (system_ok D contents)"
    by (rule triple_guard) (use oid in \<open>auto simp: content_ready_def\<close>)
  then show "triple ?P (andthen (guard_err (sha256 D content \<noteq> oid) e) (\<lambda>_.
     andthen (publish_manifest D r u m) (\<lambda>published.
     andthen (if published then bump f else ret ()) (\<lambda>_. ret (204::nat)))))
     (\<lambda>_. system_ok D contents) (system_ok D contents)"
    by (rule triple_andthen) (intro triple_andthen [OF publish_system [OF json]] bump_published_system)
qed

lemma finalize_cdc_system:
  assumes "object_store D contents" "json_roundtrip D"
  shows "keeps (system_ok D contents) (finalize_cdc D A ow rp ot u hs)"
proof (rule keeps_triple)
  let ?I = "system_ok D contents"
  have tail: "triple (\<lambda>w. ?I w \<and> object_oid (fst x) = oid) (case x of (m, already_finalized) \<Rightarrow>
     if already_finalized then ret (204 :: nat)
     else
       andthen (read_all D (missing_chunks D) r (chunks m) []) (\<lambda>content.
       andthen (guard_err (sha256 D content \<noteq> oid) (api_error_new 422 ''object SHA-256 mismatch'')) (\<lambda>_.
       andthen (publish_manifest D r u m) (\<lambda>published.
       andthen (if published then bump (\<lambda>mt. mt\<lparr>logical_uploaded := logical_uploaded mt + object_size m\<rparr>)
                else ret ()) (\<lambda>_. ret 204))))) (\<lambda>_. ?I) ?I" for x r oid
    by (cases x) (auto intro!: triple_pure verify_and_publish_system assms triple_ret)
  show "triple ?I (finalize_cdc D A ow rp ot u hs) (\<lambda>_. ?I) ?I"
    unfolding finalize_cdc_def
    by (rule triple_andthen [OF system_ok_triple triple_andthen [OF system_ok_triple triple_andthen [OF system_ok_triple
          triple_andthen [OF system_ok_triple triple_andthen [OF load_finalizable_triple tail]]]]])
      (auto intro!: keeps_intros)
qed

subsection \<open>Garbage collection\<close>

text \<open>Every chunk with at least one link in \<open>d\<close> that \<open>s\<close> holds is still there.\<close>

definition keeps_linked ::
  "('s, 'j) server_deps \<Rightarrow> ('s \<Rightarrow> string \<Rightarrow> bytes option) \<Rightarrow> 'j database \<Rightarrow> 's \<Rightarrow> 's \<Rightarrow> bool" where
  "keeps_linked D contents d s s' \<longleftrightarrow> (\<forall>r c b. count_refs d r (as_bytes c) \<noteq> 0
     \<longrightarrow> chunk_view D contents s r c = Some b \<longrightarrow> chunk_view D contents s' r c = Some b)"

lemma described_chunk_linked:
  assumes "object_described D d o'" "from_value D (obj_manifest o') = Inr m" "c \<in> set (chunks m)"
  shows "count_refs d (obj_repo o') (as_bytes (cd_id c)) \<noteq> 0"
proof -
  from assms(1,2) have l: "links d (obj_repo o') (obj_oid o') =
      map (link_row (obj_repo o') (object_oid m)) (enumerate 0 (chunks m))"
    by (auto simp: object_described_def)
  from assms(3) obtain i where "i < length (chunks m)" "chunks m ! i = c" by (auto simp: in_set_conv_nth)
  then have "(i, c) \<in> set (enumerate 0 (chunks m))" by (auto simp: in_set_enumerate_eq)
  then have "link_row (obj_repo o') (object_oid m) (i, c) \<in> set (links d (obj_repo o') (obj_oid o'))"
    unfolding l by (metis imageI set_map)
  then have "link_row (obj_repo o') (object_oid m) (i, c) \<in> set (object_chunks d)"
    by (simp add: links_def)
  then show ?thesis
    by (auto simp: count_refs_def filter_empty_conv link_row_def intro!: bexI)
qed

lemma available_keeps_linked:
  assumes "object_described D d o'" "keeps_linked D contents d s s'" "available D contents s o'"
  shows "available D contents s' o'"
proof -
  from assms(3) obtain m bs where m: "from_value D (obj_manifest o') = Inr m"
    and p: "present D contents s (obj_repo o') (chunks m) bs" and h: "as_bytes (sha256 D (concat bs)) = obj_oid o'"
    by (auto simp: available_def)
  have "present D contents s' (obj_repo o') (chunks m) bs"
    using p described_chunk_linked [OF assms(1) m] assms(2)
    by (auto simp: present_def keeps_linked_def holds_chunk_def list_all2_conv_all_nth)
  then show ?thesis using m h by (auto simp: available_def)
qed

lemma keeps_linked_refl [simp]: "keeps_linked D contents d s s"
  by (simp add: keeps_linked_def)

lemma transaction_store_inv:
  assumes body: "triple (\<lambda>w. db w = d \<and> G (store w)) body (\<lambda>_ w. G (store w)) (\<lambda>w. G (store w))"
    and w: "quiet w" "db w = d" "G (store w)" and run: "transaction cv body w = (res, w')"
  shows "G (store w')"
proof -
  obtain b w1 where b: "db_begin w = (b, w1)" by (cases "db_begin w")
  obtain x w2 where x: "body w1 = (x, w2)" by (cases "body w1")
  obtain ev w3 where t: "take_event w2 = (ev, w3)" by (cases "take_event w2")
  obtain ev0 w0 where t0: "take_event w = (ev0, w0)" by (cases "take_event w")
  have "interference ev0 = (\<lambda>d. d)" using take_event_frame(7) [OF t0] w(1) by (auto simp: quiet_def)
  then have w1: "db w1 = d" "store w1 = store w"
    using b t0 w(2) take_event_frame(1,2) [OF t0] by (auto simp: db_begin_def Let_def)
  then have "G (store w2)" using body x w(3) by (fastforce simp: triple_def split: sum.splits)
  then show ?thesis
    using run b x t w(3) w1 take_event_frame(2) [OF t]
    by (auto simp: transaction_def split: sum.splits db_outcome.splits)
qed

text \<open>A chunk row without a positive count has no links.\<close>

lemma unreferenced_no_links:
  assumes "catalog_ok D d" "find (\<lambda>k. chunk_key k = (r, c)) (chunk_table d) = Some k" "\<not> reference_count k > 0"
  shows "count_refs d r c = 0"
proof -
  from find_SomeD [OF assms(2)] have k: "k \<in> set (chunk_table d)" "ch_repo k = r" "ch_id k = c"
    by (auto simp: chunk_key_def)
  then have "chunk_check k" using catalog_okD(1) [OF assms(1)]
    by (auto simp: schema_ok_def checks_ok_def list_all_iff)
  then have "reference_count k = 0" using assms(3) by (auto simp: chunk_check_def)
  then show ?thesis using catalog_okD(2) [OF assms(1)] k by (auto simp: refs_exact_def)
qed

lemma delete_keeps_linked:
  assumes os: "object_store D contents" and "count_refs d r (as_bytes c) = 0"
    and "keeps_linked D contents d s0 s" "delete_chunk D s r c = (x, s')"
  shows "keeps_linked D contents d s0 s'"
proof -
  have "chunk_view D contents s' r' c' = chunk_view D contents s r' c'" if "(r', c') \<noteq> (r, c)" for r' c'
    using chunk_store.delete_keeps_other [OF object_store.chunk_store_laws [OF os] assms(4) that] .
  then show ?thesis using assms(2,3) unfolding keeps_linked_def by (metis prod.inject)
qed

lemma gc_tx_store: "triple (\<lambda>w. G (store w)) (gc_tx st) (\<lambda>_ w. G (store w)) (\<lambda>w. G (store w))"
proof -
  have "G (store w')" if "G (store w)" "(gc_tx st) w = (x, w')" for w x w'
    using keeps_storeD [OF keeps_on_err [OF exec_tx_store] that(2)] that(1) by simp
  then show ?thesis by (intro tripleI) blast+
qed

lemma gc_tx_read:
  assumes "\<And>now. st now d = Inr (v, d)"
  shows "triple (\<lambda>w. db w = d \<and> G (store w)) (gc_tx st) (\<lambda>x w. (db w = d \<and> G (store w)) \<and> x = v) (\<lambda>w. G (store w))"
proof (rule tripleI)
  show "G (store w')" if "db w = d \<and> G (store w)" "gc_tx st w = (Inl e, w')" for w e w'
    using that gc_tx_store [of G st] by (fastforce simp: triple_def)
  show "(db w' = d \<and> G (store w')) \<and> x = v" if "db w = d \<and> G (store w)" "gc_tx st w = (Inr x, w')" for w x w'
    using gc_txD [OF that(2)] that(1) assms by auto
qed

text \<open>What draining one entry may do to the store: a property \<open>G\<close> of the provider state survives as soon as it survives
  deleting the queued chunk when that chunk has no links and no open session registers it.\<close>

lemma drain_body_store:
  assumes c: "catalog_ok D d"
    and del: "\<And>i s x s'. as_bytes i = raw \<Longrightarrow> count_refs d r raw = 0 \<Longrightarrow> \<not> chunk_active d r raw \<Longrightarrow> G s \<Longrightarrow>
      delete_chunk D s r i = (x, s') \<Longrightarrow> G s'"
  shows "triple (\<lambda>w. db w = d \<and> G (store w)) (drain_body D r raw) (\<lambda>_ w. G (store w)) (\<lambda>w. G (store w))"
proof -
  let ?P = "\<lambda>w. db w = d \<and> G (store w)" and ?G = "\<lambda>w. G (store w)"
  have wr: "triple ?P (gc_tx st) (\<lambda>_. ?G) ?G" for st :: "('b, unit) statement"
    by (rule triple_strengthen [OF gc_tx_store [where G = G]]) simp
  have rest: "triple ?G (andthen (gc_tx (delete_chunk_row r raw)) (\<lambda>_. gc_tx (delete_queue_entry r raw))) (\<lambda>_. ?G) ?G"
    using gc_tx_store [where G = G] by (intro triple_andthen)
  have remove: "triple ?P (andthen (of_result (ok_or CorruptChunkId (digest_try_from raw))) (\<lambda>chunk_id.
      andthen (on_err GcStorage (on_store (\<lambda>s. delete_chunk D s r chunk_id))) (\<lambda>_.
      andthen (gc_tx (delete_chunk_row r raw)) (\<lambda>_. gc_tx (delete_queue_entry r raw))))) (\<lambda>_. ?G) ?G"
    if z: "count_refs d r raw = 0" "\<not> chunk_active d r raw"
  proof (rule triple_of_result_then)
    fix i assume "ok_or CorruptChunkId (digest_try_from raw) = Inr i"
    then have i: "as_bytes i = raw" by (auto simp: ok_iff digest_try_from_def as_bytes_from_bytes split: if_splits)
    have "?G w'" if "on_err GcStorage (on_store (\<lambda>s. delete_chunk D s r i)) w = (x, w')" "?P w" for w x w'
    proof -
      obtain y s' where "delete_chunk D (store w) r i = (y, s')" by (cases "delete_chunk D (store w) r i")
      then show ?thesis using del [OF i z] that by (auto simp: on_err_def on_store_def)
    qed
    then have "triple ?P (on_err GcStorage (on_store (\<lambda>s. delete_chunk D s r i))) (\<lambda>_. ?G) ?G"
      by (intro tripleI) blast+
    then show "triple ?P (andthen (on_err GcStorage (on_store (\<lambda>s. delete_chunk D s r i)))
       (\<lambda>_. andthen (gc_tx (delete_chunk_row r raw)) (\<lambda>_. gc_tx (delete_queue_entry r raw)))) (\<lambda>_. ?G) ?G"
      by (rule triple_andthen [OF _ rest])
  qed simp
  have active: "triple ?P (andthen (gc_tx (select_active r raw)) (\<lambda>active. if active then ret () else
      andthen (of_result (ok_or CorruptChunkId (digest_try_from raw))) (\<lambda>chunk_id.
      andthen (on_err GcStorage (on_store (\<lambda>s. delete_chunk D s r chunk_id))) (\<lambda>_.
      andthen (gc_tx (delete_chunk_row r raw)) (\<lambda>_. gc_tx (delete_queue_entry r raw)))))) (\<lambda>_. ?G) ?G"
    if z: "count_refs d r raw = 0"
  proof (rule triple_andthen [OF gc_tx_read [where v = "chunk_active d r raw" and G = G]], goal_cases)
    case (2 active)
    show ?case by (rule triple_pure) (auto intro!: triple_ret remove [OF z])
  qed (simp add: select_active_def)
  show ?thesis
    unfolding drain_body_def
  proof (rule triple_andthen [OF gc_tx_read [where v = "map_option reference_count
        (find (\<lambda>k. chunk_key k = (r, raw)) (chunk_table d))" and G = G]], goal_cases)
    case (2 row)
    show ?case
    proof (rule triple_pure)
      assume row: "row = map_option reference_count (find (\<lambda>k. chunk_key k = (r, raw)) (chunk_table d))"
      show "triple ?P (case row of None \<Rightarrow> gc_tx (delete_queue_entry r raw) | Some references \<Rightarrow>
          if references > 0 then gc_tx (delete_queue_entry r raw)
          else andthen (gc_tx (select_active r raw)) (\<lambda>active. if active then ret () else
             andthen (of_result (ok_or CorruptChunkId (digest_try_from raw))) (\<lambda>chunk_id.
             andthen (on_err GcStorage (on_store (\<lambda>s. delete_chunk D s r chunk_id))) (\<lambda>_.
             andthen (gc_tx (delete_chunk_row r raw)) (\<lambda>_. gc_tx (delete_queue_entry r raw)))))) (\<lambda>_. ?G) ?G"
      proof (cases row)
        case (Some n)
        then have "count_refs d r raw = 0" if "\<not> n > 0"
          using that row unreferenced_no_links [OF c] by auto
        then show ?thesis using Some by (auto intro!: wr active)
      qed (simp add: wr)
    qed
  qed (simp add: select_references_def)
qed

lemma drain_body_linked:
  assumes os: "object_store D contents" and c: "catalog_ok D d"
  shows "triple (\<lambda>w. db w = d \<and> keeps_linked D contents d s0 (store w)) (drain_body D r raw)
    (\<lambda>_ w. keeps_linked D contents d s0 (store w)) (\<lambda>w. keeps_linked D contents d s0 (store w))"
  by (rule drain_body_store [OF c]) (use delete_keeps_linked [OF os] in blast)

lemma drain_one_system:
  assumes os: "object_store D contents"
  shows "keeps (system_ok D contents) (drain_one D r raw)"
proof (rule keepsI)
  fix w res w' assume sys: "system_ok D contents w" and run: "drain_one D r raw w = (res, w')"
  have c: "catalog_ok D (db w)" and q: "quiet w" using sys by (auto simp: system_ok_def)
  have linked: "keeps_linked D contents (db w) (store w) (store w')"
    by (rule transaction_store_inv [OF drain_body_linked [OF os c] q refl keeps_linked_refl run [unfolded drain_one_def]])
  have "keeps (holds (objects_in (set (objects (db w))))) (drain_one D r raw)"
    unfolding drain_one_def drain_body_def
    by (auto intro!: keeps_intros transaction_keeps keeps_ok_keeps st_keepsI
        simp: objects_in_def delete_queue_entry_def delete_chunk_row_def ok_iff)
  from keeps_holdsD [OF this _ run] have sub: "set (objects (db w')) \<subseteq> set (objects (db w))"
    using q by (simp add: holds_def objects_in_def quiet_stable)
  have "available D contents (store w') o'" if "o' \<in> set (objects (db w'))" for o'
    using available_keeps_linked [OF catalog_okD(3) [OF c subsetD [OF sub that]] linked]
      subsetD [OF sub that] sys by (simp add: system_ok_def)
  moreover have "catalog_ok D (db w')"
    using keeps_holdsD [OF drain_one_keeps(1) _ run] c q by (simp add: holds_def quiet_stable)
  moreover have "quiet w'"
    using keepsD [OF keeps_quiet [OF drain_one_keeps(2)] q run] .
  ultimately show "system_ok D contents w'" by (simp add: system_ok_def)
qed

lemma gc_writes_objects_in [simp, intro!]:
  "st_keeps (objects_in S) (insert_epoch e r f)" "st_keeps (objects_in S) (insert_reachable e oid)"
  "st_keeps (objects_in S) (complete_epoch e)" "st_keeps (objects_in S) (insert_tombstone r oid n)"
  "st_keeps (objects_in S) (enqueue_if_unreferenced r c)" "st_keeps (objects_in S) (enqueue_abandoned r n)"
  "st_keeps (objects_in S) (delete_queue_entry r c)" "st_keeps (objects_in S) (delete_stale_sessions r n)"
  "st_keeps (objects_in S) (expire_sessions r)" "st_keeps (objects_in S) (delete_object r oid)"
  by (rule st_keepsI; auto simp: gc_writes expire_sessions_def delete_object_def objects_in_def ok_iff Let_def
      split: if_splits)+

lemma collect_one_system: "keeps (system_ok D contents) (collect_one r)"
proof (rule keeps_system_ok)
  show "keeps (holds (objects_in S)) (collect_one r)" for S
    unfolding collect_one_def collect_body_def release_chunk_def
    by (auto intro!: keeps_intros transaction_keeps keeps_ok_keeps)
  show "keeps (grows D contents s) (collect_one r)" for s
    unfolding collect_one_def collect_body_def release_chunk_def by (auto intro!: keeps_intros)
qed (rule collect_one_keeps)+

lemma collect_loop_system [keeps_intros]: "keeps (system_ok D contents) (collect_loop n r k)"
  by (induction n arbitrary: k) (auto intro!: keeps_intros collect_one_system)

lemma drain_chunk_queue_system [keeps_intros]:
  assumes "object_store D contents"
  shows "keeps (system_ok D contents) (drain_chunk_queue D r)"
proof -
  have "keeps (system_ok D contents) (on_err GcDatabase (exec_pool (select_queue r)))"
    by (rule system_ok_local) (auto intro!: keeps_intros)
  then show ?thesis
    unfolding drain_chunk_queue_def by (intro keeps_andthen keeps_for_each drain_one_system [OF assms])
qed

lemma collect_due_system:
  assumes "object_store D contents"
  shows "keeps (system_ok D contents) (collect_due D n r)"
  unfolding collect_due_def by (auto intro!: keeps_intros assms split: option.split)

lemma reclaim_system:
  assumes "object_store D contents"
  shows "keeps (system_ok D contents) (reclaim_expired_uploads D r g)"
proof -
  have "keeps (system_ok D contents) (transaction GcDatabase (
       andthen (gc_tx (expire_sessions r)) (\<lambda>_. andthen (gc_tx (enqueue_abandoned r n)) (\<lambda>_.
       gc_tx (delete_stale_sessions r n)))))" for n
    by (rule keeps_system_ok) (auto intro!: keeps_intros transaction_keeps keeps_ok_keeps)
  then show ?thesis
    unfolding reclaim_expired_uploads_def
    by (intro keeps_andthen keeps_of_result keeps_ret drain_chunk_queue_system assms)
qed

lemma gc_admin_system:
  "keeps (system_ok D contents) (submit_snapshot sn e)" "keeps (system_ok D contents) (stage r g)"
  "keeps (system_ok D contents) (dry_run r)"
  unfolding submit_snapshot_def stage_def dry_run_def
  by (rule keeps_system_ok; auto intro!: keeps_intros transaction_keeps keeps_ok_keeps)+

subsection \<open>Whole-object uploads\<close>

text \<open>Every stored chunk hashes to its identity and comes from a set \<open>U\<close> of byte strings on which BLAKE3
  does not collide.\<close>

definition store_clean ::
  "('s, 'j) server_deps \<Rightarrow> ('s \<Rightarrow> string \<Rightarrow> bytes option) \<Rightarrow> bytes set \<Rightarrow> ('s, 'j) world \<Rightarrow> bool" where
  "store_clean D contents U w \<longleftrightarrow>
     (\<forall>r c b. chunk_view D contents (store w) r c = Some b \<longrightarrow> blake3 D b = c \<and> b \<in> U)"

lemma put_clean:
  assumes os: "object_store D contents" and "b \<in> U"
  shows "keeps (store_clean D contents U) (on_store (\<lambda>s. put_verified D s r c b))"
proof (rule keepsI)
  fix w x w' assume cl: "store_clean D contents U w" and run: "on_store (\<lambda>s. put_verified D s r c b) w = (x, w')"
  obtain y s' where p: "put_verified D (store w) r c b = (y, s')" by (cases "put_verified D (store w) r c b")
  note laws = object_store.chunk_store_laws [OF os]
  have "chunk_view D contents s' = chunk_view D contents (store w)
      \<or> (blake3 D b = c \<and> chunk_view D contents s' = view_upd (chunk_view D contents (store w)) r c (Some b))"
    using chunk_store.put_ok [OF laws, of "store w" r c b s'] chunk_store.put_err [OF laws, of "store w" r c b _ s'] p
    by (cases y) auto
  then show "store_clean D contents U w'"
    using cl run p assms(2) by (auto simp: store_clean_def on_store_def view_upd_def split: if_splits)
qed

lemma store_is_clean: "(\<And>s. keeps (store_is s) m) \<Longrightarrow> keeps (store_clean D contents U) m"
  by (rule keepsI) (metis store_clean_def keeps_storeD)

lemma register_clean:
  assumes "object_store D contents" "b \<in> U"
  shows "keeps (store_clean D contents U) (register_and_store_chunk D r u c b)"
  unfolding register_and_store_chunk_def
  by (rule keeps_andthen, rule store_is_clean)
    (auto intro!: keeps_intros put_clean assms)

lemma register_stores:
  assumes os: "object_store D contents" and inj: "inj_on (blake3 D) U" and cl: "store_clean D contents U w"
    and b: "b \<in> U" and run: "register_and_store_chunk D r u c b w = (Inr (), w')"
  shows "chunk_view D contents (store w') r (cd_id c) = Some b \<and> blake3 D b = cd_id c"
proof -
  from run obtain w1 s' where t: "transaction database_error (
       andthen (query_tx (upsert_chunk r (as_bytes (cd_id c)) (int (chunk_len c)))) (\<lambda>registered.
       andthen (guard_err (registered = None)
                  (integrity ''chunk metadata disagrees with the manifest length'')) (\<lambda>_.
       query_tx (insert_session_chunk u r (as_bytes (cd_id c)))))) w = (Inr (), w1)"
    and p: "put_verified D (store w1) r (cd_id c) b = (Inr (), s')" and w': "store w' = s'"
    unfolding register_and_store_chunk_def by (auto simp: andthen_ok [of "transaction _ _"] on_err_ok on_store_ok)
  have "store w1 = store w" by (rule keeps_storeD [OF transaction_store t]) (auto intro!: keeps_intros)
  then have cl1: "chunk_view D contents (store w1) r (cd_id c) = Some x \<Longrightarrow> blake3 D x = cd_id c \<and> x \<in> U" for x
    using cl by (simp add: store_clean_def)
  note law = chunk_store.put_ok [OF object_store.chunk_store_laws [OF os] p]
  then have h: "blake3 D b = cd_id c" by blast
  show ?thesis
  proof (cases "chunk_view D contents (store w1) r (cd_id c)")
    case None
    then show ?thesis using law h w' by auto
  next
    case (Some x)
    then have "x = b" using cl1 h inj_onD [OF inj, of x b] b by simp
    then show ?thesis using law Some h w' by simp
  qed
qed

lemma produce_stream:
  "stream_chunks D s = (case produce D s of (cs, Inl e) \<Rightarrow> Inl e | (cs, Inr t) \<Rightarrow> Inr (cs, t))"
proof (induction "length (inner s)" arbitrary: s rule: less_induct)
  case less
  show ?case
  proof (cases "next_chunk D s")
    case (Pair x s')
    then show ?thesis
      using less [of s'] next_chunk_decreases [of D s _ s']
      by (subst stream_chunks.simps, subst produce.simps)
        (auto split: option.splits sum.splits prod.splits simp: res_bind_def)
  qed
qed

text \<open>A source that cannot be read to its end never yields a manifest.\<close>

definition cdc_reports_errors :: "('s, 'j) server_deps \<Rightarrow> bool" where
  "cdc_reports_errors D \<longleftrightarrow>
     (\<forall>content e m. finish D (new_stream D (Reader content (Some e)) beta_v1) \<noteq> Inr m)"

definition upload_ok ::
  "('s, 'j) server_deps \<Rightarrow> ('s \<Rightarrow> string \<Rightarrow> bytes option) \<Rightarrow> bytes set \<Rightarrow> ('s, 'j) world \<Rightarrow> bool" where
  "upload_ok D contents U w \<longleftrightarrow> system_ok D contents w \<and> store_clean D contents U w"

definition pieces_stored ::
  "('s, 'j) server_deps \<Rightarrow> ('s \<Rightarrow> string \<Rightarrow> bytes option) \<Rightarrow> uuid \<Rightarrow> chunk list \<Rightarrow> ('s, 'j) world \<Rightarrow> bool" where
  "pieces_stored D contents r ps w \<longleftrightarrow>
     (\<forall>c \<in> set ps. chunk_view D contents (store w) r (cd_id (descriptor c)) = Some (chunk_data c)
        \<and> blake3 D (chunk_data c) = cd_id (descriptor c))"

lemma keeps_upload_ok:
  assumes "keeps (holds (catalog_ok D)) m" "\<And>P. keeps (stable P) m" "\<And>S. keeps (holds (objects_in S)) m"
    "\<And>s. keeps (grows D contents s) m" "keeps (store_clean D contents U) m"
  shows "keeps (upload_ok D contents U) m"
  using keeps_system_ok [OF assms(1-4)] assms(5) by (auto simp: keeps_def upload_ok_def)

lemma upload_ok_triple:
  assumes "\<And>P. keeps (holds P) m" "\<And>P. keeps (stable P) m" "\<And>s. keeps (store_is s) m"
  shows "triple (upload_ok D contents U) m (\<lambda>_. upload_ok D contents U) (upload_ok D contents U)"
  by (rule triple_keeps, rule keeps_upload_ok) (auto intro!: assms store_is_grows store_is_clean)

lemma register_triple:
  assumes os: "object_store D contents" and inj: "inj_on (blake3 D) U" and b: "chunk_data c \<in> U"
  shows "triple (\<lambda>w. upload_ok D contents U w \<and> pieces_stored D contents r ps w)
    (register_and_store_chunk D r u (descriptor c) (chunk_data c))
    (\<lambda>_ w. upload_ok D contents U w \<and> pieces_stored D contents r (ps @ [c]) w) (upload_ok D contents U)"
proof -
  let ?m = "register_and_store_chunk D r u (descriptor c) (chunk_data c)"
  have k: "keeps (upload_ok D contents U) ?m"
    by (rule keeps_upload_ok) (auto intro!: keeps_intros register_clean os b)
  show ?thesis
  proof (rule tripleI)
    show "upload_ok D contents U w'" if "upload_ok D contents U w \<and> pieces_stored D contents r ps w"
      "?m w = (Inl e, w')" for w e w'
      using keepsD [OF k _ that(2)] that(1) by blast
    show "upload_ok D contents U w' \<and> pieces_stored D contents r (ps @ [c]) w'"
      if "upload_ok D contents U w \<and> pieces_stored D contents r ps w" "?m w = (Inr x, w')" for w x w'
    proof -
      have run: "?m w = (Inr (), w')" using that(2) by simp
      have "grows D contents (store w) w'"
        by (rule keepsD [OF register_and_store_chunk_grows [OF os] grows_refl that(2)])
      then show ?thesis
        using keepsD [OF k _ that(2)] register_stores [OF os inj _ b run] that(1)
        by (auto simp: pieces_stored_def grows_def upload_ok_def)
    qed
  qed
qed

lemma register_loop:
  assumes os: "object_store D contents" and inj: "inj_on (blake3 D) U" and "\<forall>c \<in> set cs. chunk_data c \<in> U"
  shows "triple (\<lambda>w. upload_ok D contents U w \<and> pieces_stored D contents r ps w)
    (for_each (\<lambda>c. register_and_store_chunk D r u (descriptor c) (chunk_data c)) cs)
    (\<lambda>_ w. upload_ok D contents U w \<and> pieces_stored D contents r (ps @ cs) w) (upload_ok D contents U)"
  using assms(3)
proof (induction cs arbitrary: ps)
  case Nil
  then show ?case by (auto intro!: triple_ret)
next
  case (Cons c cs)
  then show ?case
    using triple_andthen [OF register_triple [OF os inj, of c r ps u] Cons.IH [of "ps @ [c]"]] by simp
qed

lemma pieces_content_ready:
  assumes "pieces_stored D contents r cs w" "map descriptor cs = chunks m" "object_oid m = sha256 D (concat (map chunk_data cs))"
    and "\<forall>c \<in> set cs. chunk_len (descriptor c) = length (chunk_data c)"
  shows "content_ready D contents r m w"
proof -
  have "present D contents (store w) r (map descriptor cs) (map chunk_data cs)"
    using assms(1,4) by (auto simp: present_def list_all2_conv_all_nth holds_chunk_def pieces_stored_def)
  then show ?thesis using assms(2,3) unfolding content_ready_def by (intro exI [of _ "map chunk_data cs"]) simp
qed

lemma publish_upload_ok:
  assumes json: "json_roundtrip D"
  shows "triple (\<lambda>w. upload_ok D contents U w \<and> content_ready D contents r m w) (publish_manifest D r u m)
    (\<lambda>_. upload_ok D contents U) (upload_ok D contents U)"
proof -
  have "upload_ok D contents U w'" if "upload_ok D contents U w" "content_ready D contents r m w"
    "publish_manifest D r u m w = (res, w')" for w res w'
  proof -
    have "store w' = store w" by (rule keeps_storeD [OF publish_manifest_store that(3)])
    moreover have "system_ok D contents w'"
      using publish_system [OF json, of contents r m u] that
      by (cases res) (auto simp: triple_def upload_ok_def)
    ultimately show ?thesis using that(1) by (simp add: upload_ok_def store_clean_def)
  qed
  then show ?thesis by (intro tripleI) blast+
qed

lemma join_pieces:
  "triple (\<lambda>w. upload_ok D contents U w \<and> pieces_stored D contents r ps w) join_blocking
     (\<lambda>_ w. upload_ok D contents U w \<and> pieces_stored D contents r ps w) (upload_ok D contents U)"
proof -
  have "upload_ok D contents U w'" if "upload_ok D contents U w" "join_blocking w = (x, w')" for w x w'
    using upload_ok_triple [of join_blocking D contents U] that
    by (cases x) (fastforce simp: triple_def intro!: keeps_intros)+
  moreover have "pieces_stored D contents r ps w'" if "pieces_stored D contents r ps w" "join_blocking w = (x, w')" for w x w'
    using file_io_frame(5) [of w] that by (simp add: pieces_stored_def)
  ultimately show ?thesis by (intro tripleI) blast+
qed

lemma basic_tail:
  assumes os: "object_store D contents" and json: "json_roundtrip D" and inj: "inj_on (blake3 D) U"
    and cdc: "cdc_ok D content" "length content \<le> 100 * 1024 ^ 3" "cdc_reports_errors D"
    and U: "\<forall>c \<in> set (fst (produce D (new_stream D (Reader content e) beta_v1))). chunk_data c \<in> U"
    and m: "finish D (new_stream D (Reader content None) beta_v1) = Inr m"
  shows "triple (upload_ok D contents U) (case produce D (new_stream D (Reader content e) beta_v1) of (pieces, stopped) \<Rightarrow>
     andthen (for_each (\<lambda>c. register_and_store_chunk D r u (descriptor c) (chunk_data c)) pieces) (\<lambda>_.
     andthen join_blocking (\<lambda>_.
     andthen (of_result (map_err unprocessable (res_bind stopped (finish D)))) (\<lambda>_.
     andthen (publish_manifest D r u m) (\<lambda>published.
     andthen (if published then bump (\<lambda>mt. mt\<lparr>logical_uploaded := logical_uploaded mt + object_size m\<rparr>)
              else ret ()) (\<lambda>_.
     andthen (bump (\<lambda>mt. mt\<lparr>chunks_received := chunks_received mt + object_size m\<rparr>)) (\<lambda>_.
     ret (204 :: nat))))))))
     (\<lambda>_. upload_ok D contents U) (upload_ok D contents U)"
proof -
  obtain pieces stopped where p: "produce D (new_stream D (Reader content e) beta_v1) = (pieces, stopped)"
    by (cases "produce D (new_stream D (Reader content e) beta_v1)")
  have ready: "content_ready D contents r m w"
    if "pieces_stored D contents r pieces w" "map_err unprocessable (res_bind stopped (finish D)) = Inr x" for w x
  proof -
    from that(2) obtain t where t: "stopped = Inr t" by (auto simp: ok_iff)
    then have run: "stream_chunks D (new_stream D (Reader content e) beta_v1) = Inr (pieces, t)"
      using produce_stream [of D "new_stream D (Reader content e) beta_v1"] p by simp
    then have "finish D (new_stream D (Reader content e) beta_v1) = Inr (completed_manifest D t)"
      by (simp add: finish_def)
    then have "e = None" using cdc(3) unfolding cdc_reports_errors_def by (cases e) auto
    then show ?thesis
      using source_manifest [OF cdc(1,2)] run m pieces_content_ready [OF that(1)] by auto
  qed
  have after: "triple (upload_ok D contents U) (andthen (if pub then bump f else ret ()) (\<lambda>_. andthen (bump g) (\<lambda>_. ret (204 :: nat))))
      (\<lambda>_. upload_ok D contents U) (upload_ok D contents U)" for pub f g
    by (rule upload_ok_triple) (auto intro!: keeps_intros)
  have start: "triple (upload_ok D contents U) (for_each (\<lambda>c. register_and_store_chunk D r u (descriptor c) (chunk_data c)) pieces)
      (\<lambda>_ w. upload_ok D contents U w \<and> pieces_stored D contents r pieces w) (upload_ok D contents U)"
    using register_loop [OF os inj, of pieces r "[]" u] U p by (simp add: pieces_stored_def)
  show ?thesis
    unfolding p prod.case
    by (rule triple_andthen [OF start triple_andthen [OF join_pieces triple_of_result_then]], simp)
      (rule triple_strengthen [OF triple_andthen [OF publish_upload_ok [OF json] after]], use ready in blast)
qed

lemma copy_limited_all:
  assumes "copy_limited (Reader content err) (unat MAX_OBJECT_SIZE + 1) = Inr staged"
    "\<not> length staged > unat MAX_OBJECT_SIZE"
  shows "staged = content" "length content \<le> 100 * 1024 ^ 3"
proof -
  show "staged = content" using assms by (auto split: if_splits option.splits)
  then show "length content \<le> 100 * 1024 ^ 3" using assms(2) by simp
qed

lemma reopen_staged_triple:
  "triple (upload_ok D contents U) (reopen_staged b) (\<lambda>source w. upload_ok D contents U w \<and> (\<exists>e. source = Reader b e))
     (upload_ok D contents U)"
proof -
  have k: "triple (upload_ok D contents U) (reopen_staged b) (\<lambda>_. upload_ok D contents U) (upload_ok D contents U)"
    by (rule upload_ok_triple) (auto intro!: keeps_intros)
  have "\<exists>e. source = Reader b e" if "reopen_staged b w = (Inr source, w')" for w source w'
  proof -
    from that obtain w1 where "staged_reader b w1 = (Inr source, w')"
      by (auto simp: reopen_staged_def andthen_ok)
    then show ?thesis by (cases "io_script w1") (auto simp: staged_reader_def)
  qed
  then show ?thesis using k by (fastforce simp: triple_def split: sum.splits)
qed

lemma ensure_upload_session_upload_ok:
  assumes "json_roundtrip D"
  shows "keeps (upload_ok D contents U) (ensure_upload_session D i r m)"
proof (rule keeps_upload_ok)
  show "keeps (holds (objects_in S)) (ensure_upload_session D i r m)" for S
    unfolding ensure_upload_session_def by (auto intro!: keeps_intros transaction_keeps keeps_ok_keeps)
qed (auto intro!: ensure_upload_session_keeps store_is_grows store_is_clean assms)

text \<open>The middle of \<open>upload_basic\<close>, once the body is staged and within the limit.\<close>

lemma basic_staged:
  assumes os: "object_store D contents" and json: "json_roundtrip D" and inj: "inj_on (blake3 D) U"
    and cdc: "cdc_ok D content" "length content \<le> 100 * 1024 ^ 3" "cdc_reports_errors D"
    and U: "\<And>e. \<forall>c \<in> set (fst (produce D (new_stream D (Reader content e) beta_v1))). chunk_data c \<in> U"
  shows "triple (upload_ok D contents U) (andthen (reopen_staged content) (\<lambda>source.
     andthen join_blocking (\<lambda>_.
     andthen (of_result (map_err unprocessable (finish D (new_stream D source beta_v1)))) (\<lambda>m.
     andthen (guard_err (object_oid m \<noteq> oid) err) (\<lambda>_.
     andthen (ensure_upload_session D i r m) (\<lambda>upload.
     andthen (reopen_staged content) (\<lambda>source2.
     case produce D (new_stream D source2 beta_v1) of (pieces, stopped) \<Rightarrow>
     andthen (for_each (\<lambda>c. register_and_store_chunk D r upload (descriptor c) (chunk_data c)) pieces) (\<lambda>_.
     andthen join_blocking (\<lambda>_.
     andthen (of_result (map_err unprocessable (res_bind stopped (finish D)))) (\<lambda>_.
     andthen (publish_manifest D r upload m) (\<lambda>published.
     andthen (if published then bump (\<lambda>mt. mt\<lparr>logical_uploaded := logical_uploaded mt + object_size m\<rparr>)
              else ret ()) (\<lambda>_.
     andthen (bump (\<lambda>mt. mt\<lparr>chunks_received := chunks_received mt + object_size m\<rparr>)) (\<lambda>_.
     ret (204 :: nat))))))))))))))
     (\<lambda>_. upload_ok D contents U) (upload_ok D contents U)"
proof (rule triple_andthen [OF reopen_staged_triple], rule triple_pure,
    rule triple_andthen [OF upload_ok_triple triple_of_result_then])
  fix source m
  assume "\<exists>e. source = Reader content e"
    and ok: "map_err unprocessable (finish D (new_stream D source beta_v1)) = Inr m"
  then have "finish D (new_stream D (Reader content None) beta_v1) = Inr m"
    using cdc(3) unfolding cdc_reports_errors_def by (metis map_err_ok_iff option.exhaust)
  note tail = basic_tail [OF os json inj cdc U this]
  show "triple (upload_ok D contents U) (andthen (guard_err (object_oid m \<noteq> oid) err) (\<lambda>_.
     andthen (ensure_upload_session D i r m) (\<lambda>upload.
     andthen (reopen_staged content) (\<lambda>source2.
     case produce D (new_stream D source2 beta_v1) of (pieces, stopped) \<Rightarrow>
     andthen (for_each (\<lambda>c. register_and_store_chunk D r upload (descriptor c) (chunk_data c)) pieces) (\<lambda>_.
     andthen join_blocking (\<lambda>_.
     andthen (of_result (map_err unprocessable (res_bind stopped (finish D)))) (\<lambda>_.
     andthen (publish_manifest D r upload m) (\<lambda>published.
     andthen (if published then bump (\<lambda>mt. mt\<lparr>logical_uploaded := logical_uploaded mt + object_size m\<rparr>)
              else ret ()) (\<lambda>_.
     andthen (bump (\<lambda>mt. mt\<lparr>chunks_received := chunks_received mt + object_size m\<rparr>)) (\<lambda>_.
     ret (204 :: nat)))))))))))
     (\<lambda>_. upload_ok D contents U) (upload_ok D contents U)"
    by (rule triple_andthen [OF upload_ok_triple triple_andthen [OF triple_keeps [OF ensure_upload_session_upload_ok [OF json]]
          triple_andthen [OF reopen_staged_triple triple_pure]]])
      (auto intro!: keeps_intros tail)
qed (auto intro!: keeps_intros)

lemma upload_chain:
  assumes "\<And>P. keeps (holds P) m" "\<And>P. keeps (stable P) m" "\<And>s. keeps (store_is s) m"
    "\<And>x. triple (upload_ok D contents U) (f x) (\<lambda>_. upload_ok D contents U) (upload_ok D contents U)"
  shows "triple (upload_ok D contents U) (andthen m f) (\<lambda>_. upload_ok D contents U) (upload_ok D contents U)"
  by (rule triple_andthen [OF upload_ok_triple assms(4)]) (rule assms)+

lemma upload_basic_upload_ok:
  assumes os: "object_store D contents" and json: "json_roundtrip D" and inj: "inj_on (blake3 D) U"
    and cdc: "cdc_ok D content" "cdc_reports_errors D"
    and U: "\<And>e. \<forall>c \<in> set (fst (produce D (new_stream D (Reader content e) beta_v1))). chunk_data c \<in> U"
  shows "keeps (upload_ok D contents U) (upload_basic D A ow rp ot hs (Reader content err) i)"
  unfolding upload_basic_def
proof (rule keeps_triple, rule upload_chain [OF authenticate_keeps], rule upload_chain [OF keeps_of_result keeps_of_result keeps_of_result],
    rule upload_chain [OF repository_id_local], rule upload_chain [OF keeps_guard_err keeps_guard_err keeps_guard_err],
    rule upload_chain [OF acquire_permit_keeps other_effects_store(5)], rule upload_chain [OF file_io_keeps(1,2) other_effects_store(3)],
    rule upload_chain [OF file_io_keeps(1,2) other_effects_store(3)], rule upload_chain [OF file_io_keeps(1,2) other_effects_store(3)],
    rule triple_of_result_then, assumption, rule upload_chain [OF file_io_keeps(1,2) other_effects_store(3)],
    rule triple_guard_then, assumption, rule upload_chain [OF file_io_keeps(1,2) other_effects_store(3)], goal_cases)
  case (1 ident oid repo x1 x2 x3 x4 x5 staged x6 x7)
  then have "staged = content" "length content \<le> 100 * 1024 ^ 3"
    using copy_limited_all [of content err staged] by (auto simp: ok_iff)
  then show ?case using basic_staged [OF os json inj cdc(1) _ cdc(2) U] by simp
qed

end
