(* ===== verification/Publication.thy ===== *)
theory Publication
  imports Integrity
begin

text \<open>
  Functional behaviour of the upload path on top of the invariants: the plan \<open>begin_cdc\<close> returns, the
  all-or-nothing publication transaction, that a validated manifest is never rejected by the integer
  conversions of publication, and that \<open>finalize_cdc\<close> publishes only verified content.
\<close>

section \<open>The upload plan\<close>

lemma chunk_exists_view:
  assumes "object_store D contents" "on_store (\<lambda>s. chunk_exists D s r c) w = (Inr x, w')"
  shows "(x \<longleftrightarrow> chunk_view D contents (store w) r c \<noteq> None)
    \<and> chunk_view D contents (store w') = chunk_view D contents (store w) \<and> db w' = db w \<and> db_script w' = db_script w
    \<and> tx_now w' = tx_now w"
proof -
  note laws = object_store.chunk_store_laws [OF assms(1)]
  from assms(2) obtain s' where s: "chunk_exists D (store w) r c = (Inr x, s')" and w': "w' = w\<lparr>store := s'\<rparr>"
    by (auto simp: on_store_ok)
  show ?thesis
    using chunk_store.exists_ok [OF laws s] chunk_store.exists_view [OF laws, of "store w" r c] s w' by simp
qed

lemma missing_loop:
  assumes os: "object_store D contents"
    and run: "for_fold (missing_step D r) (enumerate k cs) acc w = (Inr res, w')"
  shows "map unat res = map unat acc @
      filter (\<lambda>i. chunk_view D contents (store w) r (cd_id (cs ! (i - k))) = None) [k..<k + length cs]
    \<and> chunk_view D contents (store w') = chunk_view D contents (store w) \<and> db w' = db w \<and> tx_now w' = tx_now w"
  using run
proof (induction cs arbitrary: k acc w)
  case Nil
  then show ?case by (simp add: run_ok)
next
  case (Cons c cs)
  from Cons.prems obtain x w1 acc' where ex: "on_store (\<lambda>s. chunk_exists D s r (cd_id c)) w = (Inr x, w1)"
    and acc': "if x then acc' = acc else (\<exists>i. u32_try_from k = Some i \<and> acc' = acc @ [i])"
    and rest: "for_fold (missing_step D r) (enumerate (Suc k) cs) acc' w1 = (Inr res, w')"
    by (auto simp: missing_step_def andthen_ok on_err_ok of_result_ok ret_ok ok_iff split: if_splits)
  note v = chunk_exists_view [OF os ex]
  have "[k..<k + length (c # cs)] = k # [Suc k..<Suc k + length cs]"
    using upt_conv_Cons [of k "k + length (c # cs)"] by (simp del: upt_Suc)
  moreover have "filter (\<lambda>i. chunk_view D contents (store w) r (cd_id ((c # cs) ! (i - k))) = None) [Suc k..<Suc k + length cs]
      = filter (\<lambda>i. chunk_view D contents (store w1) r (cd_id (cs ! (i - Suc k))) = None) [Suc k..<Suc k + length cs]"
    using v by (intro filter_cong) (auto simp: nth_Cons' Suc_diff_Suc)
  ultimately show ?case
    using Cons.IH [OF rest] v acc' u32_try_from_SomeD [of k] by (auto simp del: upt_Suc split: if_splits)
qed

text \<open>Repository lookup in a quiet world.\<close>

lemma repository_id_row:
  assumes "quiet w" "repository_id owner name w = (Inr r, w')"
  shows "\<exists>row \<in> set (repositories (db w)). repo_id row = r \<and> repo_owner row = owner \<and> repo_name row = name"
proof -
  from assms(2) obtain w1 where "exec_pool (select_repository owner name) w = (Inr (Some r), w1)"
    by (auto simp: repository_id_def run_ok ok_iff)
  from exec_pool_quiet_ok [OF assms(1) this] show ?thesis
    by (auto simp: select_repository_def dest!: find_SomeD)
qed

lemma authenticate_quiet:
  assumes "quiet w" "authenticate D A hs ow rp a w = (x, w')"
  shows "quiet w'" "db w' = db w" "store w' = store w"
proof -
  show "quiet w'" using keepsD [OF keeps_quiet [OF authenticate_keeps(2)] assms] .
  show "db w' = db w" using keeps_dbD [OF authenticate_keeps(1) assms] .
  show "store w' = store w" using keeps_storeD [OF authenticate_keeps(3) assms(2)] .
qed

lemma repository_id_quiet:
  assumes "quiet w" "repository_id ow rp w = (x, w')"
  shows "quiet w'" "db w' = db w" "store w' = store w"
proof -
  show "quiet w'" using keepsD [OF keeps_quiet [OF repository_id_local(2)] assms] .
  show "db w' = db w" using keeps_dbD [OF repository_id_local(1) assms] .
  show "store w' = store w" using keeps_storeD [OF repository_id_local(3) assms(2)] .
qed

text \<open>A successful transaction in a quiet world: its body ran from the same database and its result was
  kept.\<close>

lemma transaction_quiet_ok:
  assumes "quiet w" "transaction cv body w = (Inr x, w')"
  obtains w1 w2 where "body w1 = (Inr x, w2)" "db w1 = db w" "store w1 = store w" "quiet w1"
    "db w' = db w2" "store w' = store w2" "tx_now w' = tx_now w2"
proof -
  from assms(2) obtain w1 w2 ev where b: "db_begin w = (Inr (), w1)" "body w1 = (Inr x, w2)"
    "take_event w2 = (ev, w')" by (auto simp: transaction_ok)
  have "db w1 = db w" using keeps_dbD [OF db_begin_keeps(1) assms(1) b(1)] .
  moreover have "store w1 = store w" using keeps_storeD [OF db_begin_store b(1)] .
  moreover have "quiet w1" using keepsD [OF keeps_quiet [OF db_begin_keeps(2)] assms(1) b(1)] .
  ultimately show thesis using that b take_event_frame(1,2,3) [OF b(3)] by blast
qed

section \<open>Opening and resuming a session\<close>

lemma open_session_unique:
  assumes "uniques_ok d" "s \<in> set (upload_sessions d)" "s' \<in> set (upload_sessions d)" "is_open s" "is_open s'"
    "session_key s = session_key s'"
  shows "s = s'"
proof -
  have "inj_on session_key (set (filter is_open (upload_sessions d)))"
    using assms(1) by (auto simp: uniques_ok_def distinct_map)
  then show ?thesis using assms by (auto dest: inj_onD)
qed

lemma upsert_run:
  assumes "upsert_open_session i r oid n j now d = Inr ((id', expiry, stored), d')" "uniques_ok d"
  shows "(\<exists>s \<in> set (upload_sessions d'). ses_id s = id' \<and> session_key s = (r, oid) \<and> is_open s
      \<and> expires_at s = expiry \<and> expiry = now + session_lifetime \<and> ses_manifest s = stored)
    \<and> (\<forall>s0 \<in> set (upload_sessions d). is_open s0 \<longrightarrow> session_key s0 = (r, oid) \<longrightarrow> ses_id s0 = id')"
proof (cases "find (\<lambda>s. is_open s \<and> session_key s = (r, oid)) (upload_sessions d)")
  case None
  then have "upload_sessions d' = upload_sessions d @ [\<lparr>ses_id = i, ses_repo = r, ses_oid = oid, ses_size = n,
      ses_manifest = j, ses_state = Open, expires_at = now + session_lifetime\<rparr>]"
    "id' = i" "expiry = now + session_lifetime" "stored = j"
    using assms(1) by (auto simp: upsert_open_session_def Let_def ok_iff split: if_splits)
  moreover have "\<not> (is_open s0 \<and> session_key s0 = (r, oid))" if "s0 \<in> set (upload_sessions d)" for s0
    using None that by (auto simp: find_None_iff)
  ultimately show ?thesis by (auto simp: is_open_def session_key_def)
next
  case (Some old)
  from find_SomeD [OF this] have old: "old \<in> set (upload_sessions d)" "is_open old" "session_key old = (r, oid)" by auto
  have "old\<lparr>expires_at := now + session_lifetime\<rparr> \<in> set (upload_sessions d')"
    using assms(1) Some old by (auto simp: upsert_open_session_def Let_def ok_iff image_iff split: if_splits)
  moreover have "ses_id old = id'" "expiry = now + session_lifetime" "ses_manifest old = stored"
    using assms(1) Some by (auto simp: upsert_open_session_def Let_def ok_iff split: if_splits)
  moreover have "s0 = old" if "s0 \<in> set (upload_sessions d)" "is_open s0" "session_key s0 = (r, oid)" for s0
    using open_session_unique [OF assms(2) that(1) old(1)] that old by simp
  moreover have "is_open (old\<lparr>expires_at := now + session_lifetime\<rparr>)"
    "session_key (old\<lparr>expires_at := now + session_lifetime\<rparr>) = (r, oid)"
    using old by (simp_all add: is_open_def session_key_def)
  ultimately show ?thesis
    by (intro conjI ballI impI bexI [of _ "old\<lparr>expires_at := now + session_lifetime\<rparr>"]) simp_all
qed

lemma expire_keeps_live:
  assumes "expire_sessions_of r oid now d = Inr (u, d')"
  shows "schema_ok d'" "s \<in> set (upload_sessions d) \<Longrightarrow> now < expires_at s \<Longrightarrow> s \<in> set (upload_sessions d')"
  using assms by (auto simp: expire_sessions_of_def ok_iff image_iff intro!: bexI [of _ s])

text \<open>The session part of \<open>begin_cdc\<close>: whatever the request, a successful run leaves an open session with the
  requested manifest, and it is the live one that was there, if any.\<close>

definition session_of ::
  "('s, 'j) server_deps \<Rightarrow> uuid \<Rightarrow> object_manifest \<Rightarrow> 'j session_row \<Rightarrow> bool" where
  "session_of D r m s \<longleftrightarrow> session_key s = (r, as_bytes (object_oid m)) \<and> is_open s
     \<and> from_value D (ses_manifest s) = Inr m"

lemma begin_cdc_run:
  assumes os: "object_store D contents" and q: "quiet w"
    and run: "begin_cdc D A ow rp ot hs req i w = (Inr resp, w')"
  obtains r s where "parse_oid D ot = Inr (object_oid (req_manifest req))" "validate (req_manifest req) = Inr ()"
    "\<exists>row \<in> set (repositories (db w)). repo_id row = r \<and> repo_owner row = ow \<and> repo_name row = rp"
    "s \<in> set (upload_sessions (db w'))" "session_of D r (req_manifest req) s" "ses_id s = resp_upload_id resp"
    "expires_at s = tx_now w' + session_lifetime" "resp_expires_at resp = format_seconds D (expires_at s)"
    "map unat (missing_chunk_indexes resp) = filter (\<lambda>k. chunk_view D contents (store w) r
        (cd_id (chunks (req_manifest req) ! k)) = None) [0..<length (chunks (req_manifest req))]"
    "chunk_view D contents (store w') = chunk_view D contents (store w)"
    "\<forall>s0 \<in> set (upload_sessions (db w)). is_open s0 \<longrightarrow> tx_now w' < expires_at s0
        \<longrightarrow> session_key s0 = session_key s \<longrightarrow> ses_id s0 = ses_id s"
proof -
  let ?m = "req_manifest req"
  let ?body = "\<lambda>r oid j. andthen (query_tx (expire_sessions_of r (as_bytes oid))) (\<lambda>_.
       andthen (of_result (ok_or (api_error_new 422 ''object is too large'') (i64_try_from (object_size ?m)))) (\<lambda>size'.
       andthen (query_tx (upsert_open_session i r (as_bytes oid) size' j)) (\<lambda>(upload_id, expiry, stored).
       andthen (of_result (map_err integrity (from_value D stored))) (\<lambda>stored_manifest.
       andthen (guard_err (stored_manifest \<noteq> ?m) different_manifest) (\<lambda>_.
       ret (upload_id, expiry, stored_manifest))))))"
  from run obtain ident w1 oid r w2 j uid expiry stored w3 missing where
    au: "authenticate D A hs ow rp Write w = (Inr ident, w1)" and oid: "parse_oid D ot = Inr oid"
    and v: "validate ?m = Inr ()" and moid: "object_oid ?m = oid" and rid: "repository_id ow rp w1 = (Inr r, w2)"
    and tx: "transaction database_error (?body r oid j) w2 = (Inr (uid, expiry, stored), w3)"
    and loop: "for_fold (missing_step D r) (enumerate 0 (chunks stored)) [] w3 = (Inr missing, w')"
    and resp: "resp = \<lparr>resp_protocol_version = 1, resp_upload_id = uid, missing_chunk_indexes = missing,
          resp_expires_at = format_seconds D expiry\<rparr>"
    unfolding begin_cdc_def
    by (auto simp: andthen_ok [of "authenticate _ _ _ _ _ _"] andthen_ok [of "of_result _"] andthen_ok [of "guard_err _ _"]
        andthen_ok [of "repository_id _ _"] andthen_ok [of "transaction _ _"] andthen_ok [of "for_fold _ _ _"]
        of_result_ok guard_err_ok ret_ok ok_iff)
  note q1 = authenticate_quiet [OF q au] note q2 = repository_id_quiet [OF q1(1) rid]
  from transaction_quiet_ok [OF q2(1) tx] obtain b1 b2 where body: "?body r oid j b1 = (Inr (uid, expiry, stored), b2)"
    and b: "db b1 = db w2" "store b1 = store w2" "db w3 = db b2" "store w3 = store b2" "tx_now w3 = tx_now b2" .
  from body obtain c1 n c2 js where ex: "query_tx (expire_sessions_of r (as_bytes oid)) b1 = (Inr (), c1)"
    and up: "query_tx (upsert_open_session i r (as_bytes oid) n j) c1 = (Inr (uid, expiry, js), b2)"
    and st: "from_value D js = Inr stored" "stored = ?m"
    by (auto simp: andthen_ok of_result_ok guard_err_ok ret_ok ok_iff simp del: on_err_ok)
  note exd = query_txD [OF ex] and upd = query_txD [OF up]
  note live = expire_keeps_live [OF exd [THEN conjunct1]]
  have "uniques_ok (db c1)" using live(1) by (simp add: schema_ok_def)
  note u = upsert_run [OF upd [THEN conjunct1] this]
  note ml = missing_loop [OF os loop]
  have tx': "tx_now w' = tx_now w3" using ml by simp
  from u obtain s where s: "s \<in> set (upload_sessions (db b2))" "ses_id s = uid" "session_key s = (r, as_bytes oid)"
    "is_open s" "expires_at s = expiry" "expiry = tx_now c1 + session_lifetime" "ses_manifest s = js" by blast
  have stores: "store w3 = store w" using b exd upd q1 q2 by simp
  have now: "tx_now w' = tx_now c1" using tx' b upd by simp
  have old: "ses_id s0 = ses_id s" if "s0 \<in> set (upload_sessions (db w))" "is_open s0" "tx_now w' < expires_at s0"
    "session_key s0 = session_key s" for s0
    using u live(2) [of s0] that s(2,3) now exd b q1 q2 by simp
  show thesis
  proof (rule that [of r s])
    show "parse_oid D ot = Inr (object_oid ?m)" using oid moid by simp
    show "validate ?m = Inr ()" by (rule v)
    show "\<exists>row\<in>set (repositories (db w)). repo_id row = r \<and> repo_owner row = ow \<and> repo_name row = rp"
      using repository_id_row [OF q1(1) rid] q1 by simp
    show "s \<in> set (upload_sessions (db w'))" using s ml b by simp
    show "session_of D r ?m s" using s moid st by (simp add: session_of_def)
    show "ses_id s = resp_upload_id resp" "resp_expires_at resp = format_seconds D (expires_at s)"
      using s resp by simp_all
    show "expires_at s = tx_now w' + session_lifetime" using s now by simp
    show "map unat (missing_chunk_indexes resp) = filter (\<lambda>k. chunk_view D contents (store w) r
        (cd_id (chunks ?m ! k)) = None) [0..<length (chunks ?m)]"
      using ml st(2) stores resp by simp
    show "chunk_view D contents (store w') = chunk_view D contents (store w)" using ml stores by simp
  qed (use old in blast)
qed

text \<open>Claim C10: a CDC upload that is accepted has a valid manifest of the requested object, leaves one open session
  of that repository with exactly this manifest and a fresh 24-hour lease, and its plan lists, in increasing order, exactly the
  indexes whose chunk the store does not hold.  If a live open session for the object existed, that session is
  resumed.  The store is not changed.\<close>

theorem begin_cdc_plans_upload:
  assumes "object_store D contents" "quiet w" "begin_cdc D A owner repository oid_text headers req new_id w = (Inr resp, w')"
  shows "\<exists>r s. parse_oid D oid_text = Inr (object_oid (req_manifest req)) \<and> validate (req_manifest req) = Inr ()
    \<and> (\<exists>row \<in> set (repositories (db w)). repo_id row = r \<and> repo_owner row = owner \<and> repo_name row = repository)
    \<and> s \<in> set (upload_sessions (db w')) \<and> session_of D r (req_manifest req) s \<and> ses_id s = resp_upload_id resp
    \<and> expires_at s = tx_now w' + session_lifetime \<and> resp_expires_at resp = format_seconds D (expires_at s)
    \<and> map unat (missing_chunk_indexes resp) = filter (\<lambda>k. chunk_view D contents (store w) r
        (cd_id (chunks (req_manifest req) ! k)) = None) [0..<length (chunks (req_manifest req))]
    \<and> chunk_view D contents (store w') = chunk_view D contents (store w)
    \<and> (\<forall>s0 \<in> set (upload_sessions (db w)). is_open s0 \<longrightarrow> tx_now w' < expires_at s0
        \<longrightarrow> session_key s0 = session_key s \<longrightarrow> ses_id s0 = ses_id s)"
  by (rule begin_cdc_run [OF assms]) blast

lemma demo_exists: "chunk_exists demo_deps sample_store 5 (digest_fill 9) = (Inr True, sample_store)"
  by (simp add: chunk_exists_def demo_path demo_fields mem_head_def mem_op_def mem_contents_def sample_store_def)

definition demo_request :: begin_upload_request where
  "demo_request = \<lparr>req_protocol_version = 1, req_manifest = demo_manifest\<rparr>"

definition demo_opened :: "object_manifest database" where
  "demo_opened = demo_repositories\<lparr>upload_sessions := [(demo_session Open)\<lparr>expires_at := 86400001000\<rparr>]\<rparr>"

lemma demo_begin:
  "begin_cdc demo_deps demo_app ''o'' ''r'' demo_oid_text demo_headers demo_request 11 (demo_world demo_repositories)
     = (Inr \<lparr>resp_protocol_version = 1, resp_upload_id = 11, missing_chunk_indexes = [],
          resp_expires_at = format_seconds demo_deps 86400001000\<rparr>, demo_world demo_opened)"
proof -
  have "expire_sessions_of 5 (as_bytes (digest_fill 9)) 1000 demo_repositories = Inr ((), demo_repositories)"
    by (simp add: expire_sessions_of_def enforce_def demo_databases schema_defs)
  moreover have "upsert_open_session 11 5 (as_bytes (digest_fill 9)) 32 demo_manifest 1000 demo_repositories
      = Inr ((11, 86400001000, demo_manifest), demo_opened)"
    by (simp add: upsert_open_session_def enforce_def demo_opened_def demo_databases schema_defs Let_def session_lifetime_def secs_def)
  moreover have "object_oid demo_manifest = digest_fill 9" "object_size demo_manifest = 32"
    "chunks demo_manifest = [\<lparr>cd_id = digest_fill 9, cd_offset = 0, cd_length = 32\<rparr>]"
    by (simp_all add: demo_manifest_def)
  ultimately show ?thesis
    using demo_validate demo_repository_id [of demo_repositories] demo_exists
    by (simp add: begin_cdc_def run_defs demo_request_def missing_step_def i64_try_from_def)
      (simp add: demo_world_def fresh_world_def)
qed

theorem begin_cdc_plans_upload_witness:
  "\<exists>s \<in> set (upload_sessions demo_opened). session_of demo_deps 5 demo_manifest s \<and> ses_id s = 11
     \<and> chunk_view demo_deps mem_contents sample_store 5 (digest_fill 9) \<noteq> None"
proof -
  from begin_cdc_plans_upload [OF demo.object_store_axioms _ demo_begin]
  obtain r s where "s \<in> set (upload_sessions demo_opened)" "session_of demo_deps r demo_manifest s" "ses_id s = 11"
    and row: "\<exists>row \<in> set (repositories demo_repositories). repo_id row = r"
    and m: "[] = filter (\<lambda>k. chunk_view demo_deps mem_contents sample_store r
        (cd_id (chunks demo_manifest ! k)) = None) [0..<length (chunks demo_manifest)]"
    by (auto simp: demo_request_def)
  moreover from row have "r = 5" by simp
  ultimately show ?thesis by (intro bexI [of _ s]) (auto simp: demo_manifest_def split: if_splits)
qed

section \<open>Publication\<close>

text \<open>What publication leaves alone besides the object it adds.\<close>

text \<open>What the chunk rows say of a chunk: its size and its reference count.\<close>

definition chunk_entry :: "chunk_row list \<Rightarrow> uuid \<times> bytes \<Rightarrow> (int \<times> int) option" where
  "chunk_entry t k = map_option (\<lambda>c. (ch_size c, reference_count c)) (find (\<lambda>c. chunk_key c = k) t)"

text \<open>The lengths a manifest gives to its chunks, and how often it uses a chunk of the repository.\<close>

definition described :: "chunk_descriptor list \<Rightarrow> (bytes \<times> int) list" where
  "described cs = map (\<lambda>c. (as_bytes (cd_id c), int (chunk_len c))) cs"

definition uses :: "uuid \<Rightarrow> chunk_descriptor list \<Rightarrow> uuid \<times> bytes \<Rightarrow> int" where
  "uses r cs k = (if fst k = r then int (count_list (map (\<lambda>c. as_bytes (cd_id c)) cs) (snd k)) else 0)"

lemma chunk_entry_append: "chunk_entry (t @ [row]) k = (case chunk_entry t k of None \<Rightarrow> if chunk_key row = k then Some (ch_size row, reference_count row) else None | Some x \<Rightarrow> Some x)"
  by (induction t) (auto simp: chunk_entry_def)

lemma chunk_entry_present: "k \<in> set (map chunk_key t) \<longleftrightarrow> chunk_entry t k \<noteq> None"
  by (auto simp: chunk_entry_def find_None_iff)

lemma chunk_entry_count:
  "chunk_entry (map (\<lambda>c. if chunk_key c = k' then c\<lparr>reference_count := reference_count c + 1\<rparr> else c) t) k
     = map_option (\<lambda>(n, refs). (n, refs + (if k = k' then 1 else 0))) (chunk_entry t k)"
  by (induction t) (auto simp: chunk_entry_def chunk_key_def)

lemma insert_chunk_entry:
  assumes "insert_chunk_if_absent r c n now d = Inr (x, d')"
  shows "\<exists>t. d' = d\<lparr>chunk_table := t\<rparr> \<and> (\<forall>k. chunk_entry t k = (case chunk_entry (chunk_table d) k of
    Some e \<Rightarrow> Some e | None \<Rightarrow> if k = (r, c) then Some (n, 0) else None))"
proof (cases "(r, c) \<in> set (map chunk_key (chunk_table d))")
  case True
  then have "d' = d" using assms by (auto simp: insert_chunk_if_absent_def Let_def simp del: set_map split: if_splits)
  then show ?thesis using True unfolding chunk_entry_present by (intro exI [of _ "chunk_table d"]) (auto split: option.splits)
next
  case False
  then have "d' = d\<lparr>chunk_table := chunk_table d @ [\<lparr>ch_repo = r, ch_id = c, ch_size = n, reference_count = 0\<rparr>]\<rparr>"
    using assms by (auto simp: insert_chunk_if_absent_def Let_def ok_iff simp del: set_map split: if_splits)
  then show ?thesis by (auto simp: chunk_entry_append chunk_key_def split: option.splits)
qed

lemma insert_chunks_run:
  assumes "for_each (\<lambda>d. query_tx (insert_chunk_if_absent r (as_bytes (cd_id d)) (int (chunk_len d)))) cs w = (Inr u, w')"
  shows "\<exists>t. db w' = (db w)\<lparr>chunk_table := t\<rparr> \<and> (\<forall>k. chunk_entry t k = (case chunk_entry (chunk_table (db w)) k of
    Some e \<Rightarrow> Some e | None \<Rightarrow> if fst k = r then map_option (\<lambda>n. (n, 0)) (map_of (described cs) (snd k)) else None))"
  using assms
proof (induction cs arbitrary: w)
  case Nil
  then show ?case by (auto simp: ret_ok described_def intro!: exI [of _ "chunk_table (db w)"] split: option.splits)
next
  case (Cons c cs)
  then obtain w1 where first: "query_tx (insert_chunk_if_absent r (as_bytes (cd_id c)) (int (chunk_len c))) w = (Inr (), w1)"
    and rest: "for_each (\<lambda>d. query_tx (insert_chunk_if_absent r (as_bytes (cd_id d)) (int (chunk_len d)))) cs w1 = (Inr u, w')"
    by (auto simp: andthen_ok simp del: on_err_ok)
  from insert_chunk_entry [OF query_txD [OF first, THEN conjunct1]] obtain t1 where t1: "db w1 = (db w)\<lparr>chunk_table := t1\<rparr>"
    "\<And>k. chunk_entry t1 k = (case chunk_entry (chunk_table (db w)) k of
      Some e \<Rightarrow> Some e | None \<Rightarrow> if k = (r, as_bytes (cd_id c)) then Some (int (chunk_len c), 0) else None)" by blast
  from Cons.IH [OF rest] obtain t where t: "db w' = (db w1)\<lparr>chunk_table := t\<rparr>"
    "\<And>k. chunk_entry t k = (case chunk_entry (chunk_table (db w1)) k of
      Some e \<Rightarrow> Some e | None \<Rightarrow> if fst k = r then map_option (\<lambda>n. (n, 0)) (map_of (described cs) (snd k)) else None)" by blast
  have "chunk_entry t k = (case chunk_entry (chunk_table (db w)) k of
      Some e \<Rightarrow> Some e | None \<Rightarrow> if fst k = r then map_option (\<lambda>n. (n, 0)) (map_of (described (c # cs)) (snd k)) else None)" for k
    using t(2) [of k] t1 by (cases k) (auto simp: described_def split: option.splits)
  then show ?case using t(1) t1(1) by auto
qed

lemma link_loop_run:
  assumes "for_each (link_chunk r oid) xs w = (Inr u, w')"
  shows "\<exists>t. db w' = (db w)\<lparr>object_chunks := object_chunks (db w) @ map (link_row r oid) xs, chunk_table := t\<rparr>
    \<and> (\<forall>k. chunk_entry t k = map_option (\<lambda>(n, refs). (n, refs + uses r (map snd xs) k)) (chunk_entry (chunk_table (db w)) k))"
  using assms
proof (induction xs arbitrary: w)
  case Nil
  then show ?case by (auto simp: ret_ok uses_def option.map_ident_strong intro!: exI [of _ "chunk_table (db w)"])
next
  case (Cons x xs)
  obtain i c where x: "x = (i, c)" by (cases x)
  from Cons.prems obtain w1 where first: "link_chunk r oid (i, c) w = (Inr (), w1)" and rest: "for_each (link_chunk r oid) xs w1 = (Inr u, w')"
    by (auto simp: x andthen_ok)
  note w1 = link_chunk_run(1) [OF first]
  from Cons.IH [OF rest] obtain t where t: "db w' = (db w1)\<lparr>object_chunks := object_chunks (db w1) @ map (link_row r oid) xs, chunk_table := t\<rparr>"
    "\<And>k. chunk_entry t k = map_option (\<lambda>(n, refs). (n, refs + uses r (map snd xs) k)) (chunk_entry (chunk_table (db w1)) k)" by blast
  have "chunk_entry t k = map_option (\<lambda>(n, refs). (n, refs + uses r (map snd (x # xs)) k)) (chunk_entry (chunk_table (db w)) k)" for k
    unfolding t(2) w1 x by (cases k; cases "chunk_entry (chunk_table (db w)) k") (auto simp: chunk_entry_count uses_def)
  then show ?case using t(1) w1 x by auto
qed

lemma finalize_session_run:
  assumes "finalize_session u now d = Inr (x, d')"
  shows "d' = d\<lparr>upload_sessions := map (\<lambda>s. if ses_id s = u then s\<lparr>ses_state := Finalized\<rparr> else s) (upload_sessions d)\<rparr> \<and> schema_ok d'"
  using assms by (auto simp: finalize_session_def ok_iff)

definition object_keys :: "'j database \<Rightarrow> (uuid \<times> bytes) set" where
  "object_keys d = set (map object_key (objects d))"

text \<open>\<open>published D r u m d d'\<close>: the transaction that publishes \<open>m\<close> through session \<open>u\<close> turns \<open>d\<close> into \<open>d'\<close>.  If the object is new, its row is added with the manifest, one link
  per chunk in order, and one reference per use of a chunk; in any case every chunk of the manifest has a row, and the session is finalized.  Nothing else changes.\<close>

definition published ::
  "('s, 'j) server_deps \<Rightarrow> uuid \<Rightarrow> uuid \<Rightarrow> object_manifest \<Rightarrow> 'j database \<Rightarrow> 'j database \<Rightarrow> bool" where
  "published D r u m d d' \<longleftrightarrow>
     (let new = (r, as_bytes (object_oid m)) \<notin> object_keys d; added = (\<lambda>k. if new then uses r (chunks m) k else 0) in
      (\<exists>s \<in> set (upload_sessions d). session_matches u r (as_bytes (object_oid m)) s) \<and> schema_ok d'
      \<and> (\<exists>row t. object_key row = (r, as_bytes (object_oid m)) \<and> obj_size row = int (unat (object_size m)) \<and> from_value D (obj_manifest row) = Inr m
          \<and> d' = d\<lparr>objects := objects d @ (if new then [row] else []), chunk_table := t,
               object_chunks := object_chunks d @ (if new then map (link_row r (object_oid m)) (enumerate 0 (chunks m)) else []),
               upload_sessions := map (\<lambda>s. if ses_id s = u then s\<lparr>ses_state := Finalized\<rparr> else s) (upload_sessions d)\<rparr>
          \<and> (\<forall>k. chunk_entry t k = (case chunk_entry (chunk_table d) k of
               Some (n, refs) \<Rightarrow> Some (n, refs + added k)
             | None \<Rightarrow> if fst k = r then map_option (\<lambda>n. (n, added k)) (map_of (described (chunks m)) (snd k)) else None))))"

lemma publishedD:
  assumes "published D r u m d d'"
  shows "\<exists>s \<in> set (upload_sessions d). session_matches u r (as_bytes (object_oid m)) s"
    "upload_sessions d' = map (\<lambda>s. if ses_id s = u then s\<lparr>ses_state := Finalized\<rparr> else s) (upload_sessions d)"
    "(r, as_bytes (object_oid m)) \<in> object_keys d'" "set (objects d) \<subseteq> set (objects d')"
  using assms by (auto simp: published_def Let_def object_keys_def split: if_splits)

lemma select_finalizable_run:
  assumes "select_finalizable_session u r oid now d = Inr (Some (js, st), d')"
  shows "d' = d \<and> (\<exists>s \<in> set (upload_sessions d). session_matches u r oid s \<and> (live_at now s \<or> ses_state s = Finalized)
    \<and> ses_manifest s = js \<and> ses_state s = st)"
proof -
  let ?P = "\<lambda>s. session_matches u r oid s \<and> (live_at now s \<or> ses_state s = Finalized)"
  from assms obtain s where s: "find ?P (upload_sessions d) = Some s" and rest: "ses_manifest s = js" "ses_state s = st" "d' = d"
    unfolding select_finalizable_session_def by (cases "find ?P (upload_sessions d)") simp_all
  from find_SomeD [OF s] rest show ?thesis by blast
qed

lemma publish_body_outcome:
  assumes json: "json_roundtrip D" and run: "publish_body D r u m w = (Inr x, w')"
  shows "(\<exists>s \<in> set (upload_sessions (db w)). session_matches u r (as_bytes (object_oid m)) s \<and>
      (if live_at (tx_now w) s then published D r u m (db w) (db w')
         \<and> (x \<longleftrightarrow> (r, as_bytes (object_oid m)) \<notin> object_keys (db w))
       else ses_state s = Finalized \<and> db w' = db w \<and> \<not> x))"
  using run
proof (cases rule: publish_body_cases)
  case (finalized w0 js)
  from select_finalizable_run [OF query_txD [OF finalized(1), THEN conjunct1]]
  obtain s where "s \<in> set (upload_sessions (db w))"
    "session_matches u r (as_bytes (object_oid m)) s" "ses_state s = Finalized" "db w0 = db w" by blast
  then show ?thesis using finalized by (intro bexI [of _ s]) (auto simp: live_at_def)
next
  case (opened w0 js w1 size' j w2 ins w3)
  let ?key = "(r, as_bytes (object_oid m))"
  from select_finalizable_run [OF query_txD [OF opened(1), THEN conjunct1]]
  obtain s where s: "s \<in> set (upload_sessions (db w))" "session_matches u r (as_bytes (object_oid m)) s"
    "live_at (tx_now w) s" and w0: "db w0 = db w" by (auto simp: live_at_def)
  let ?new = "?key \<notin> object_keys (db w)"
  from insert_chunks_run [OF opened(2)] obtain t1 where t1: "db w1 = (db w)\<lparr>chunk_table := t1\<rparr>"
    "\<And>k. chunk_entry t1 k = (case chunk_entry (chunk_table (db w)) k of
      Some e \<Rightarrow> Some e | None \<Rightarrow> if fst k = r then map_option (\<lambda>n. (n, 0)) (map_of (described (chunks m)) (snd k)) else None)" unfolding w0 by blast
  have size: "size' = int (unat (object_size m))" using opened(3) by (auto simp: i64_try_from_def split: if_splits)
  have j: "from_value D j = Inr m" using json opened(4) by (simp add: json_roundtrip_def)
  let ?row = "\<lparr>obj_repo = r, obj_oid = as_bytes (object_oid m), obj_size = size', obj_manifest = j\<rparr>"
  have w2: "db w2 = (db w1)\<lparr>objects := objects (db w) @ (if ?new then [?row] else [])\<rparr>" "ins = 1 \<longleftrightarrow> ?new"
    using query_txD [OF opened(5), THEN conjunct1] t1(1)
    by (auto simp: insert_object_if_absent_def object_keys_def Let_def ok_iff simp del: set_map split: if_splits)
  have "\<exists>t. db w3 = (db w2)\<lparr>object_chunks := object_chunks (db w) @ (if ?new then map (link_row r (object_oid m)) (enumerate 0 (chunks m)) else []), chunk_table := t\<rparr>
      \<and> (\<forall>k. chunk_entry t k = map_option (\<lambda>(n, refs). (n, refs + (if ?new then uses r (chunks m) k else 0))) (chunk_entry t1 k))"
  proof (cases "ins = 1")
    case True
    then show ?thesis using link_loop_run [of r "object_oid m" "enumerate 0 (chunks m)" w2 "()" w3] opened(6) w2 t1(1) by (auto simp: map_snd_enumerate)
  next
    case False
    then have "w3 = w2" using opened(6) by (simp add: ret_ok)
    then show ?thesis using False w2 t1(1) by (auto simp: option.map_ident_strong intro!: exI [of _ t1])
  qed
  then obtain t where t: "db w3 = (db w2)\<lparr>object_chunks := object_chunks (db w) @ (if ?new then map (link_row r (object_oid m)) (enumerate 0 (chunks m)) else []), chunk_table := t\<rparr>"
    "\<And>k. chunk_entry t k = map_option (\<lambda>(n, refs). (n, refs + (if ?new then uses r (chunks m) k else 0))) (chunk_entry t1 k)" by blast
  note fin = finalize_session_run [OF query_txD [OF opened(7), THEN conjunct1]]
  have entries: "chunk_entry t k = (case chunk_entry (chunk_table (db w)) k of
      Some (n, refs) \<Rightarrow> Some (n, refs + (if ?new then uses r (chunks m) k else 0))
    | None \<Rightarrow> if fst k = r then map_option (\<lambda>n. (n, if ?new then uses r (chunks m) k else 0)) (map_of (described (chunks m)) (snd k)) else None)" for k
    unfolding t(2) t1(2) by (auto simp: option.map_comp comp_def split: option.split prod.split)
  have "published D r u m (db w) (db w')"
    unfolding published_def Let_def
  proof (intro conjI)
    show "\<exists>s \<in> set (upload_sessions (db w)). session_matches u r (as_bytes (object_oid m)) s" using s by blast
    show "schema_ok (db w')" using fin by blast
    have "db w' = (db w)\<lparr>objects := objects (db w) @ (if ?new then [?row] else []), chunk_table := t,
        object_chunks := object_chunks (db w) @ (if ?new then map (link_row r (object_oid m)) (enumerate 0 (chunks m)) else []),
        upload_sessions := map (\<lambda>s. if ses_id s = u then s\<lparr>ses_state := Finalized\<rparr> else s) (upload_sessions (db w))\<rparr>"
      using fin t(1) w2(1) t1(1) by simp
    moreover have "object_key ?row = ?key" "obj_size ?row = int (unat (object_size m))" "from_value D (obj_manifest ?row) = Inr m"
      by (simp_all add: object_key_def size j)
    ultimately show "\<exists>row t. object_key row = ?key \<and> obj_size row = int (unat (object_size m)) \<and> from_value D (obj_manifest row) = Inr m
      \<and> db w' = (db w)\<lparr>objects := objects (db w) @ (if ?new then [row] else []), chunk_table := t,
          object_chunks := object_chunks (db w) @ (if ?new then map (link_row r (object_oid m)) (enumerate 0 (chunks m)) else []),
          upload_sessions := map (\<lambda>s. if ses_id s = u then s\<lparr>ses_state := Finalized\<rparr> else s) (upload_sessions (db w))\<rparr>
      \<and> (\<forall>k. chunk_entry t k = (case chunk_entry (chunk_table (db w)) k of
           Some (n, refs) \<Rightarrow> Some (n, refs + (if ?new then uses r (chunks m) k else 0))
         | None \<Rightarrow> if fst k = r then map_option (\<lambda>n. (n, if ?new then uses r (chunks m) k else 0)) (map_of (described (chunks m)) (snd k)) else None))"
      using entries by blast
  qed
  then show ?thesis using s w2(2) opened(8) by (intro bexI [of _ s]) auto
qed

lemma transaction_quiet_cases:
  assumes q: "quiet w" and run: "transaction cv body w = (res, w')"
  obtains (kept) e where "res = Inl e" "db w' = db w" "store w' = store w \<or> (\<exists>b1 e' b2. body b1 = (Inl e', b2) \<and> store w' = store b2)"
  | (committed) b1 b2 x where "body b1 = (Inr x, b2)" "db b1 = db w" "db w' = db b2" "res = Inr x \<or> res = Inl (cv Unavailable)"
      "tx_now w' = tx_now b2"
  | (refused) b1 b2 x e where "body b1 = (Inr x, b2)" "res = Inl e" "db w' = db w"
proof -
  obtain b w1 where b: "db_begin w = (b, w1)" by (cases "db_begin w")
  have d1: "db w1 = db w" using keeps_dbD [OF db_begin_keeps(1) q b] .
  have s1: "store w1 = store w" using keeps_storeD [OF db_begin_store b] .
  obtain x w2 where x: "body w1 = (x, w2)" by (cases "body w1")
  obtain ev w3 where t: "take_event w2 = (ev, w3)" by (cases "take_event w2")
  show thesis
  proof (cases b)
    case (Inl e)
    then have "res = Inl (cv e)" "db w' = db w" "store w' = store w" using run b d1 s1 by (auto simp: transaction_def)
    then show ?thesis using kept by blast
  next
    case b': (Inr u)
    show ?thesis
    proof (cases x)
      case (Inl e)
      then have "res = Inl e" "db w' = db w" "store w' = store w2"
        using run b b' x d1 by (auto simp: transaction_def)
      then show ?thesis using kept [of e] x Inl by metis
    next
      case (Inr y)
      have y: "body w1 = (Inr y, w2)" using x Inr by simp
      note t' = take_event_frame(1,3) [OF t]
      show ?thesis
      proof (cases "outcome ev")
        case Done
        then have "res = Inr y" "db w' = db w2" "tx_now w' = tx_now w2" using run b b' y t t' by (auto simp: transaction_def)
        then show ?thesis using committed [OF y d1] by blast
      next
        case Refused
        then have "res = Inl (cv Unavailable)" "db w' = db w" using run b b' y t d1 by (auto simp: transaction_def)
        then show ?thesis using refused [OF y] by blast
      next
        case AckLost
        then have "res = Inl (cv Unavailable)" "db w' = db w2" "tx_now w' = tx_now w2" using run b b' y t t' by (auto simp: transaction_def)
        then show ?thesis using committed [OF y d1] by blast
      qed
    qed
  qed
qed

lemma publish_manifest_outcome:
  assumes json: "json_roundtrip D" and q: "quiet w" and run: "publish_manifest D r u m w = (res, w')"
  shows "(db w' = db w \<or> published D r u m (db w) (db w'))
    \<and> (\<forall>x. res = Inr x \<longrightarrow> validate m = Inr () \<and>
         (if x then published D r u m (db w) (db w') \<and> (r, as_bytes (object_oid m)) \<notin> object_keys (db w)
          else published D r u m (db w) (db w') \<and> (r, as_bytes (object_oid m)) \<in> object_keys (db w)
             \<or> (\<exists>s \<in> set (upload_sessions (db w)). session_matches u r (as_bytes (object_oid m)) s
                  \<and> ses_state s = Finalized) \<and> db w' = db w))"
proof (cases "validate m")
  case (Inl e)
  then have "res = Inl (integrity (manifest_error_to_string e))" "w' = w"
    using run by (auto simp: publish_manifest_def andthen_def of_result_def)
  then show ?thesis by simp
next
  case (Inr v)
  then have tx: "transaction database_error (publish_body D r u m) w = (res, w')"
    using run by (simp add: publish_manifest_def andthen_def of_result_def)
  have v: "validate m = Inr ()" using Inr by simp
  from q tx show ?thesis
  proof (cases rule: transaction_quiet_cases)
    case (committed b1 b2 x)
    from publish_body_outcome [OF json committed(1), unfolded committed(2) committed(3) [symmetric]] obtain s where
      s: "s \<in> set (upload_sessions (db w))" "session_matches u r (as_bytes (object_oid m)) s"
      and o: "if live_at (tx_now b1) s then published D r u m (db w) (db w')
         \<and> (x \<longleftrightarrow> (r, as_bytes (object_oid m)) \<notin> object_keys (db w))
       else ses_state s = Finalized \<and> db w' = db w \<and> \<not> x" by blast
    show ?thesis
    proof (cases "live_at (tx_now b1) s")
      case True
      then show ?thesis using o committed(4) v by auto
    next
      case False
      then show ?thesis using o committed(4) s v by auto
    qed
  qed auto
qed

text \<open>Claim C8: publication is atomic.  Whatever fails, the catalogue is left exactly as it was or the whole publication
  has happened in it: a row for the object with this manifest and its size, one link per chunk in the order of the manifest, one more reference per use of a chunk, a row for
  each of its chunks, and the finalized session; if the object was already there, only missing chunk rows and the session's state.  Nothing else in the database is touched.
  A reported success is such a publication (new, or of an object that was already there), or a
  session that had been finalized before.\<close>

theorem publication_is_atomic:
  assumes "json_roundtrip D" "quiet w" "publish_manifest D r u m w = (res, w')"
  shows "(db w' = db w \<or> published D r u m (db w) (db w'))
    \<and> (\<forall>x. res = Inr x \<longrightarrow> validate m = Inr () \<and>
         (if x then published D r u m (db w) (db w') \<and> (r, as_bytes (object_oid m)) \<notin> object_keys (db w)
          else published D r u m (db w) (db w') \<and> (r, as_bytes (object_oid m)) \<in> object_keys (db w)
             \<or> (\<exists>s \<in> set (upload_sessions (db w)). session_matches u r (as_bytes (object_oid m)) s
                  \<and> ses_state s = Finalized) \<and> db w' = db w))"
  by (rule publish_manifest_outcome [OF assms])

text \<open>For a manifest that \<open>validate\<close> accepts and that serializes, publication fails only because the
  database fails (500) or because the session is gone (404 \<open>upload session not found\<close>): none of the integer
  conversions overflows and the branch for other session states is unreachable.\<close>

theorem publication_errors:
  assumes "validate m = Inr ()" "to_value D m = Inr j" "publish_manifest D r u m w = (Inl e, w')"
  shows "e = api_error_new 500 ''internal service error'' \<or> e = api_error_new 404 ''upload session not found''"
proof -
  let ?S = "{api_error_new 500 ''internal service error'', api_error_new 404 ''upload session not found''}"
  have wf: "well_formed m" using assms(1) by (simp add: validate_iff_well_formed)
  have link: "errs_in ?S (link_chunk r (object_oid m) x)" if "x \<in> set (enumerate 0 (chunks m))" for x
  proof -
    obtain i c where x: "x = (i, c)" by (cases x)
    with that have c: "i < length (chunks m)" "c \<in> set (chunks m)" by (auto simp: in_set_enumerate_eq)
    moreover have "length (chunks m) \<le> 204800"
      using assms(1) by (auto simp: validate_def MAX_CHUNK_DESCRIPTORS_def split: if_splits)
    ultimately have "i < 2 ^ 31" by simp
    then show ?thesis
      using well_formed_chunk_bounds [OF wf c(2)] x
      unfolding link_chunk_def by (auto intro!: errs_in_andthen errs_in_of_result errs_in_query simp: database_error_def i32_try_from_def i64_try_from_def)
  qed
  have "errs_in ?S (publish_body D r u m)"
    unfolding publish_body_def
  proof (rule errs_in_andthen [OF errs_in_query(1)], goal_cases)
    case (2 row w0 w1)
    show ?case
    proof (cases row)
      case None
      then show ?thesis by (auto simp: errs_in_def andthen_def of_result_def)
    next
      case (Some p)
      obtain js st where p: "p = (js, st)" by (cases p)
      have "st = Open \<or> st = Finalized"
        using select_finalizable_run [OF query_txD [OF 2 [unfolded Some p], THEN conjunct1]] by (auto simp: live_at_def)
      then show ?thesis
        using Some p well_formed_size_i64 [OF wf] assms(2) link
        by (auto intro!: errs_intros errs_in_query simp: database_error_def of_result_ok)
    qed
  qed (simp add: database_error_def)
  then have "errs_in ?S (transaction database_error (publish_body D r u m))"
    by (intro errs_in_transaction) (simp_all add: database_error_def)
  moreover have "transaction database_error (publish_body D r u m) w = (Inl e, w')"
    using assms(1,3) by (simp add: publish_manifest_def andthen_def of_result_def)
  ultimately show ?thesis by (auto dest: errs_inD)
qed

lemma demo_publish:
  "publish_manifest demo_deps 5 11 demo_manifest (demo_world demo_uploading) = (Inr True, demo_world demo_published)"
proof -
  define d1 where "d1 = demo_uploading\<lparr>objects := [demo_object]\<rparr>"
  define d2 where "d2 = demo_published\<lparr>upload_sessions := upload_sessions demo_uploading, chunk_table := [demo_chunk_row 0]\<rparr>"
  define d3 where "d3 = demo_published\<lparr>upload_sessions := upload_sessions demo_uploading\<rparr>"
  have m: "object_oid demo_manifest = digest_fill 9" "object_size demo_manifest = 32"
    "chunks demo_manifest = [\<lparr>cd_id = digest_fill 9, cd_offset = 0, cd_length = 32\<rparr>]"
    by (simp_all add: demo_manifest_def)
  have "select_finalizable_session 11 5 (replicate 32 9) 1000 demo_uploading = Inr (Some (demo_manifest, Open), demo_uploading)"
    by (simp add: select_finalizable_session_def demo_databases session_matches_def live_at_def)
  moreover have "insert_chunk_if_absent 5 (replicate 32 9) 32 1000 demo_uploading = Inr ((), demo_uploading)"
    by (simp add: insert_chunk_if_absent_def demo_databases chunk_check_def is_bigint_def chunk_key_def Let_def)
  moreover have "insert_object_if_absent 5 (replicate 32 9) 32 demo_manifest 1000 demo_uploading = Inr (1, d1)"
    by (simp add: insert_object_if_absent_def enforce_def d1_def demo_databases schema_defs Let_def)
  moreover have "insert_object_chunk 5 (replicate 32 9) 0 (replicate 32 9) 0 32 1000 d1 = Inr ((), d2)"
    by (simp add: insert_object_chunk_def enforce_def d1_def d2_def demo_databases schema_defs)
  moreover have "add_references 1 5 (replicate 32 9) 1000 d2 = Inr ((), d3)"
    by (simp add: add_references_def enforce_def d2_def d3_def demo_databases schema_defs)
  moreover have "finalize_session 11 1000 d3 = Inr ((), demo_published)"
    by (simp add: finalize_session_def enforce_def d3_def demo_databases schema_defs)
  ultimately show ?thesis
    using demo_validate m
    by (simp add: publish_manifest_def publish_body_def link_chunk_def run_defs i64_try_from_def i32_try_from_def)
      (simp add: demo_world_def fresh_world_def)
qed

theorem publication_is_atomic_witness:
  "published demo_deps 5 11 demo_manifest demo_uploading demo_published \<and> (5, replicate 32 9) \<notin> object_keys demo_uploading"
  using publication_is_atomic [OF demo_json _ demo_publish] by (auto simp: demo_manifest_def)

theorem publication_errors_witness:
  "fst (publish_manifest demo_deps 5 12 demo_manifest (demo_world demo_uploading))
     = Inl (api_error_new 404 ''upload session not found'')"
proof -
  have "select_finalizable_session 12 5 oid now demo_uploading = Inr (None, demo_uploading)" for oid now
    by (simp add: select_finalizable_session_def demo_databases session_matches_def)
  then obtain e w' where run: "publish_manifest demo_deps 5 12 demo_manifest (demo_world demo_uploading) = (Inl e, w')"
      and "status e = 404"
    using demo_validate by (simp add: publish_manifest_def publish_body_def run_defs api_error_new_def)
  then show ?thesis using publication_errors [OF demo_validate _ run] by (auto simp: api_error_new_def)
qed

section \<open>Finalization\<close>

lemma session_id_unique:
  assumes "schema_ok d" "s \<in> set (upload_sessions d)" "s' \<in> set (upload_sessions d)" "ses_id s = ses_id s'"
  shows "s = s'"
  using assms by (auto simp: schema_ok_def uniques_ok_def distinct_map dest: inj_onD)

lemma loads_quiet:
  assumes "quiet w" "load_finalizable_upload D r oid u w = (x, w')"
  shows "quiet w'" "db w' = db w" "store w' = store w"
proof -
  show "quiet w'" using keepsD [OF keeps_quiet [OF loads_local(5)] assms] .
  show "db w' = db w" using keeps_dbD [OF loads_local(4) assms] .
  show "store w' = store w" using keeps_storeD [OF loads_local(6) assms(2)] .
qed

lemma reads_quiet:
  assumes "quiet w" "read_all D cv r cs acc w = (x, w')"
  shows "quiet w'" "db w' = db w"
proof -
  show "quiet w'" using keepsD [OF keeps_quiet [OF reads_local(4)] assms] .
  show "db w' = db w" using keeps_dbD [OF reads_local(3) assms] .
qed

lemma finalize_cdc_steps:
  assumes "finalize_cdc D A ow rp ot u hs w = (Inr st, w')"
  obtains ident w1 oid r w2 m fin w3 where "authenticate D A hs ow rp Write w = (Inr ident, w1)" "parse_oid D ot = Inr oid"
    "repository_id ow rp w1 = (Inr r, w2)" "load_finalizable_upload D r oid u w2 = (Inr (m, fin), w3)" "st = 204"
    "if fin then w' = w3 else (\<exists>content w4 p w5. read_all D (missing_chunks D) r (chunks m) [] w3 = (Inr content, w4)
       \<and> sha256 D content = oid \<and> publish_manifest D r u m w4 = (Inr p, w5) \<and> db w' = db w5)"
proof -
  from assms obtain ident w1 oid r w2 m fin w3 where steps: "authenticate D A hs ow rp Write w = (Inr ident, w1)"
    "parse_oid D ot = Inr oid" "repository_id ow rp w1 = (Inr r, w2)" "load_finalizable_upload D r oid u w2 = (Inr (m, fin), w3)"
    and rest: "(if fin then ret 204 else
       andthen (read_all D (missing_chunks D) r (chunks m) []) (\<lambda>content.
       andthen (guard_err (sha256 D content \<noteq> oid) (api_error_new 422 ''object SHA-256 mismatch'')) (\<lambda>_.
       andthen (publish_manifest D r u m) (\<lambda>published.
       andthen (if published then bump (\<lambda>mt. mt\<lparr>logical_uploaded := logical_uploaded mt + object_size m\<rparr>)
                else ret ()) (\<lambda>_. ret 204))))) w3 = (Inr st, w')"
    unfolding finalize_cdc_def
    by (auto simp: andthen_ok [of acquire_permit] andthen_ok [of "authenticate _ _ _ _ _ _"] andthen_ok [of "of_result _"]
        andthen_ok [of "repository_id _ _"] andthen_ok [of "load_finalizable_upload _ _ _ _"] acquire_permit_ok of_result_ok
        split: prod.splits)
  have "st = 204 \<and> (if fin then w' = w3 else (\<exists>content w4 p w5. read_all D (missing_chunks D) r (chunks m) [] w3 = (Inr content, w4)
       \<and> sha256 D content = oid \<and> publish_manifest D r u m w4 = (Inr p, w5) \<and> db w' = db w5))"
  proof (cases fin)
    case True
    then show ?thesis using rest by (simp add: ret_ok)
  next
    case False
    with rest obtain content w4 p w5 where "read_all D (missing_chunks D) r (chunks m) [] w3 = (Inr content, w4)"
      "sha256 D content = oid" "publish_manifest D r u m w4 = (Inr p, w5)" "db w' = db w5" "st = 204"
      by (auto simp: andthen_ok guard_err_ok ret_ok bump_ok split: if_splits)
    then show ?thesis using False by auto
  qed
  then show thesis using that steps by blast
qed

lemma finalize_cdc_outcome:
  assumes "object_store D contents" "json_roundtrip D" "quiet w" "catalog_ok D (db w)"
    "finalize_cdc D A owner repository oid_text upload headers w = (Inr st, w')"
  shows "st = 204 \<and> (\<exists>oid r s m. parse_oid D oid_text = Inr oid \<and> s \<in> set (upload_sessions (db w))
    \<and> (\<exists>row \<in> set (repositories (db w)). repo_id row = r \<and> repo_owner row = owner \<and> repo_name row = repository)
    \<and> session_matches upload r (as_bytes oid) s \<and> from_value D (ses_manifest s) = Inr m \<and> object_oid m = oid
    \<and> (if ses_state s = Finalized then db w' = db w
       else validate m = Inr () \<and> published D r upload m (db w) (db w')
         \<and> (\<exists>bs. present D contents (store w) r (chunks m) bs \<and> sha256 D (concat bs) = oid)))"
proof -
  from assms(5) obtain ident w1 oid r w2 m fin w3 where
    au: "authenticate D A headers owner repository Write w = (Inr ident, w1)" and p: "parse_oid D oid_text = Inr oid"
    and rid: "repository_id owner repository w1 = (Inr r, w2)"
    and load: "load_finalizable_upload D r oid upload w2 = (Inr (m, fin), w3)" and st: "st = 204"
    and rest: "if fin then w' = w3 else (\<exists>content w4 p w5. read_all D (missing_chunks D) r (chunks m) [] w3 = (Inr content, w4)
       \<and> sha256 D content = oid \<and> publish_manifest D r upload m w4 = (Inr p, w5) \<and> db w' = db w5)"
    by (rule finalize_cdc_steps)
  note q1 = authenticate_quiet [OF assms(3) au] note q2 = repository_id_quiet [OF q1(1) rid]
  note q3 = loads_quiet [OF q2(1) load]
  have "catalog_ok D (db w2)" using assms(4) q1 q2 by simp
  from load_finalizable_ok [OF q2(1) this load] q1 q2 obtain s where s: "s \<in> set (upload_sessions (db w))"
    "session_matches upload r (as_bytes oid) s" "from_value D (ses_manifest s) = Inr m" "object_oid m = oid"
    and fin: "fin \<longleftrightarrow> ses_state s = Finalized" by (auto simp: session_matches_def)
  have "if ses_state s = Finalized then db w' = db w
       else validate m = Inr () \<and> published D r upload m (db w) (db w')
         \<and> (\<exists>bs. present D contents (store w) r (chunks m) bs \<and> sha256 D (concat bs) = oid)"
  proof (cases "ses_state s = Finalized")
    case True
    then show ?thesis using rest fin q1 q2 q3 by simp
  next
    case False
    with rest fin obtain content w4 pub w5 where rd: "read_all D (missing_chunks D) r (chunks m) [] w3 = (Inr content, w4)"
      and h: "sha256 D content = oid" and pb: "publish_manifest D r upload m w4 = (Inr pub, w5)" and w': "db w' = db w5" by auto
    note q4 = reads_quiet [OF q3(1) rd]
    have d4: "db w4 = db w" using q1 q2 q3 q4 by simp
    have "\<not> (\<exists>s' \<in> set (upload_sessions (db w)). session_matches upload r (as_bytes oid) s' \<and> ses_state s' = Finalized)"
    proof
      assume "\<exists>s' \<in> set (upload_sessions (db w)). session_matches upload r (as_bytes oid) s' \<and> ses_state s' = Finalized"
      then obtain s' where s': "s' \<in> set (upload_sessions (db w))" "ses_id s = ses_id s'" "ses_state s' = Finalized"
        using s(2) by (auto simp: session_matches_def)
      from session_id_unique [OF catalog_okD(1) [OF assms(4)] s(1) s'(1,2)] s'(3) False show False by simp
    qed
    then have "validate m = Inr () \<and> published D r upload m (db w) (db w')"
      using publish_manifest_outcome [OF assms(2) q4(1) pb] d4 w' s(4) by (auto split: if_splits)
    moreover have "\<exists>bs. present D contents (store w) r (chunks m) bs \<and> sha256 D (concat bs) = oid"
      using read_all_ok [OF assms(1) rd] h q1 q2 q3 by auto
    ultimately show ?thesis using False by simp
  qed
  moreover have "\<exists>row \<in> set (repositories (db w)). repo_id row = r \<and> repo_owner row = owner \<and> repo_name row = repository"
    using repository_id_row [OF q1(1) rid] q1(2) by simp
  ultimately show ?thesis using st p s by blast
qed

text \<open>Claim C9: when \<open>finalize_cdc\<close> answers 204, the session belongs to the named repository; it had been finalized before and nothing changed, or the
  store held every chunk of the session's manifest, intact and of the right length, their concatenation has the
  object's SHA-256, and exactly this manifest was published.\<close>

theorem finalize_publishes_verified_content:
  assumes "object_store D contents" "json_roundtrip D" "quiet w" "catalog_ok D (db w)"
    "finalize_cdc D A owner repository oid_text upload headers w = (Inr st, w')"
  shows "st = 204 \<and> (\<exists>oid r s m. parse_oid D oid_text = Inr oid \<and> s \<in> set (upload_sessions (db w))
    \<and> (\<exists>row \<in> set (repositories (db w)). repo_id row = r \<and> repo_owner row = owner \<and> repo_name row = repository)
    \<and> session_matches upload r (as_bytes oid) s \<and> from_value D (ses_manifest s) = Inr m \<and> object_oid m = oid
    \<and> (if ses_state s = Finalized then db w' = db w
       else validate m = Inr () \<and> published D r upload m (db w) (db w')
         \<and> (\<exists>bs. present D contents (store w) r (chunks m) bs \<and> sha256 D (concat bs) = oid)))"
  by (rule finalize_cdc_outcome [OF assms])

lemma demo_finalize:
  "\<exists>w'. finalize_cdc demo_deps demo_app ''o'' ''r'' demo_oid_text 11 demo_headers (demo_world demo_uploading) = (Inr 204, w')
     \<and> db w' = demo_published"
proof -
  have "select_finalizable_session 11 5 (replicate 32 9) 1000 demo_uploading = Inr (Some (demo_manifest, Open), demo_uploading)"
    by (simp add: select_finalizable_session_def demo_databases session_matches_def live_at_def)
  then have "load_finalizable_upload demo_deps 5 (digest_fill 9) 11 (demo_world demo_uploading)
      = (Inr (demo_manifest, False), demo_world demo_uploading)"
    by (simp add: load_finalizable_upload_def run_defs demo_world_def fresh_world_def)
  moreover have "read_all demo_deps (missing_chunks demo_deps) 5 (chunks demo_manifest) [] (demo_world demo_uploading)
      = (Inr (replicate 32 9), demo_world demo_uploading)"
    using demo_get_verified by (simp add: read_all_def read_chunk_def run_defs demo_manifest_def demo_world_def fresh_world_def)
  ultimately show ?thesis
    using demo_publish demo_repository_id [of demo_uploading] by (simp add: finalize_cdc_def run_defs)
qed

theorem finalize_publishes_verified_content_witness:
  "published demo_deps 5 11 demo_manifest demo_uploading demo_published
   \<and> (\<exists>bs. present demo_deps mem_contents sample_store 5 (chunks demo_manifest) bs \<and> sha256 demo_deps (concat bs) = digest_fill 9)"
proof -
  from demo_finalize obtain w' where
    run: "finalize_cdc demo_deps demo_app ''o'' ''r'' demo_oid_text 11 demo_headers (demo_world demo_uploading) = (Inr 204, w')"
    and d: "db w' = demo_published" by blast
  have s: "upload_sessions demo_uploading = [demo_session Open]" by (simp add: demo_databases)
  show ?thesis
    using finalize_publishes_verified_content [OF demo.object_store_axioms demo_json _ _ run] d s demo_catalog(2)
    by (auto simp: session_matches_def demo_session_def)
qed

end
