(* ===== verification/Collection.thy ===== *)
theory Collection
  imports Publication
begin

text \<open>
  What garbage collection does, on top of the invariants of \<open>Catalog\<close> and \<open>Integrity\<close>: the candidate proof from
  the two newest complete snapshots, atomic snapshots, staging, one round and the termination of
  \<open>collect_due\<close>, and what the drain of the chunk queue deletes, including the case in which it cannot make progress.
\<close>

section \<open>The candidate proof\<close>

definition complete_epochs :: "'j database \<Rightarrow> uuid \<Rightarrow> epoch_row set" where
  "complete_epochs d r = {e \<in> set (reachability_epochs d). ep_repo e = r \<and> complete e}"

definition reached :: "'j database \<Rightarrow> epoch_row \<Rightarrow> bytes \<Rightarrow> bool" where
  "reached d e oid \<longleftrightarrow> (\<exists>ro \<in> set (reachable_objects d). ro_epoch ro = ep_id e \<and> ro_oid ro = oid)"

text \<open>\<open>e1\<close> and \<open>e2\<close> are the two newest complete snapshots of the repository.\<close>

definition newest_two :: "'j database \<Rightarrow> uuid \<Rightarrow> epoch_row \<Rightarrow> epoch_row \<Rightarrow> bool" where
  "newest_two d r e1 e2 \<longleftrightarrow> e1 \<in> complete_epochs d r \<and> e2 \<in> complete_epochs d r \<and> ep_id e1 \<noteq> ep_id e2
     \<and> (\<forall>e \<in> complete_epochs d r. e \<noteq> e1 \<longrightarrow> e \<noteq> e2 \<longrightarrow> epoch_order e \<le> epoch_order e1 \<and> epoch_order e \<le> epoch_order e2)"

definition candidate :: "'j database \<Rightarrow> uuid \<Rightarrow> 'j object_row \<Rightarrow> bool" where
  "candidate d r o' \<longleftrightarrow> o' \<in> set (objects d) \<and> obj_repo o' = r
     \<and> (\<exists>e1 e2. newest_two d r e1 e2 \<and> \<not> reached d e1 (obj_oid o') \<and> \<not> reached d e2 (obj_oid o'))
     \<and> object_key o' \<notin> set (map tombstone_key (object_tombstones d))"

lemma take_sorted_desc:
  assumes "ys = rev (sort_key k xs)" "x \<in> set (take n ys)" "y \<in> set xs" "y \<notin> set (take n ys)"
  shows "k y \<le> k x"
proof -
  have "sorted_wrt (\<lambda>a b. k b \<le> k a) ys"
    using sorted_sort_key [of k xs] unfolding assms(1) sorted_wrt_rev sorted_map .
  then have "sorted_wrt (\<lambda>a b. k b \<le> k a) (take n ys @ drop n ys)" by simp
  moreover have "y \<in> set (take n ys @ drop n ys)" using assms(1,3) by simp
  then have "y \<in> set (drop n ys)" using assms(4) by (metis Un_iff set_append)
  ultimately show ?thesis using assms(2) unfolding sorted_wrt_append by blast
qed

lemma latest_epochs_newest:
  assumes "uniques_ok d" "latest_epochs d r = [e1, e2]"
  shows "newest_two d r e1 e2"
proof -
  let ?xs = "filter (\<lambda>e. ep_repo e = r \<and> complete e) (reachability_epochs d)"
  let ?ys = "rev (sort_key epoch_order ?xs)"
  have t: "take 2 ?ys = [e1, e2]" using assms(2) by (simp add: latest_epochs_def)
  have "set (take 2 ?ys) \<subseteq> set ?ys" by (rule set_take_subset)
  then have "set [e1, e2] \<subseteq> set ?xs" unfolding t by simp
  moreover have "distinct (map ep_id ?ys)"
  proof -
    have "distinct (map ep_id (reachability_epochs d))" using assms(1) by (simp add: uniques_ok_def)
    then have "distinct ?xs" "inj_on ep_id (set ?xs)" by (auto simp: distinct_map intro: inj_on_subset)
    then show ?thesis by (simp add: distinct_map)
  qed
  then have "distinct (take 2 (map ep_id ?ys))" by simp
  then have "distinct (map ep_id [e1, e2])" unfolding take_map t .
  moreover have "epoch_order e \<le> epoch_order x" if "e \<in> set ?xs" "e \<notin> set [e1, e2]" "x \<in> set [e1, e2]" for e x
    by (rule take_sorted_desc [OF refl, of x 2 epoch_order ?xs e]) (use that t in auto)
  ultimately show ?thesis by (auto simp: newest_two_def complete_epochs_def)
qed

lemma epoch_order_inj:
  assumes "uniques_ok d" "e \<in> complete_epochs d r" "e' \<in> complete_epochs d r" "epoch_order e = epoch_order e'"
  shows "e = e'"
proof -
  have "ep_id e = ep_id e'" using assms(4) by (auto simp: epoch_order_def split: option.splits)
  moreover have "inj_on ep_id (set (reachability_epochs d))" using assms(1) by (simp add: uniques_ok_def distinct_map)
  ultimately show ?thesis using assms(2,3) by (auto simp: complete_epochs_def dest: inj_onD)
qed

lemma newest_two_subset:
  assumes u: "uniques_ok d" and a: "newest_two d r a b" and x: "newest_two d r x y"
  shows "{a, b} \<subseteq> {x, y}"
proof -
  have one: "c \<in> {x, y}" if "c \<in> {a, b}" for c
  proof (rule ccontr)
    assume out: "c \<notin> {x, y}"
    have c: "c \<in> complete_epochs d r" using that a by (auto simp: newest_two_def)
    have "x \<noteq> y" using x by (auto simp: newest_two_def)
    with that out have "\<not> {x, y} \<subseteq> {a, b}" by blast
    then obtain z where z: "z \<in> {x, y}" "z \<notin> {a, b}" by blast
    have "epoch_order c \<le> epoch_order z" using x z(1) c out unfolding newest_two_def by blast
    moreover have zc: "z \<in> complete_epochs d r" using x z(1) unfolding newest_two_def by blast
    then have "epoch_order z \<le> epoch_order c" using a z(2) that unfolding newest_two_def by blast
    ultimately have "epoch_order c = epoch_order z" by (rule antisym)
    then have "c = z" by (rule epoch_order_inj [OF u c zc])
    then show False using z(1) out by blast
  qed
  then show ?thesis by blast
qed

lemma latest_epochs_length:
  assumes "newest_two d r e1 e2"
  shows "length (latest_epochs d r) = 2"
proof -
  let ?xs = "filter (\<lambda>e. ep_repo e = r \<and> complete e) (reachability_epochs d)"
  have "{e1, e2} \<subseteq> set ?xs" "e1 \<noteq> e2" using assms by (auto simp: newest_two_def complete_epochs_def)
  then have "card {e1, e2} \<le> card (set ?xs)" by (intro card_mono) auto
  then have "2 \<le> length ?xs" using \<open>e1 \<noteq> e2\<close> card_length [of ?xs] by simp
  then show ?thesis by (simp add: latest_epochs_def)
qed

text \<open>The query selects exactly the candidates, in ascending order of identity.\<close>

lemma candidate_iff:
  assumes u: "uniques_ok d"
  shows "candidate d r o' \<longleftrightarrow> o' \<in> set (objects d) \<and> obj_repo o' = r \<and> length (latest_epochs d r) = 2
     \<and> \<not> (\<exists>ro \<in> set (reachable_objects d). ro_epoch ro \<in> set (map ep_id (latest_epochs d r)) \<and> ro_oid ro = obj_oid o')
     \<and> \<not> (\<exists>t \<in> set (object_tombstones d). ts_repo t = obj_repo o' \<and> ts_oid t = obj_oid o')"
proof -
  have ts: "object_key o' \<notin> set (map tombstone_key (object_tombstones d)) \<longleftrightarrow>
      \<not> (\<exists>t \<in> set (object_tombstones d). ts_repo t = obj_repo o' \<and> ts_oid t = obj_oid o')"
    by (auto simp: object_key_def tombstone_key_def image_iff)
  have ep: "(\<exists>e1 e2. newest_two d r e1 e2 \<and> \<not> reached d e1 oid \<and> \<not> reached d e2 oid) \<longleftrightarrow>
      length (latest_epochs d r) = 2
      \<and> \<not> (\<exists>ro \<in> set (reachable_objects d). ro_epoch ro \<in> set (map ep_id (latest_epochs d r)) \<and> ro_oid ro = oid)"
    (is "?L \<longleftrightarrow> ?R") for oid
  proof
    assume ?L
    then obtain e1 e2 where e: "newest_two d r e1 e2" "\<not> reached d e1 oid" "\<not> reached d e2 oid" by blast
    then obtain x y where l: "latest_epochs d r = [x, y]"
      using latest_epochs_length [OF e(1)] by (auto simp: numeral_2_eq_2 length_Suc_conv)
    have "{x, y} \<subseteq> {e1, e2}"
      by (rule newest_two_subset [OF u latest_epochs_newest [OF u l] e(1)])
    then show ?R using e l by (auto simp: reached_def)
  next
    assume r: ?R
    then obtain x y where l: "latest_epochs d r = [x, y]" by (auto simp: numeral_2_eq_2 length_Suc_conv)
    have "newest_two d r x y" by (rule latest_epochs_newest [OF u l])
    then show ?L using r l by (auto simp: reached_def)
  qed
  show ?thesis unfolding candidate_def ts ep by blast
qed

lemma select_candidates_run:
  assumes "uniques_ok d"
  shows "select_candidates r now d =
    Inr (map (\<lambda>o'. (obj_oid o', obj_size o')) (sort_key obj_oid (filter (candidate d r) (objects d))), d)"
proof -
  have "filter (\<lambda>o'. obj_repo o' = r \<and> length (latest_epochs d r) = 2
          \<and> \<not> (\<exists>ro \<in> set (reachable_objects d). ro_epoch ro \<in> set (map ep_id (latest_epochs d r)) \<and> ro_oid ro = obj_oid o')
          \<and> \<not> (\<exists>t \<in> set (object_tombstones d). ts_repo t = obj_repo o' \<and> ts_oid t = obj_oid o')) (objects d)
    = filter (candidate d r) (objects d)"
    by (rule filter_cong [OF refl]) (simp only: candidate_iff [OF assms] simp_thms)
  then show ?thesis by (simp add: select_candidates_def Let_def)
qed

lemma decode_candidate_ok:
  assumes "object_check o'"
  shows "decode_candidate (obj_oid o', obj_size o') =
    Inr \<lparr>cand_oid = from_bytes (obj_oid o'), cand_size = word_of_int (obj_size o')\<rparr>"
  using assms by (auto simp: decode_candidate_def digest_try_from_def object_check_def is_bigint_def)

lemma collect_results_map: "collect_results (map (\<lambda>x. Inr (f x)) xs) = Inr (map f xs)"
  by (induction xs) simp_all

definition as_candidate :: "'j object_row \<Rightarrow> gc_candidate" where
  "as_candidate o' = \<lparr>cand_oid = from_bytes (obj_oid o'), cand_size = word_of_int (obj_size o')\<rparr>"

lemma dry_run_result:
  assumes s: "schema_ok d" and q: "quiet w" "db w = d"
  shows "case dry_run r w of (res, w') \<Rightarrow> db w' = d \<and>
    (res = Inl Unavailable \<or> res = Inr (map as_candidate (sort_key obj_oid (filter (candidate d r) (objects d)))))"
proof -
  let ?os = "sort_key obj_oid (filter (candidate d r) (objects d))"
  have u: "uniques_ok d" using s by (simp add: schema_ok_def)
  have chk: "object_check o'" if "o' \<in> set ?os" for o'
    using that s by (auto simp: schema_ok_def checks_ok_def list_all_iff)
  have "map decode_candidate (map (\<lambda>o'. (obj_oid o', obj_size o')) ?os) = map (\<lambda>o'. Inr (as_candidate o')) ?os"
    unfolding map_map by (rule map_cong [OF refl]) (simp add: as_candidate_def decode_candidate_ok chk del: set_sort)
  then have dec: "collect_results (map decode_candidate (map (\<lambda>o'. (obj_oid o', obj_size o')) ?os)) = Inr (map as_candidate ?os)"
    by (simp only: collect_results_map)
  obtain ev w1 where t: "take_event w = (ev, w1)" by (cases "take_event w")
  have "interference ev = (\<lambda>d. d)" using take_event_frame(7) [OF t] q(1) by (auto simp: quiet_def)
  then show ?thesis
    using t take_event_frame(1) [OF t] q(2) dec select_candidates_run [OF u, of r]
    by (auto simp: dry_run_def andthen_def exec_pool_def Let_def of_result_def split: if_splits)
qed

text \<open>Claim C19: the dry run proposes exactly the objects absent from both of the two newest complete snapshots of the
  repository and not yet staged, each with its stored size, in ascending order; with fewer than two complete
  snapshots it proposes nothing.  It never reports corrupt metadata, changes nothing, and fails only
  when the database does.\<close>

theorem dry_run_exact:
  assumes "schema_ok (db w)" "quiet w" "dry_run r w = (res, w')"
  shows "db w' = db w \<and> (res = Inl Unavailable \<or> (\<exists>cs. res = Inr cs \<and> sorted (map (\<lambda>c. as_bytes (cand_oid c)) cs)
    \<and> (\<forall>oid size'. \<lparr>cand_oid = oid, cand_size = size'\<rparr> \<in> set cs \<longleftrightarrow>
         (\<exists>o'. candidate (db w) r o' \<and> as_bytes oid = obj_oid o' \<and> int (unat size') = obj_size o'))))"
proof -
  let ?cs = "map as_candidate (sort_key obj_oid (filter (candidate (db w) r) (objects (db w))))"
  note run = dry_run_result [OF assms(1,2) refl, of r, unfolded assms(3), simplified]
  have chk: "object_check o'" if "candidate (db w) r o'" for o'
    using that assms(1) by (auto simp: candidate_def schema_ok_def checks_ok_def list_all_iff)
  have key: "as_bytes (cand_oid (as_candidate o')) = obj_oid o'" "int (unat (cand_size (as_candidate o'))) = obj_size o'"
    if "candidate (db w) r o'" for o'
    using chk [OF that]
    by (simp_all add: as_candidate_def as_bytes_from_bytes object_check_def is_bigint_def uint_word_of_int)
  have mem: "\<lparr>cand_oid = oid, cand_size = size'\<rparr> \<in> set ?cs \<longleftrightarrow>
      (\<exists>o'. candidate (db w) r o' \<and> as_bytes oid = obj_oid o' \<and> int (unat size') = obj_size o')" for oid size'
  proof
    assume "\<lparr>cand_oid = oid, cand_size = size'\<rparr> \<in> set ?cs"
    then obtain o' where o: "candidate (db w) r o'" "\<lparr>cand_oid = oid, cand_size = size'\<rparr> = as_candidate o'" by auto
    from key [OF o(1)] show "\<exists>o'. candidate (db w) r o' \<and> as_bytes oid = obj_oid o' \<and> int (unat size') = obj_size o'"
      unfolding o(2) [symmetric] using o(1) by auto
  next
    assume "\<exists>o'. candidate (db w) r o' \<and> as_bytes oid = obj_oid o' \<and> int (unat size') = obj_size o'"
    then obtain o' where o: "candidate (db w) r o'" "as_bytes oid = obj_oid o'" "int (unat size') = obj_size o'" by blast
    then have "as_bytes (cand_oid (as_candidate o')) = as_bytes oid" "int (unat (cand_size (as_candidate o'))) = int (unat size')"
      using key [OF o(1)] by simp_all
    then have "as_candidate o' = \<lparr>cand_oid = oid, cand_size = size'\<rparr>"
      by (simp add: as_bytes_inject word_uint_eq_iff)
    moreover have "o' \<in> set (objects (db w))" using o(1) by (simp add: candidate_def)
    ultimately show "\<lparr>cand_oid = oid, cand_size = size'\<rparr> \<in> set ?cs" using o(1) by (auto simp: image_iff intro!: exI [of _ o'])
  qed
  have "map (\<lambda>c. as_bytes (cand_oid c)) ?cs = map obj_oid (sort_key obj_oid (filter (candidate (db w) r) (objects (db w))))"
    unfolding map_map by (rule map_cong [OF refl]) (simp add: key(1))
  then have "sorted (map (\<lambda>c. as_bytes (cand_oid c)) ?cs)" by (simp only: sorted_sort_key)
  then show ?thesis using run mem by blast
qed

definition demo_epoch :: "uuid \<Rightarrow> time \<Rightarrow> epoch_row" where
  "demo_epoch i t = \<lparr>ep_id = i, ep_repo = 5, ref_fingerprint = ''f'', complete = True, completed_at = Some t\<rparr>"

definition demo_snapshots :: "object_manifest database" where
  "demo_snapshots = demo_published\<lparr>reachability_epochs := [demo_epoch 21 100, demo_epoch 22 200]\<rparr>"

lemma demo_snapshots_schema: "schema_ok demo_snapshots"
  by (simp add: demo_snapshots_def demo_epoch_def demo_databases schema_defs)

lemma demo_dry_run:
  "dry_run 5 (demo_world demo_snapshots) = (Inr [\<lparr>cand_oid = digest_fill 9, cand_size = 32\<rparr>], demo_world demo_snapshots)"
proof -
  have "select_candidates 5 1000 demo_snapshots = Inr ([(replicate 32 9, 32)], demo_snapshots)"
    by (simp add: select_candidates_def latest_epochs_def demo_snapshots_def demo_epoch_def demo_databases Let_def)
  moreover have "decode_candidate (replicate 32 9, 32) = Inr \<lparr>cand_oid = digest_fill 9, cand_size = 32\<rparr>"
    by (simp add: decode_candidate_def digest_try_from_def digest_fill_def)
  ultimately show ?thesis
    by (simp add: dry_run_def run_defs demo_world_def fresh_world_def)
qed

theorem dry_run_exact_witness: "\<exists>o'. candidate demo_snapshots 5 o' \<and> obj_oid o' = replicate 32 9 \<and> obj_size o' = 32"
proof -
  from dry_run_exact [OF _ _ demo_dry_run] demo_snapshots_schema
  have "\<forall>oid size' :: u64. (oid = digest_fill 9 \<and> size' = 32) =
      (\<exists>o'. candidate demo_snapshots 5 o' \<and> as_bytes oid = obj_oid o' \<and> int (unat size') = obj_size o')" by simp
  from this [THEN spec, THEN spec, of "digest_fill 9" 32] show ?thesis by auto
qed

section \<open>Snapshots and staging\<close>

lemma exec_txD:
  assumes "exec_tx st w = (Inr x, w')"
  shows "st (tx_now w) (db w) = Inr (x, db w') \<and> tx_now w' = tx_now w \<and> store w' = store w"
  using assms by (auto simp: run_ok take_event_frame)

lemma insert_reachable_loop:
  assumes "for_each (\<lambda>oid. exec_tx (insert_reachable e (as_bytes oid))) oids w = (Inr u, w')"
  shows "db w' = (db w)\<lparr>reachable_objects := reachable_objects (db w) @ map (\<lambda>oid. \<lparr>ro_epoch = e, ro_oid = as_bytes oid\<rparr>) oids\<rparr>
    \<and> tx_now w' = tx_now w"
  using assms
proof (induction oids arbitrary: w)
  case Nil
  then show ?case by (simp add: ret_ok)
next
  case (Cons x xs)
  then obtain w1 where first: "exec_tx (insert_reachable e (as_bytes x)) w = (Inr (), w1)"
    and rest: "for_each (\<lambda>oid. exec_tx (insert_reachable e (as_bytes oid))) xs w1 = (Inr u, w')"
    by (auto simp: andthen_ok simp del: exec_tx_ok)
  show ?case using Cons.IH [OF rest] exec_txD [OF first] by (auto simp: insert_reachable_def ok_iff)
qed

definition snapshot_recorded :: "reachability_snapshot \<Rightarrow> uuid \<Rightarrow> 'j database \<Rightarrow> 'j database \<Rightarrow> bool" where
  "snapshot_recorded sn e d d' \<longleftrightarrow> (\<exists>now. d' = d\<lparr>
     reachability_epochs := reachability_epochs d @ [\<lparr>ep_id = e, ep_repo = snap_repository sn,
        ref_fingerprint = snap_fingerprint sn, complete = True, completed_at = Some now\<rparr>],
     reachable_objects := reachable_objects d @ map (\<lambda>oid. \<lparr>ro_epoch = e, ro_oid = as_bytes oid\<rparr>) (snap_objects sn)\<rparr>)"

lemma complete_epoch_fresh:
  assumes "uniques_ok d" "reachability_epochs d = es @ [\<lparr>ep_id = e, ep_repo = r, ref_fingerprint = f, complete = False, completed_at = None\<rparr>]"
    "complete_epoch e now d = Inr (u, d')"
  shows "d' = d\<lparr>reachability_epochs := es @ [\<lparr>ep_id = e, ep_repo = r, ref_fingerprint = f, complete = True, completed_at = Some now\<rparr>]\<rparr>"
proof -
  have "ep_id x \<noteq> e" if "x \<in> set es" for x
    using assms(1,2) that by (force simp: uniques_ok_def)
  then have "map (\<lambda>x. if ep_id x = e then x\<lparr>complete := True, completed_at := Some now\<rparr> else x) es = es"
    by (simp add: map_idI)
  then show ?thesis using assms(2,3) by (simp add: complete_epoch_def ok_iff)
qed

text \<open>A reachability snapshot is recorded atomically: whatever fails, the catalogue is unchanged or holds one new
  complete epoch with exactly the submitted objects; a reported success is the latter.  No incomplete or partial
  epoch is ever visible.\<close>

theorem snapshots_are_atomic:
  assumes "quiet w" "submit_snapshot sn e w = (res, w')"
  shows "(db w' = db w \<or> snapshot_recorded sn e (db w) (db w'))
    \<and> (\<forall>x. res = Inr x \<longrightarrow> x = e \<and> snapshot_recorded sn e (db w) (db w'))"
proof -
  have body: "x = e \<and> snapshot_recorded sn e (db b1) (db b2)" if
    "andthen (exec_tx (insert_epoch e (snap_repository sn) (snap_fingerprint sn))) (\<lambda>_.
       andthen (for_each (\<lambda>oid. exec_tx (insert_reachable e (as_bytes oid))) (snap_objects sn)) (\<lambda>_.
       andthen (exec_tx (complete_epoch e)) (\<lambda>_. ret e))) b1 = (Inr x, b2)" for b1 x b2
  proof -
    from that obtain c1 c2 where a: "exec_tx (insert_epoch e (snap_repository sn) (snap_fingerprint sn)) b1 = (Inr (), c1)"
      and l: "for_each (\<lambda>oid. exec_tx (insert_reachable e (as_bytes oid))) (snap_objects sn) c1 = (Inr (), c2)"
      and c: "exec_tx (complete_epoch e) c2 = (Inr (), b2)" and x: "x = e"
      by (auto simp: andthen_ok ret_ok simp del: exec_tx_ok)
    have d1: "db c1 = (db b1)\<lparr>reachability_epochs := reachability_epochs (db b1) @ [\<lparr>ep_id = e, ep_repo = snap_repository sn,
        ref_fingerprint = snap_fingerprint sn, complete = False, completed_at = None\<rparr>]\<rparr>" "uniques_ok (db c1)"
      using exec_txD [OF a] by (auto simp: insert_epoch_def ok_iff schema_ok_def)
    note d2 = insert_reachable_loop [OF l]
    have u2: "uniques_ok (db c2)"
      using exec_txD [OF c] d2 d1 by (auto simp: complete_epoch_def ok_iff schema_ok_def uniques_ok_def comp_def)
    have "reachability_epochs (db c2) = reachability_epochs (db b1) @ [\<lparr>ep_id = e, ep_repo = snap_repository sn,
        ref_fingerprint = snap_fingerprint sn, complete = False, completed_at = None\<rparr>]" using d1 d2 by simp
    from complete_epoch_fresh [OF u2 this exec_txD [OF c, THEN conjunct1]] show ?thesis
      using d1 d2 x unfolding snapshot_recorded_def by (intro conjI exI [of _ "tx_now c1"]) simp_all
  qed
  from assms(1) assms(2) [unfolded submit_snapshot_def] show ?thesis
  proof (cases rule: transaction_quiet_cases)
    case (committed b1 b2 x)
    from body [OF committed(1)] committed(2-4) show ?thesis by auto
  qed auto
qed

theorem snapshots_are_atomic_witness:
  "snapshot_recorded \<lparr>snap_repository = 5, snap_fingerprint = ''f'', snap_objects = [digest_fill 9]\<rparr> 31 demo_published
     (db (snd (submit_snapshot \<lparr>snap_repository = 5, snap_fingerprint = ''f'', snap_objects = [digest_fill 9]\<rparr> 31
        (demo_world demo_published))))"
proof -
  let ?sn = "\<lparr>snap_repository = 5, snap_fingerprint = ''f'', snap_objects = [digest_fill 9]\<rparr>"
  have "fst (submit_snapshot ?sn 31 (demo_world demo_published)) = Inr 31"
    by (simp add: submit_snapshot_def run_defs insert_epoch_def insert_reachable_def complete_epoch_def enforce_def
        demo_databases schema_defs)
  then have "submit_snapshot ?sn 31 (demo_world demo_published) = (Inr 31, snd (submit_snapshot ?sn 31 (demo_world demo_published)))"
    by (metis prod.collapse)
  from snapshots_are_atomic [OF _ this] show ?thesis by simp
qed

text \<open>What the staging loop writes.\<close>

lemma insert_tombstones_loop:
  assumes "for_each (\<lambda>c. exec_tx (insert_tombstone r (as_bytes (cand_oid c)) n)) cs w = (Inr u, w')"
  shows "\<exists>ts. db w' = (db w)\<lparr>object_tombstones := object_tombstones (db w) @ ts\<rparr>
    \<and> (\<forall>t \<in> set ts. delete_after t = tx_now w + secs n \<and> (\<exists>c \<in> set cs. tombstone_key t = (r, as_bytes (cand_oid c))))
    \<and> (\<forall>c \<in> set cs. (r, as_bytes (cand_oid c)) \<in> set (map tombstone_key (object_tombstones (db w'))))
    \<and> tx_now w' = tx_now w"
  using assms
proof (induction cs arbitrary: w)
  case Nil
  then show ?case by (auto simp: ret_ok)
next
  case (Cons c cs)
  then obtain w1 where first: "exec_tx (insert_tombstone r (as_bytes (cand_oid c)) n) w = (Inr (), w1)"
    and rest: "for_each (\<lambda>c. exec_tx (insert_tombstone r (as_bytes (cand_oid c)) n)) cs w1 = (Inr u, w')"
    by (auto simp: andthen_ok simp del: exec_tx_ok)
  let ?t = "\<lparr>ts_repo = r, ts_oid = as_bytes (cand_oid c), delete_after = tx_now w + secs n\<rparr>"
  obtain t1 where t1: "db w1 = (db w)\<lparr>object_tombstones := object_tombstones (db w) @ t1\<rparr>" "t1 = [] \<or> t1 = [?t]"
    "(r, as_bytes (cand_oid c)) \<in> set (map tombstone_key (object_tombstones (db w1)))"
  proof (cases "(r, as_bytes (cand_oid c)) \<in> set (map tombstone_key (object_tombstones (db w)))")
    case True
    then have "db w1 = db w" using exec_txD [OF first] by (simp add: insert_tombstone_def del: set_map)
    then show ?thesis using that [of "[]"] True by simp
  next
    case False
    then have "db w1 = (db w)\<lparr>object_tombstones := object_tombstones (db w) @ [?t]\<rparr>"
      using exec_txD [OF first] by (simp add: insert_tombstone_def ok_iff del: set_map)
    then show ?thesis using that [of "[?t]"] by (simp add: tombstone_key_def)
  qed
  from Cons.IH [OF rest] obtain ts where ts: "db w' = (db w1)\<lparr>object_tombstones := object_tombstones (db w1) @ ts\<rparr>"
    "\<forall>t \<in> set ts. delete_after t = tx_now w1 + secs n \<and> (\<exists>c \<in> set cs. tombstone_key t = (r, as_bytes (cand_oid c)))"
    "\<forall>c \<in> set cs. (r, as_bytes (cand_oid c)) \<in> set (map tombstone_key (object_tombstones (db w')))" "tx_now w' = tx_now w1"
    by blast
  have now: "tx_now w1 = tx_now w" using exec_txD [OF first] by simp
  show ?case
  proof (intro exI [of _ "t1 @ ts"] conjI)
    show "db w' = (db w)\<lparr>object_tombstones := object_tombstones (db w) @ t1 @ ts\<rparr>" using ts(1) t1(1) by simp
    show "\<forall>t\<in>set (t1 @ ts). delete_after t = tx_now w + secs n \<and> (\<exists>c\<in>set (c # cs). tombstone_key t = (r, as_bytes (cand_oid c)))"
      using ts(2) t1(2) now by (auto simp: tombstone_key_def)
    show "\<forall>c\<in>set (c # cs). (r, as_bytes (cand_oid c)) \<in> set (map tombstone_key (object_tombstones (db w')))"
      using ts(1,3) t1(3) by simp
    show "tx_now w' = tx_now w" using ts(4) now by simp
  qed
qed

definition staged ::
  "'j database \<Rightarrow> uuid \<Rightarrow> time \<Rightarrow> 'j database \<Rightarrow> bool" where
  "staged d r until d' \<longleftrightarrow> (\<exists>ts. d' = d\<lparr>object_tombstones := object_tombstones d @ ts\<rparr>
     \<and> (\<forall>t \<in> set ts. delete_after t = until \<and> (\<exists>o'. candidate d r o' \<and> tombstone_key t = object_key o')))"

lemma candidate_keys:
  assumes "schema_ok d" "cs = map as_candidate (sort_key obj_oid (filter (candidate d r) (objects d)))"
  shows "c \<in> set cs \<Longrightarrow> \<exists>o'. candidate d r o' \<and> (r, as_bytes (cand_oid c)) = object_key o'"
    "candidate d r o' \<Longrightarrow> \<exists>c \<in> set cs. (r, as_bytes (cand_oid c)) = object_key o'"
proof -
  have k: "(r, as_bytes (cand_oid (as_candidate o'))) = object_key o'" if "candidate d r o'" for o'
    using that assms(1)
    by (auto simp: as_candidate_def as_bytes_from_bytes object_key_def candidate_def schema_ok_def checks_ok_def
        list_all_iff object_check_def)
  show "\<exists>o'. candidate d r o' \<and> (r, as_bytes (cand_oid c)) = object_key o'" if "c \<in> set cs"
    using that k assms(2) by auto
  show "\<exists>c \<in> set cs. (r, as_bytes (cand_oid c)) = object_key o'" if "candidate d r o'"
    using k [OF that] that assms(2) by (auto simp: candidate_def)
qed

text \<open>Claim C20: staging touches nothing but tombstones and adds them only for objects that the two newest complete
  snapshots prove unreachable, each due no earlier than the full grace period after the staging transaction; when it
  reports success every candidate is staged.\<close>

theorem staging_needs_proof:
  assumes "schema_ok (db w)" "quiet w" "stage r grace w = (res, w')"
  shows "(db w' = db w \<or> staged (db w) r (tx_now w' + secs (int (unat grace))) (db w'))
    \<and> (\<forall>cs. res = Inr cs \<longrightarrow> (\<forall>o'. candidate (db w) r o' \<longrightarrow> object_key o' \<in> set (map tombstone_key (object_tombstones (db w')))))"
proof -
  obtain dr w1 where dr: "dry_run r w = (dr, w1)" by (cases "dry_run r w")
  note run = dry_run_result [OF assms(1,2) refl, of r, unfolded dr, simplified]
  have q1: "quiet w1" using keepsD [OF keeps_quiet [OF gc_operations_keep(10)] assms(2) dr] .
  show ?thesis
  proof (cases "dr = Inl Unavailable \<or> i64_try_from grace = None")
    case True
    then have "db w' = db w" "\<And>cs. res \<noteq> Inr cs"
      using assms(3) dr run by (auto simp: stage_def andthen_def of_result_def split: sum.splits)
    then show ?thesis by simp
  next
    case False
    then have n: "i64_try_from grace = Some (int (unat grace))" by (auto simp: i64_try_from_def split: if_splits)
    define cs where "cs = map as_candidate (sort_key obj_oid (filter (candidate (db w) r) (objects (db w))))"
    have d: "dr = Inr cs" "db w1 = db w" using run False by (auto simp: cs_def)
    let ?loop = "for_each (\<lambda>c. exec_tx (insert_tombstone r (as_bytes (cand_oid c)) (int (unat grace)))) cs"
    obtain tx w2 where tx: "transaction id ?loop w1 = (tx, w2)" by (cases "transaction id ?loop w1")
    have w': "w' = w2" "res = (case tx of Inl e \<Rightarrow> Inl e | Inr _ \<Rightarrow> Inr cs)"
      using assms(3) dr d n tx by (auto simp: stage_def andthen_def of_result_def ret_def split: sum.splits)
    note keys = candidate_keys [OF assms(1) cs_def]
    from q1 tx show ?thesis
    proof (cases rule: transaction_quiet_cases)
      case (committed b1 b2 x)
      have "?loop b1 = (Inr (), b2)" using committed(1) by simp
      from insert_tombstones_loop [OF this] obtain ts where
        ts: "db b2 = (db b1)\<lparr>object_tombstones := object_tombstones (db b1) @ ts\<rparr>"
        "\<forall>t \<in> set ts. delete_after t = tx_now b1 + secs (int (unat grace)) \<and> (\<exists>c \<in> set cs. tombstone_key t = (r, as_bytes (cand_oid c)))"
        "\<forall>c \<in> set cs. (r, as_bytes (cand_oid c)) \<in> set (map tombstone_key (object_tombstones (db b2)))" "tx_now b2 = tx_now b1"
        by blast
      have b: "db b1 = db w" "db w' = db b2" "tx_now w' = tx_now b1" using committed w' d ts(4) by simp_all
      have "staged (db w) r (tx_now w' + secs (int (unat grace))) (db w')"
        unfolding staged_def
      proof (intro exI [of _ ts] conjI ballI)
        show "db w' = (db w)\<lparr>object_tombstones := object_tombstones (db w) @ ts\<rparr>" using ts(1) b by simp
        fix t assume t: "t \<in> set ts"
        then show "delete_after t = tx_now w' + secs (int (unat grace))" using ts(2) b(3) by simp
        from t ts(2) obtain c where "c \<in> set cs" "tombstone_key t = (r, as_bytes (cand_oid c))" by blast
        then show "\<exists>o'. candidate (db w) r o' \<and> tombstone_key t = object_key o'" using keys(1) by metis
      qed
      moreover have "object_key o' \<in> set (map tombstone_key (object_tombstones (db w')))" if "candidate (db w) r o'" for o'
        using keys(2) [OF that] ts(3) b(2) by metis
      ultimately show ?thesis by blast
    qed (use w' d in auto)
  qed
qed

theorem staging_needs_proof_witness:
  "object_key demo_object \<in> set (map tombstone_key (object_tombstones (db (snd (stage 5 60 (demo_world demo_snapshots))))))"
proof -
  have "fst (stage 5 60 (demo_world demo_snapshots)) = Inr [\<lparr>cand_oid = digest_fill 9, cand_size = 32\<rparr>]"
    using demo_dry_run
    by (simp add: stage_def run_defs i64_try_from_def insert_tombstone_def enforce_def demo_snapshots_def demo_epoch_def
        demo_databases schema_defs)
  then have run: "stage 5 60 (demo_world demo_snapshots) = (Inr [\<lparr>cand_oid = digest_fill 9, cand_size = 32\<rparr>],
      snd (stage 5 60 (demo_world demo_snapshots)))" by (metis prod.collapse)
  have "candidate demo_snapshots 5 demo_object"
    using demo_snapshots_schema
    by (simp add: candidate_iff schema_ok_def latest_epochs_def)
      (simp add: demo_snapshots_def demo_epoch_def demo_databases)
  then show ?thesis using staging_needs_proof [OF _ _ run] demo_snapshots_schema by auto
qed

section \<open>Collecting due objects\<close>

lemma select_due_some:
  assumes "select_due r now d = Inr (Some oid, d')"
  shows "\<exists>t \<in> set (object_tombstones d). tombstone_key t = (r, oid) \<and> delete_after t \<le> now
    \<and> (\<forall>t' \<in> set (object_tombstones d). ts_repo t' = r \<longrightarrow> delete_after t \<le> delete_after t')"
proof -
  let ?xs = "filter (\<lambda>t. ts_repo t = r \<and> delete_after t \<le> now) (object_tombstones d)"
  from assms obtain t rest where s: "sort_key delete_after ?xs = t # rest" and oid: "oid = ts_oid t"
    by (auto simp: select_due_def split: list.splits)
  have els: "set ?xs = set (t # rest)" using set_sort [of delete_after ?xs] unfolding s by (rule sym)
  then have t: "t \<in> set ?xs" by simp
  have least: "delete_after t \<le> delete_after t'" if "t' \<in> set ?xs" for t'
  proof -
    have "sorted (map delete_after (t # rest))" using sorted_sort_key [of delete_after ?xs] s by simp
    moreover have "t' \<in> set (t # rest)" using that unfolding els .
    ultimately show ?thesis by auto
  qed
  have "delete_after t \<le> delete_after t'" if "t' \<in> set (object_tombstones d)" "ts_repo t' = r" for t'
    using least [of t'] t that by (cases "delete_after t' \<le> now") auto
  then show ?thesis using t oid by (intro bexI [of _ t]) (auto simp: tombstone_key_def)
qed

lemma select_due_none:
  assumes "select_due r now d = Inr (None, d')" "t \<in> set (object_tombstones d)" "ts_repo t = r"
  shows "now < delete_after t"
proof (rule ccontr)
  assume "\<not> now < delete_after t"
  then have "t \<in> set (filter (\<lambda>t. ts_repo t = r \<and> delete_after t \<le> now) (object_tombstones d))" using assms by simp
  moreover have s: "sort_key delete_after (filter (\<lambda>t. ts_repo t = r \<and> delete_after t \<le> now) (object_tombstones d)) = []"
    using assms(1) by (auto simp: select_due_def split: list.splits)
  have "set (filter (\<lambda>t. ts_repo t = r \<and> delete_after t \<le> now) (object_tombstones d)) = set []"
    using set_sort [of delete_after "filter (\<lambda>t. ts_repo t = r \<and> delete_after t \<le> now) (object_tombstones d)"] unfolding s by (rule sym)
  ultimately show False by auto
qed

text \<open>\<open>collected r now d d'\<close>: the object with the earliest due tombstone is gone, with its tombstone, and no other object.\<close>

definition collected :: "uuid \<Rightarrow> time \<Rightarrow> 'j database \<Rightarrow> 'j database \<Rightarrow> bool" where
  "collected r now d d' \<longleftrightarrow> (\<exists>t \<in> set (object_tombstones d). ts_repo t = r \<and> delete_after t \<le> now
     \<and> (\<forall>t' \<in> set (object_tombstones d). ts_repo t' = r \<longrightarrow> delete_after t \<le> delete_after t')
     \<and> objects d' = filter (\<lambda>o'. object_key o' \<noteq> tombstone_key t) (objects d)
     \<and> object_tombstones d' = filter (\<lambda>t'. tombstone_key t' \<noteq> tombstone_key t) (object_tombstones d))"

definition none_due :: "uuid \<Rightarrow> time \<Rightarrow> 'j database \<Rightarrow> bool" where
  "none_due r now d \<longleftrightarrow> (\<forall>t \<in> set (object_tombstones d). ts_repo t = r \<longrightarrow> now < delete_after t)"

lemma collect_body_now [keeps_intros]: "keeps (now_is t) (collect_body r)"
  unfolding collect_body_def release_chunk_def by (auto intro!: keeps_intros)

lemma collect_body_effect:
  assumes "collect_body r w = (Inr x, w')" "catalog_ok D (db w)"
  shows "(if x then collected r (tx_now w') (db w) (db w') else db w' = db w \<and> none_due r (tx_now w') (db w))
    \<and> catalog_ok D (db w')"
proof -
  note run = collect_body_run [OF assms]
  have now: "tx_now w' = tx_now w"
    using keepsD [OF collect_body_now, of "tx_now w" w] assms(1) by (simp add: now_is_def)
  show ?thesis
  proof (cases x)
    case True
    with run obtain oid where sel: "select_due r (tx_now w) (db w) = Inr (Some oid, db w)"
      and o: "objects (db w') = filter (\<lambda>o'. object_key o' \<noteq> (r, oid)) (objects (db w))"
      "object_tombstones (db w') = filter (\<lambda>t. tombstone_key t \<noteq> (r, oid)) (object_tombstones (db w))" by blast
    from select_due_some [OF sel] obtain t where t: "t \<in> set (object_tombstones (db w))" "tombstone_key t = (r, oid)"
      "delete_after t \<le> tx_now w" "\<forall>t' \<in> set (object_tombstones (db w)). ts_repo t' = r \<longrightarrow> delete_after t \<le> delete_after t'"
      by blast
    then have "collected r (tx_now w') (db w) (db w')"
      unfolding collected_def now using o by (intro bexI [of _ t]) (auto simp: tombstone_key_def)
    then show ?thesis using True run by simp
  next
    case False
    then have "select_due r (tx_now w) (db w) = Inr (None, db w)" "db w' = db w" using run by auto
    moreover have "none_due r (tx_now w') (db w)"
      unfolding none_due_def now using select_due_none [OF calculation(1)] by blast
    ultimately show ?thesis using False run assms(2) by simp
  qed
qed

lemma collect_one_store: "keeps (store_is s) (collect_one r)"
  unfolding collect_one_def collect_body_def release_chunk_def by (auto intro!: keeps_intros)

lemma collect_one_effect:
  assumes q: "quiet w" and c: "catalog_ok D (db w)" and run: "collect_one r w = (res, w')"
  shows "(db w' = db w \<or> collected r (tx_now w') (db w) (db w'))
    \<and> (res = Inr True \<longrightarrow> collected r (tx_now w') (db w) (db w'))
    \<and> (res = Inr False \<longrightarrow> db w' = db w \<and> none_due r (tx_now w') (db w))
    \<and> quiet w' \<and> catalog_ok D (db w') \<and> store w' = store w \<and> timely (clock w) w'"
proof -
  have q': "quiet w'" using keepsD [OF keeps_quiet [OF collect_one_keeps(2)] q run] .
  have s: "store w' = store w" by (rule keeps_storeD [OF collect_one_store run])
  have c': "catalog_ok D (db w')"
    using keeps_holdsD [OF collect_one_keeps(1) [where D = D] _ run] q c by (simp add: holds_def quiet_stable)
  have "keeps (timely (clock w)) (collect_body r)"
    unfolding collect_body_def release_chunk_def by (auto intro!: keeps_intros)
  then have t: "timely (clock w) w'"
    using transaction_timely run unfolding collect_one_def by blast
  from q run [unfolded collect_one_def] show ?thesis
  proof (cases rule: transaction_quiet_cases)
    case (committed b1 b2 x)
    have "catalog_ok D (db b1)" using c committed(2) by simp
    from collect_body_effect [OF committed(1) this] show ?thesis
      using committed(2-5) q' s c' t by (cases x) auto
  qed (use q' s c' t in auto)
qed

text \<open>One round of collection deletes exactly one object: the one whose tombstone fell due first, and never one
  whose grace period has not elapsed.  It reports that nothing is left only when no tombstone of the repository is due,
  leaves the catalogue unchanged when it fails, keeps every reference count exact, and touches no chunk.\<close>

theorem collect_round_deletes_earliest_due:
  assumes "quiet w" "catalog_ok D (db w)" "collect_one r w = (res, w')"
  shows "(db w' = db w \<or> collected r (tx_now w') (db w) (db w'))
    \<and> (res = Inr True \<longrightarrow> collected r (tx_now w') (db w) (db w'))
    \<and> (res = Inr False \<longrightarrow> db w' = db w \<and> none_due r (tx_now w') (db w))
    \<and> catalog_ok D (db w') \<and> store w' = store w"
  using collect_one_effect [OF assms] by blast

subsection \<open>Termination\<close>

definition tombstones_of :: "uuid \<Rightarrow> 'j database \<Rightarrow> nat" where
  "tombstones_of r d = length (filter (\<lambda>t. ts_repo t = r) (object_tombstones d))"

lemma collected_decreases: "collected r now d d' \<Longrightarrow> tombstones_of r d' < tombstones_of r d"
proof -
  assume "collected r now d d'"
  then obtain t where t: "t \<in> set (object_tombstones d)" "ts_repo t = r"
    "object_tombstones d' = filter (\<lambda>t'. tombstone_key t' \<noteq> tombstone_key t) (object_tombstones d)"
    unfolding collected_def by blast
  have "length (filter (\<lambda>t'. tombstone_key t' \<noteq> tombstone_key t) (filter (\<lambda>t. ts_repo t = r) (object_tombstones d)))
      < length (filter (\<lambda>t. ts_repo t = r) (object_tombstones d))"
    using t(1,2) by (intro length_filter_less [of t]) auto
  then show ?thesis unfolding tombstones_of_def t(3) by (simp add: conj_ac)
qed

lemma collect_loop_ends:
  assumes "quiet w" "catalog_ok D (db w)" "tombstones_of r (db w) < n"
  shows "fst (collect_loop n r k w) \<noteq> Inr None"
  using assms
proof (induction n arbitrary: k w)
  case (Suc n)
  obtain res w1 where run: "collect_one r w = (res, w1)" by (cases "collect_one r w")
  note e = collect_one_effect [OF Suc.prems(1,2) run]
  show ?case
  proof (cases "res = Inr True")
    case True
    then have "tombstones_of r (db w1) < n"
      using e collected_decreases [of r "tx_now w1" "db w" "db w1"] Suc.prems(3) by simp
    then have "fst (collect_loop n r (k + 1) w1) \<noteq> Inr None" using Suc.IH e by blast
    then show ?thesis using run True by (simp add: andthen_def)
  next
    case False
    then show ?thesis using run by (cases res) (auto simp: andthen_def ret_def)
  qed
qed simp

lemma collect_loop_more:
  assumes "fst (collect_loop n r k w) \<noteq> Inr None"
  shows "collect_loop (n + j) r k w = collect_loop n r k w"
  using assms
proof (induction n arbitrary: k w)
  case (Suc n)
  obtain res w1 where run: "collect_one r w = (res, w1)" by (cases "collect_one r w")
  show ?case
  proof (cases "res = Inr True")
    case True
    then have "fst (collect_loop n r (k + 1) w1) \<noteq> Inr None" using Suc.prems run by (simp add: andthen_def)
    from Suc.IH [OF this] show ?thesis using run True by (simp add: andthen_def)
  next
    case False
    then show ?thesis using run by (cases res) (auto simp: andthen_def)
  qed
qed (simp add: ret_def)

text \<open>Claim C21: \<open>collect_due\<close> terminates: with no concurrent writers, more rounds than the repository has tombstones are
  never needed, so with that fuel the model's answer is the program's, whatever fails on the way.\<close>

theorem collect_due_terminates:
  assumes "quiet w" "catalog_ok D (db w)" "tombstones_of r (db w) < n"
  shows "fst (collect_due D n r w) \<noteq> Inr None \<and> collect_due D (n + j) r w = collect_due D n r w"
proof -
  note e = collect_loop_ends [OF assms, of 0]
  have "collect_loop (n + j) r 0 w = collect_loop n r 0 w" by (rule collect_loop_more [OF e])
  moreover have "fst (collect_due D n r w) \<noteq> Inr None"
    using e by (auto simp: collect_due_def andthen_def ret_def split: prod.splits sum.splits option.splits)
  ultimately show ?thesis by (simp add: collect_due_def andthen_def)
qed

subsection \<open>Progress\<close>

text \<open>When the database answers every statement, no constraint stops the collection.\<close>

lemma gc_tx_runs: "db_script w = [] \<Longrightarrow> st (tx_now w) (db w) = Inr (x, d) \<Longrightarrow> gc_tx st w = (Inr x, w\<lparr>db := d\<rparr>)"
  by (simp add: run_defs)

lemma schema_ok_chunk_table:
  assumes "schema_ok d" "list_all chunk_check t" and keys: "map chunk_key t = map chunk_key (chunk_table d)"
  shows "schema_ok (d\<lparr>chunk_table := t\<rparr>)"
proof -
  have "map ch_repo t = map fst (map chunk_key t)" "map ch_repo (chunk_table d) = map fst (map chunk_key (chunk_table d))"
    by (simp_all add: chunk_key_def)
  then have "map ch_repo t = map ch_repo (chunk_table d)" using keys by simp
  then show ?thesis
    using assms unfolding schema_ok_def checks_ok_def uniques_ok_def foreign_keys_ok_def has_repository_def
    by (simp del: set_map list.set_map list.pred_map)
qed

lemma add_references_succeeds:
  assumes "refs_pending r (c # ps) d" "schema_ok d"
  shows "schema_ok (d\<lparr>chunk_table := map (\<lambda>k. if chunk_key k = (r, c) then k\<lparr>reference_count := reference_count k + - 1\<rparr> else k) (chunk_table d)\<rparr>)"
proof -
  let ?f = "\<lambda>k. if chunk_key k = (r, c) then k\<lparr>reference_count := reference_count k + - 1\<rparr> else k"
  have "reference_count k \<ge> 1" if "k \<in> set (chunk_table d)" "chunk_key k = (r, c)" for k
    using assms(1) that by (auto simp: refs_pending_def chunk_key_def)
  then have "chunk_check (?f k)" if "k \<in> set (chunk_table d)" for k
    using assms(2) that by (fastforce simp: schema_ok_def checks_ok_def list_all_iff chunk_check_def is_bigint_def)
  then have "list_all chunk_check (map ?f (chunk_table d))" unfolding list_all_iff set_map by blast
  moreover have "map chunk_key (map ?f (chunk_table d)) = map chunk_key (chunk_table d)" by (auto simp: chunk_key_def)
  ultimately show ?thesis by (rule schema_ok_chunk_table [OF assms(2)])
qed

lemma enqueue_succeeds:
  assumes "schema_ok d"
  shows "\<exists>d'. enqueue_if_unreferenced r c now d = Inr ((), d') \<and> schema_ok d' \<and> chunk_table d' = chunk_table d \<and> object_chunks d' = object_chunks d"
proof (cases "(\<exists>k \<in> set (chunk_table d). chunk_key k = (r, c) \<and> reference_count k = 0) \<and> (r, c) \<notin> set (map queue_key (chunk_gc_queue d))")
  case True
  then obtain k where k: "k \<in> set (chunk_table d)" "chunk_key k = (r, c)" by blast
  then have "length c = 32" "has_repository d r"
    using assms by (auto simp: schema_ok_def checks_ok_def foreign_keys_ok_def list_all_iff chunk_check_def chunk_key_def)
  then have "schema_ok (d\<lparr>chunk_gc_queue := chunk_gc_queue d @ [\<lparr>q_repo = r, q_chunk = c, queued_at = now\<rparr>]\<rparr>)"
    using assms True unfolding schema_ok_def checks_ok_def uniques_ok_def foreign_keys_ok_def has_repository_def
    by (simp add: queue_key_def [of "\<lparr>q_repo = r, q_chunk = c, queued_at = now\<rparr>"] del: set_map list.set_map list.pred_map)
  then show ?thesis using True by (simp add: enqueue_if_unreferenced_def ok_iff)
qed (use assms in \<open>auto simp: enqueue_if_unreferenced_def\<close>)

lemma release_loop_succeeds:
  assumes "db_script w = []" "refs_pending r ps (db w)" "schema_ok (db w)"
  shows "\<exists>d'. for_each (release_chunk r) ps w = (Inr (), w\<lparr>db := d'\<rparr>)"
  using assms
proof (induction ps arbitrary: w)
  case Nil
  then show ?case by (intro exI [of _ "db w"]) (simp add: ret_def)
next
  case (Cons c ps)
  define d1 where "d1 = (db w)\<lparr>chunk_table := map (\<lambda>k. if chunk_key k = (r, c) then k\<lparr>reference_count := reference_count k + - 1\<rparr> else k) (chunk_table (db w))\<rparr>"
  have s: "schema_ok d1" unfolding d1_def by (rule add_references_succeeds [OF Cons.prems(2,3)])
  have a: "gc_tx (add_references (- 1) r c) w = (Inr (), w\<lparr>db := d1\<rparr>)"
    using s by (intro gc_tx_runs Cons.prems(1)) (simp add: add_references_def ok_iff d1_def)
  from enqueue_succeeds [OF s] obtain d2 where d2: "enqueue_if_unreferenced r c (tx_now w) d1 = Inr ((), d2)" "schema_ok d2"
    "chunk_table d2 = chunk_table d1" "object_chunks d2 = object_chunks d1" by blast
  have e: "gc_tx (enqueue_if_unreferenced r c) (w\<lparr>db := d1\<rparr>) = (Inr (), w\<lparr>db := d2\<rparr>)"
    using gc_tx_runs [of "w\<lparr>db := d1\<rparr>" "enqueue_if_unreferenced r c" "()" d2] d2(1) Cons.prems(1) by simp
  have "refs_pending r ps d2"
    using release_pending [OF Cons.prems(2) d1_def] d2(3,4) by (simp add: refs_pending_def count_refs_def)
  then obtain d' where "for_each (release_chunk r) ps (w\<lparr>db := d2\<rparr>) = (Inr (), w\<lparr>db := d'\<rparr>)"
    using Cons.IH [of "w\<lparr>db := d2\<rparr>"] Cons.prems(1) d2(2) by auto
  moreover have "release_chunk r c w = (Inr (), w\<lparr>db := d2\<rparr>)" using a e by (simp add: andthen_def release_chunk_def)
  ultimately show ?case by (auto simp: andthen_def)
qed

lemma delete_object_succeeds:
  assumes "schema_ok d"
  shows "schema_ok (d\<lparr>objects := filter (\<lambda>o'. object_key o' \<noteq> (r, oid)) (objects d),
      object_chunks := filter (\<lambda>l. (oc_repo l, oc_oid l) \<noteq> (r, oid)) (object_chunks d),
      object_tombstones := filter (\<lambda>t. tombstone_key t \<noteq> (r, oid)) (object_tombstones d)\<rparr>)"
proof -
  have keys: "set (map object_key (filter (\<lambda>o'. object_key o' \<noteq> (r, oid)) (objects d))) = set (map object_key (objects d)) - {(r, oid)}" by auto
  have repos: "x \<in> set (map obj_repo (filter P (objects d))) \<Longrightarrow> x \<in> set (map obj_repo (objects d))" for x P by auto
  show ?thesis
    using assms unfolding schema_ok_def checks_ok_def uniques_ok_def foreign_keys_ok_def has_repository_def
    by (auto simp: keys list_all_iff distinct_map_filter simp del: set_map list.set_map dest: repos)
qed

lemma collect_one_succeeds:
  assumes "db_script w = []" "catalog_ok D (db w)"
  shows "\<exists>x d'. collect_one r w = (Inr x, w\<lparr>tx_now := clock w, db := d'\<rparr>)"
proof -
  let ?w = "w\<lparr>tx_now := clock w\<rparr>"
  have w: "db_script ?w = []" "db ?w = db w" using assms(1) by simp_all
  have "\<exists>x d'. collect_body r ?w = (Inr x, ?w\<lparr>db := d'\<rparr>)"
  proof (cases "sort_key delete_after (filter (\<lambda>t. ts_repo t = r \<and> delete_after t \<le> clock w) (object_tombstones (db w)))")
    case Nil
    then have "collect_body r ?w = (Inr False, ?w\<lparr>db := db w\<rparr>)" using w by (simp add: collect_body_def run_defs advisory_lock_def select_due_def)
    then show ?thesis by blast
  next
    case (Cons t ts)
    define d where "d = (db w)\<lparr>objects := filter (\<lambda>o'. object_key o' \<noteq> (r, ts_oid t)) (objects (db w)),
      object_chunks := filter (\<lambda>l. (oc_repo l, oc_oid l) \<noteq> (r, ts_oid t)) (object_chunks (db w)),
      object_tombstones := filter (\<lambda>t'. tombstone_key t' \<noteq> (r, ts_oid t)) (object_tombstones (db w))\<rparr>"
    have s: "schema_ok d" unfolding d_def by (rule delete_object_succeeds [OF catalog_okD(1) [OF assms(2)]])
    have p: "refs_pending r (map oc_chunk (links (db w) r (ts_oid t))) d"
      by (rule delete_object_pending [OF catalog_okD(2) [OF assms(2)] d_def])
    have "\<exists>d'. for_each (release_chunk r) (map oc_chunk (links (db w) r (ts_oid t))) (?w\<lparr>db := d\<rparr>) = (Inr (), ?w\<lparr>db := d\<rparr>\<lparr>db := d'\<rparr>)"
      by (rule release_loop_succeeds) (use assms(1) p s in simp_all)
    moreover have "gc_tx (delete_object r (ts_oid t)) ?w = (Inr (), ?w\<lparr>db := d\<rparr>)"
      using s by (intro gc_tx_runs w(1)) (simp add: delete_object_def ok_iff d_def)
    moreover have "gc_tx (advisory_lock r) ?w = (Inr (), ?w)" "gc_tx (select_due r) ?w = (Inr (Some (ts_oid t)), ?w)"
      "gc_tx (select_object_chunks r (ts_oid t)) ?w = (Inr (map oc_chunk (links (db w) r (ts_oid t))), ?w)"
      using w Cons by (simp_all add: run_defs advisory_lock_def select_due_def select_object_chunks_def)
    ultimately show ?thesis by (auto simp: collect_body_def andthen_def ret_def)
  qed
  then show ?thesis using assms(1) by (auto simp: collect_one_def run_defs)
qed

text \<open>The loop ends with nothing due, and every tombstone that went took its object along.\<close>

lemma collect_loop_collects:
  assumes "db_script w = []" "catalog_ok D (db w)" "tombstones_of r (db w) < n"
  shows "\<exists>m w'. collect_loop n r k w = (Inr (Some m), w') \<and> db_script w' = [] \<and> none_due r (clock w) (db w')
    \<and> (\<forall>t \<in> set (object_tombstones (db w)). t \<in> set (object_tombstones (db w')) \<or> tombstone_key t \<notin> object_keys (db w'))
    \<and> set (objects (db w')) \<subseteq> set (objects (db w))"
  using assms
proof (induction n arbitrary: k w)
  case (Suc n)
  have q: "quiet w" using Suc.prems(1) by (simp add: quiet_def)
  from collect_one_succeeds [OF Suc.prems(1,2)] obtain x d' where run: "collect_one r w = (Inr x, w\<lparr>tx_now := clock w, db := d'\<rparr>)" by blast
  note e = collect_one_effect [OF q Suc.prems(2) run]
  show ?case
  proof (cases x)
    case False
    then show ?thesis using run e Suc.prems(1) by (simp add: andthen_def ret_def)
  next
    case True
    let ?w1 = "w\<lparr>tx_now := clock w, db := d'\<rparr>"
    have c: "collected r (clock w) (db w) d'" "catalog_ok D d'" using e True by auto
    have "tombstones_of r d' < n" using collected_decreases [OF c(1)] Suc.prems(3) by simp
    from Suc.IH [of ?w1 "k + 1"] this c(2) Suc.prems(1) obtain m w' where loop: "collect_loop n r (k + 1) ?w1 = (Inr (Some m), w')"
      and l: "db_script w' = []" "none_due r (clock w) (db w')" "set (objects (db w')) \<subseteq> set (objects d')"
        "\<forall>t \<in> set (object_tombstones d'). t \<in> set (object_tombstones (db w')) \<or> tombstone_key t \<notin> object_keys (db w')" by auto
    have "t \<in> set (object_tombstones d') \<or> tombstone_key t \<notin> object_keys (db w')" if "t \<in> set (object_tombstones (db w))" for t
      using c(1) that l(3) by (fastforce simp: collected_def object_keys_def)
    moreover have "set (objects d') \<subseteq> set (objects (db w))" using c(1) by (auto simp: collected_def)
    ultimately show ?thesis using run True loop l by (auto simp: andthen_def)
  qed
qed simp

lemma drain_adds_no_object: "keeps (holds (\<lambda>d. set (objects d) \<subseteq> K)) (drain_chunk_queue D r)"
proof -
  have "st_keeps (\<lambda>d. set (objects d) \<subseteq> K) (delete_queue_entry r c)" "st_keeps (\<lambda>d. set (objects d) \<subseteq> K) (delete_chunk_row r c)" for c
    by (auto simp: st_keeps_def delete_queue_entry_def delete_chunk_row_def ok_iff)
  then show ?thesis
    unfolding drain_chunk_queue_def drain_one_def drain_body_def by (auto intro!: keeps_intros transaction_keeps keeps_ok_keeps)
qed

lemma due_objects_are_collected:
  assumes "catalog_ok D (db w)" "db_script w = []" "tombstones_of r (db w) < n"
    and "t \<in> set (object_tombstones (db w))" "ts_repo t = r" "delete_after t \<le> clock w"
  shows "tombstone_key t \<notin> object_keys (db (snd (collect_due D n r w)))"
proof -
  from collect_loop_collects [OF assms(2,1,3), of 0] obtain m w' where loop: "collect_loop n r 0 w = (Inr (Some m), w')" "db_script w' = []"
    and e: "none_due r (clock w) (db w')"
      "\<forall>t \<in> set (object_tombstones (db w)). t \<in> set (object_tombstones (db w')) \<or> tombstone_key t \<notin> object_keys (db w')" by blast
  have gone: "tombstone_key t \<notin> object_keys (db w')" using e assms(4-6) by (auto simp: none_due_def)
  obtain x w2 where drain: "drain_chunk_queue D r w' = (x, w2)" by (cases "drain_chunk_queue D r w'")
  have "set (objects (db w2)) \<subseteq> set (objects (db w'))"
    using keeps_holdsD [OF drain_adds_no_object [of "set (objects (db w'))"] _ drain] loop(2) by (simp add: holds_def stable_def)
  moreover have "db (snd (collect_due D n r w)) = db w2" using loop(1) drain by (cases x) (simp_all add: collect_due_def andthen_def ret_def)
  ultimately show ?thesis using gone by (auto simp: object_keys_def)
qed

subsection \<open>A concrete round\<close>

text \<open>The demo object is tombstoned and due; both newest snapshots list it as reachable.\<close>

definition demo_due :: "object_manifest database" where
  "demo_due = demo_snapshots\<lparr>object_tombstones := [\<lparr>ts_repo = 5, ts_oid = replicate 32 9, delete_after = 500\<rparr>],
     reachable_objects := [\<lparr>ro_epoch = 21, ro_oid = replicate 32 9\<rparr>, \<lparr>ro_epoch = 22, ro_oid = replicate 32 9\<rparr>]\<rparr>"

definition demo_collected :: "object_manifest database" where
  "demo_collected = demo_due\<lparr>objects := [], chunk_table := [demo_chunk_row 0], object_chunks := [], object_tombstones := [],
     chunk_gc_queue := [\<lparr>q_repo = 5, q_chunk = replicate 32 9, queued_at = 1000\<rparr>]\<rparr>"

lemmas demo_gc_databases = demo_due_def demo_collected_def demo_snapshots_def demo_epoch_def demo_databases

lemma demo_gc_catalog: "catalog_ok demo_deps demo_due" "catalog_ok demo_deps demo_collected"
  using demo_validate
  by (simp_all add: demo_gc_databases catalog_ok_def schema_defs refs_exact_def count_refs_def object_described_def
      session_described_def links_def link_row_def validate_iff_well_formed)
    (simp_all add: demo_manifest_def)

lemma demo_collect_one: "collect_one 5 (demo_world demo_due) = (Inr True, demo_world demo_collected)"
proof -
  define d1 where "d1 = demo_due\<lparr>objects := [], object_chunks := [], object_tombstones := []\<rparr>"
  define d2 where "d2 = d1\<lparr>chunk_table := [demo_chunk_row 0]\<rparr>"
  have "select_due 5 1000 demo_due = Inr (Some (replicate 32 9), demo_due)"
    by (simp add: select_due_def demo_gc_databases)
  moreover have "select_object_chunks 5 (replicate 32 9) 1000 demo_due = Inr ([replicate 32 9], demo_due)"
    by (simp add: select_object_chunks_def links_def demo_gc_databases)
  moreover have "delete_object 5 (replicate 32 9) 1000 demo_due = Inr ((), d1)"
    by (simp add: delete_object_def enforce_def d1_def demo_gc_databases schema_defs)
  moreover have "add_references (- 1) 5 (replicate 32 9) 1000 d1 = Inr ((), d2)"
    by (simp add: add_references_def enforce_def d1_def d2_def demo_gc_databases schema_defs)
  moreover have "enqueue_if_unreferenced 5 (replicate 32 9) 1000 d2 = Inr ((), demo_collected)"
    by (simp add: enqueue_if_unreferenced_def enforce_def d1_def d2_def demo_gc_databases schema_defs)
  ultimately show ?thesis
    by (simp add: collect_one_def collect_body_def release_chunk_def run_defs advisory_lock_def demo_world_def fresh_world_def)
qed

theorem collect_round_deletes_earliest_due_witness: "collected 5 1000 demo_due demo_collected"
  using collect_round_deletes_earliest_due [OF _ _ demo_collect_one, of demo_deps] demo_gc_catalog by simp

theorem collect_due_terminates_witness: "fst (collect_due demo_deps 2 5 (demo_world demo_due)) \<noteq> Inr None"
  using collect_due_terminates [of "demo_world demo_due" demo_deps 5 2] demo_gc_catalog
  by (simp add: tombstones_of_def demo_gc_databases)

text \<open>Claim C25: collection does not re-check reachability.  In every consistent catalogue, when the database answers and the tombstone of an object has
  fallen due, \<open>collect_due\<close> deletes the object, although both of the two newest complete snapshots of its repository list it as reachable.\<close>

theorem collection_ignores_newer_snapshots:
  assumes "catalog_ok D (db w)" "db_script w = []" "tombstones_of r (db w) < n"
    and "o' \<in> set (objects (db w))" "t \<in> set (object_tombstones (db w))" "tombstone_key t = object_key o'" "ts_repo t = r" "delete_after t \<le> clock w"
    and "newest_two (db w) r e1 e2" "reached (db w) e1 (obj_oid o')" "reached (db w) e2 (obj_oid o')"
  shows "object_key o' \<notin> object_keys (db (snd (collect_due D n r w)))"
  using due_objects_are_collected [OF assms(1-3,5,7,8)] assms(6) by simp

theorem collection_ignores_newer_snapshots_witness:
  "newest_two demo_due 5 (demo_epoch 22 200) (demo_epoch 21 100)
   \<and> reached demo_due (demo_epoch 22 200) (obj_oid demo_object) \<and> reached demo_due (demo_epoch 21 100) (obj_oid demo_object)
   \<and> demo_object \<in> set (objects demo_due)
   \<and> object_key demo_object \<notin> object_keys (db (snd (collect_due demo_deps 2 5 (demo_world demo_due))))"
proof -
  let ?t = "\<lparr>ts_repo = 5, ts_oid = replicate 32 9, delete_after = 500\<rparr>"
  have n: "newest_two demo_due 5 (demo_epoch 22 200) (demo_epoch 21 100)"
    by (auto simp: newest_two_def complete_epochs_def demo_gc_databases)
  have m: "reached demo_due (demo_epoch 22 200) (obj_oid demo_object)" "reached demo_due (demo_epoch 21 100) (obj_oid demo_object)"
    "demo_object \<in> set (objects demo_due)" "?t \<in> set (object_tombstones demo_due)" "tombstone_key ?t = object_key demo_object"
    "tombstones_of 5 demo_due < 2"
    by (simp_all add: reached_def tombstones_of_def tombstone_key_def object_key_def demo_gc_databases)
  have "object_key demo_object \<notin> object_keys (db (snd (collect_due demo_deps 2 5 (demo_world demo_due))))"
    by (rule collection_ignores_newer_snapshots [of demo_deps _ _ _ demo_object ?t "demo_epoch 22 200" "demo_epoch 21 100"])
      (use demo_gc_catalog(1) n m in \<open>simp_all add: demo_world_def fresh_world_def\<close>)
  then show ?thesis using n m by blast
qed

section \<open>Draining the chunk queue\<close>

text \<open>Claim C22: draining a queue entry deletes at most the bytes of the queued chunk, and only when no object links it and
  no open upload session has registered it; every other chunk of every repository is untouched, whatever fails.\<close>

theorem drain_deletes_only_unused_chunk:
  assumes "object_store D contents" "quiet w" "catalog_ok D (db w)" "drain_one D r raw w = (res, w')"
    "chunk_view D contents (store w') r' c' \<noteq> chunk_view D contents (store w) r' c'"
  shows "r' = r \<and> as_bytes c' = raw \<and> count_refs (db w) r raw = 0 \<and> \<not> chunk_active (db w) r raw"
proof -
  let ?ok = "\<lambda>r' c'. r' = r \<and> as_bytes c' = raw \<and> count_refs (db w) r raw = 0 \<and> \<not> chunk_active (db w) r raw"
  define G where "G = (\<lambda>s. \<forall>r' c'. chunk_view D contents s r' c' \<noteq> chunk_view D contents (store w) r' c' \<longrightarrow> ?ok r' c')"
  have "G s'" if i: "as_bytes i = raw" and z: "count_refs (db w) r raw = 0" "\<not> chunk_active (db w) r raw" and g: "G s"
    and del: "delete_chunk D s r i = (x, s')" for i s x s'
  proof -
    have "chunk_view D contents s' r' c' = chunk_view D contents s r' c'" if "(r', c') \<noteq> (r, i)" for r' c'
      using chunk_store.delete_keeps_other [OF object_store.chunk_store_laws [OF assms(1)] del that] .
    then show ?thesis using g i z unfolding G_def by (metis prod.inject)
  qed
  then have "triple (\<lambda>v. db v = db w \<and> G (store v)) (drain_body D r raw) (\<lambda>_ v. G (store v)) (\<lambda>v. G (store v))"
    by (rule drain_body_store [OF assms(3)]) assumption+
  moreover have "G (store w)" by (simp add: G_def)
  ultimately have "G (store w')"
    using transaction_store_inv [OF _ assms(2) refl _ assms(4) [unfolded drain_one_def]] by blast
  then show ?thesis using assms(5) unfolding G_def by blast
qed

lemma filter_chunks_constraints:
  assumes "schema_ok d"
  shows "checks_ok (d\<lparr>chunk_table := filter P (chunk_table d)\<rparr>)" "uniques_ok (d\<lparr>chunk_table := filter P (chunk_table d)\<rparr>)"
  using assms by (auto simp: schema_ok_def checks_ok_def uniques_ok_def list_all_iff distinct_map_filter)

text \<open>Deleting the row of an unreferenced chunk.\<close>

abbreviation without_chunk :: "uuid \<Rightarrow> bytes \<Rightarrow> 'j database \<Rightarrow> 'j database" where
  "without_chunk r raw d \<equiv> d\<lparr>chunk_table := filter (\<lambda>x. \<not> (chunk_key x = (r, raw) \<and> reference_count x = 0)) (chunk_table d)\<rparr>"

lemma without_chunk_keys:
  assumes "schema_ok d" "k \<in> set (chunk_table d)" "chunk_key k = (r, raw)" "reference_count k = 0"
  shows "chunk_key ` set (chunk_table (without_chunk r raw d)) = chunk_key ` set (chunk_table d) - {(r, raw)}"
proof -
  have "inj_on chunk_key (set (chunk_table d))" using assms(1) by (simp add: schema_ok_def uniques_ok_def distinct_map)
  then have "reference_count x = 0" if "x \<in> set (chunk_table d)" "chunk_key x = (r, raw)" for x
    using inj_onD [of chunk_key "set (chunk_table d)" x k] that assms(2-4) by simp
  then show ?thesis by auto
qed

text \<open>An unreferenced, inactive queue entry in a healthy database: what happens once the provider deleted the bytes.\<close>

lemma drain_idle_entry:
  assumes c: "catalog_ok D (db w)" and h: "db_script w = []" "k \<in> set (chunk_table (db w))" "chunk_key k = (r, as_bytes i)"
    "reference_count k = 0" "\<not> chunk_active (db w) r (as_bytes i)" "delete_chunk D (store w) r i = (Inr (), s')"
  shows "drain_one D r (as_bytes i) w =
    (case res_bind (delete_chunk_row r (as_bytes i) (clock w) (db w)) (\<lambda>(_, d1). delete_queue_entry r (as_bytes i) (clock w) d1) of
       Inl e \<Rightarrow> (Inl (GcDatabase e), w\<lparr>store := s', tx_now := clock w\<rparr>)
     | Inr (_, d2) \<Rightarrow> (Inr (), w\<lparr>store := s', tx_now := clock w, db := d2\<rparr>))"
proof -
  let ?raw = "as_bytes i"
  have uniq: "inj_on chunk_key (set (chunk_table (db w)))"
    using catalog_okD(1) [OF c] by (simp add: schema_ok_def uniques_ok_def distinct_map)
  obtain k' where k': "find (\<lambda>x. chunk_key x = (r, ?raw)) (chunk_table (db w)) = Some k'"
    using h(2,3) by (cases "find (\<lambda>x. chunk_key x = (r, ?raw)) (chunk_table (db w))") (auto simp: find_None_iff)
  have "k' = k" using find_SomeD [OF k'] h(2,3) inj_onD [OF uniq, of k' k] by auto
  then have ref: "select_references r ?raw n (db w) = Inr (Some 0, db w)" for n
    using k' h(4) by (simp add: select_references_def)
  have act: "select_active r ?raw n (db w) = Inr (False, db w)" for n
    using h(5) by (simp add: select_active_def)
  show ?thesis
    using h(1,6) ref act
    by (auto simp: drain_one_def drain_body_def run_defs split: sum.splits prod.splits)
qed

text \<open>Claim C24: the queue can get stuck.  When an upload session that is no longer open (such as a finalized one, whose
  registrations are never removed) still registers an unreferenced queued chunk, draining that entry deletes the bytes and
  then fails on the foreign key of \<open>upload_session_chunks\<close>: the catalogue is rolled back, so the chunk row and
  the queue entry stay and every later drain fails the same way.\<close>

theorem drain_stuck_on_closed_sessions:
  assumes "object_store D contents" "catalog_ok D (db w)" "db_script w = []"
    and "k \<in> set (chunk_table (db w))" "chunk_key k = (r, as_bytes c)" "reference_count k = 0"
    and "usc \<in> set (upload_session_chunks (db w))" "(sc_repo usc, sc_chunk usc) = (r, as_bytes c)"
    and "\<not> chunk_active (db w) r (as_bytes c)" "delete_chunk D (store w) r c = (Inr (), s')"
  shows "\<exists>w'. drain_one D r (as_bytes c) w = (Inl (GcDatabase ForeignKeyViolation), w')
    \<and> db w' = db w \<and> chunk_view D contents (store w') r c = None"
proof -
  let ?d = "without_chunk r (as_bytes c) (db w)"
  note sok = catalog_okD(1) [OF assms(2)]
  have "(sc_repo usc, sc_chunk usc) \<in> chunk_key ` set (chunk_table ?d)" if "foreign_keys_ok ?d"
    using that assms(7) by (simp add: foreign_keys_ok_def list_all_iff)
  then have "\<not> foreign_keys_ok ?d" using without_chunk_keys [OF sok assms(4-6)] assms(8) by auto
  then have fk: "delete_chunk_row r (as_bytes c) n (db w) = Inl ForeignKeyViolation" for n
    using filter_chunks_constraints [OF sok] by (simp add: delete_chunk_row_def enforce_def)
  have "chunk_view D contents s' r c = None"
    using chunk_store.delete_ok [OF object_store.chunk_store_laws [OF assms(1)] assms(10)] by (simp add: view_upd_def)
  then show ?thesis
    using drain_idle_entry [OF assms(2,3,4,5,6,9,10)] fk by simp
qed

text \<open>Claim C23: otherwise draining makes progress: an unreferenced queued chunk that no upload session registers loses
  its bytes, its row and its queue entry.\<close>

theorem drain_reclaims_unregistered_chunk:
  assumes "object_store D contents" "catalog_ok D (db w)" "db_script w = []"
    and "k \<in> set (chunk_table (db w))" "chunk_key k = (r, as_bytes c)" "reference_count k = 0"
    and "\<not> (\<exists>usc \<in> set (upload_session_chunks (db w)). (sc_repo usc, sc_chunk usc) = (r, as_bytes c))"
    and "delete_chunk D (store w) r c = (Inr (), s')"
  shows "\<exists>w'. drain_one D r (as_bytes c) w = (Inr (), w') \<and> chunk_view D contents (store w') r c = None
    \<and> (r, as_bytes c) \<notin> set (map chunk_key (chunk_table (db w')))
    \<and> (r, as_bytes c) \<notin> set (map queue_key (chunk_gc_queue (db w')))"
proof -
  let ?d = "without_chunk r (as_bytes c) (db w)"
  let ?d2 = "?d\<lparr>chunk_gc_queue := filter (\<lambda>q. queue_key q \<noteq> (r, as_bytes c)) (chunk_gc_queue ?d)\<rparr>"
  note sok = catalog_okD(1) [OF assms(2)] and keys = without_chunk_keys [OF catalog_okD(1) [OF assms(2)] assms(4-6)]
  have "count_refs (db w) r (as_bytes c) = 0"
    using catalog_okD(2) [OF assms(2)] assms(4-6) by (auto simp: refs_exact_def chunk_key_def)
  then have nolinks: "(oc_repo l, oc_chunk l) \<noteq> (r, as_bytes c)" if "l \<in> set (object_chunks (db w))" for l
    using that by (auto simp: count_refs_def filter_empty_conv)
  have "foreign_keys_ok ?d"
    using sok keys nolinks assms(7) unfolding schema_ok_def foreign_keys_ok_def has_repository_def
    by (auto simp: list_all_iff simp del: split_paired_All)
  then have ok: "schema_ok ?d" using filter_chunks_constraints [OF sok] by (simp add: schema_ok_def)
  then have "schema_ok ?d2"
    by (auto simp: schema_ok_def checks_ok_def uniques_ok_def foreign_keys_ok_def has_repository_def list_all_iff distinct_map_filter)
  then have run: "delete_chunk_row r (as_bytes c) n (db w) = Inr ((), ?d)" "delete_queue_entry r (as_bytes c) n ?d = Inr ((), ?d2)" for n
    using ok by (simp_all add: delete_chunk_row_def delete_queue_entry_def enforce_ok_iff)
  have "\<not> chunk_active (db w) r (as_bytes c)" using assms(7) by (auto simp: chunk_active_def)
  note idle = drain_idle_entry [OF assms(2-6) this assms(8)]
  have "chunk_view D contents s' r c = None"
    using chunk_store.delete_ok [OF object_store.chunk_store_laws [OF assms(1)] assms(8)] by (simp add: view_upd_def)
  moreover have "(r, as_bytes c) \<notin> set (map chunk_key (chunk_table ?d))" using keys by simp
  ultimately show ?thesis using idle run by auto
qed

subsection \<open>Concrete drains\<close>

text \<open>The queued chunk of the demo repository, never registered with a session.\<close>

definition demo_queued :: "object_manifest database" where
  "demo_queued = demo_repositories\<lparr>chunk_table := [demo_chunk_row 0],
     chunk_gc_queue := [\<lparr>q_repo = 5, q_chunk = replicate 32 9, queued_at = 1000\<rparr>]\<rparr>"

definition emptied_store :: mem_store where
  "emptied_store = \<lparr>mem_objects = [], mem_script = []\<rparr>"

lemma demo_queued_catalog: "catalog_ok demo_deps demo_queued"
  by (simp add: demo_queued_def demo_databases catalog_ok_def schema_defs refs_exact_def count_refs_def)

lemma demo_delete_chunk: "delete_chunk demo_deps (store (demo_world d)) 5 (digest_fill 9) = (Inr (), emptied_store)"
  by (simp add: delete_chunk_def demo_path demo_fields mem_delete_def mem_op_def mem_contents_def sample_store_def
      emptied_store_def)

lemma demo_drain:
  "\<exists>w'. drain_one demo_deps 5 (as_bytes (digest_fill 9)) (demo_world demo_queued) = (Inr (), w') \<and> store w' = emptied_store"
proof -
  have "\<not> chunk_active demo_queued 5 (replicate 32 9)" "demo_chunk_row 0 \<in> set (chunk_table demo_queued)"
    "chunk_key (demo_chunk_row 0) = (5, replicate 32 9)" "reference_count (demo_chunk_row 0) = 0"
    by (simp_all add: chunk_active_def demo_queued_def demo_databases chunk_key_def)
  then have idle: "drain_one demo_deps 5 (as_bytes (digest_fill 9)) (demo_world demo_queued) =
    (case res_bind (delete_chunk_row 5 (replicate 32 9) 1000 demo_queued) (\<lambda>(_, d1). delete_queue_entry 5 (replicate 32 9) 1000 d1) of
       Inl e \<Rightarrow> (Inl (GcDatabase e), (demo_world demo_queued)\<lparr>store := emptied_store, tx_now := clock (demo_world demo_queued)\<rparr>)
     | Inr (_, d2) \<Rightarrow> (Inr (), (demo_world demo_queued)\<lparr>store := emptied_store, tx_now := clock (demo_world demo_queued), db := d2\<rparr>))"
    using drain_idle_entry [of demo_deps "demo_world demo_queued" "demo_chunk_row 0" 5 "digest_fill 9", OF _ _ _ _ _ _ demo_delete_chunk]
      demo_queued_catalog by simp
  have "delete_chunk_row 5 (replicate 32 9) 1000 demo_queued = Inr ((), demo_queued\<lparr>chunk_table := []\<rparr>)"
    by (simp add: delete_chunk_row_def enforce_def demo_queued_def demo_databases schema_defs)
  moreover have "delete_queue_entry 5 (replicate 32 9) 1000 (demo_queued\<lparr>chunk_table := []\<rparr>)
      = Inr ((), demo_queued\<lparr>chunk_table := [], chunk_gc_queue := []\<rparr>)"
    by (simp add: delete_queue_entry_def enforce_def demo_queued_def demo_databases schema_defs)
  ultimately show ?thesis using idle by simp
qed

theorem drain_deletes_only_unused_chunk_witness:
  "count_refs demo_queued 5 (replicate 32 9) = 0 \<and> \<not> chunk_active demo_queued 5 (replicate 32 9)"
proof -
  obtain w' where run: "drain_one demo_deps 5 (as_bytes (digest_fill 9)) (demo_world demo_queued) = (Inr (), w')"
    and s: "store w' = emptied_store" using demo_drain by blast
  have "chunk_view demo_deps mem_contents emptied_store 5 (digest_fill 9) = None"
    by (simp add: chunk_view_def mem_contents_def emptied_store_def)
  then have "chunk_view demo_deps mem_contents (store w') 5 (digest_fill 9)
      \<noteq> chunk_view demo_deps mem_contents (store (demo_world demo_queued)) 5 (digest_fill 9)"
    using demo_chunk_view s by simp
  from drain_deletes_only_unused_chunk [OF demo.object_store_axioms _ _ run this] demo_queued_catalog show ?thesis by simp
qed

theorem drain_stuck_on_closed_sessions_witness:
  "\<exists>w'. drain_one demo_deps 5 (replicate 32 9) (demo_world demo_collected) = (Inl (GcDatabase ForeignKeyViolation), w')
     \<and> db w' = demo_collected \<and> chunk_view demo_deps mem_contents (store w') 5 (digest_fill 9) = None"
  using drain_stuck_on_closed_sessions [OF demo.object_store_axioms, of "demo_world demo_collected" "demo_chunk_row 0" 5 "digest_fill 9"
      "\<lparr>sc_session = 11, sc_repo = 5, sc_chunk = replicate 32 9\<rparr>", OF _ _ _ _ _ _ _ _ demo_delete_chunk] demo_gc_catalog(2)
  by (simp add: chunk_active_def demo_gc_databases chunk_key_def)

theorem drain_reclaims_unregistered_chunk_witness:
  "\<exists>w'. drain_one demo_deps 5 (replicate 32 9) (demo_world demo_queued) = (Inr (), w')
     \<and> chunk_view demo_deps mem_contents (store w') 5 (digest_fill 9) = None
     \<and> (5, replicate 32 9) \<notin> set (map chunk_key (chunk_table (db w')))"
  using drain_reclaims_unregistered_chunk [OF demo.object_store_axioms, of "demo_world demo_queued" "demo_chunk_row 0" 5 "digest_fill 9",
      OF _ _ _ _ _ _ demo_delete_chunk] demo_queued_catalog
  by (auto simp: demo_queued_def demo_databases chunk_key_def)

end
