(* ===== verification/Locks.thy ===== *)
theory Locks
  imports Publication
begin

text \<open>
  Git LFS file locks: the handlers \<open>create_lock\<close>, \<open>list_locks\<close>, \<open>verify_locks\<close> and \<open>unlock\<close> of \<open>lib.rs\<close>, the
  page query they share, and the lock types of the protocol crate.  The theorems show that creating a lock is atomic
  and exclusive per path, that only the owner or a forcing administrator releases one, that paging through the locks
  by cursor visits each exactly once, and what a lock path may look like.
\<close>

section \<open>Protocol types\<close>

record lock_owner =
  owner_name :: string

record lfs_lock =
  lock_id :: string
  lock_path :: string
  locked_at :: string
  lock_held_by :: lock_owner

record lock_list =
  listed_locks :: "lfs_lock list"
  list_next_cursor :: "string option"

record lock_verify_response =
  ours :: "lfs_lock list"
  theirs :: "lfs_lock list"
  verify_next_cursor :: "string option"

record lock_list_query =
  query_path :: "string option"
  query_id :: "uuid option"
  query_cursor :: "uuid option"
  query_limit :: "nat option"

record lock_verify_request =
  verify_cursor :: "uuid option"
  verify_limit :: "nat option"

section \<open>Statements\<close>

text \<open>A returned row carries its creation time formatted by \<open>to_char\<close>.\<close>

definition insert_lock ::
  "('s, 'j) server_deps \<Rightarrow> uuid \<Rightarrow> uuid \<Rightarrow> string \<Rightarrow> string \<Rightarrow> ('j, string) statement" where
  "insert_lock D id' repository path subject' now d =
     enforce (format_micros D now) (d\<lparr>lfs_locks := lfs_locks d @
       [\<lparr>lk_id = id', lk_repo = repository, lk_path = path, owner_subject = subject', lk_created = now\<rparr>]\<rparr>)"

definition matching_locks ::
  "'j database \<Rightarrow> uuid \<Rightarrow> string option \<Rightarrow> uuid option \<Rightarrow> uuid option \<Rightarrow> lock_row list" where
  "matching_locks d repository path id' cursor =
     sort_key lk_id (filter (\<lambda>l. lk_repo l = repository
       \<and> (case path of None \<Rightarrow> True | Some p \<Rightarrow> lk_path l = p)
       \<and> (case id' of None \<Rightarrow> True | Some i \<Rightarrow> lk_id l = i)
       \<and> (case cursor of None \<Rightarrow> True | Some c \<Rightarrow> lk_id l > c)) (lfs_locks d))"

definition select_locks ::
  "('s, 'j) server_deps \<Rightarrow> uuid \<Rightarrow> string option \<Rightarrow> uuid option \<Rightarrow> uuid option \<Rightarrow> int
     \<Rightarrow> ('j, (uuid \<times> string \<times> string \<times> string) list) statement" where
  "select_locks D repository path id' cursor limit now d =
     Inr (map (\<lambda>l. (lk_id l, lk_path l, owner_subject l, format_micros D (lk_created l)))
       (take (nat limit) (matching_locks d repository path id' cursor)), d)"

definition select_lock_owner :: "uuid \<Rightarrow> uuid \<Rightarrow> ('j, string option) statement" where
  "select_lock_owner id' repository now d =
     Inr (map_option owner_subject (find (\<lambda>l. lk_id l = id' \<and> lk_repo l = repository) (lfs_locks d)), d)"

definition delete_lock ::
  "('s, 'j) server_deps \<Rightarrow> uuid \<Rightarrow> uuid \<Rightarrow> ('j, (string \<times> string \<times> string) option) statement" where
  "delete_lock D id' repository now d =
     enforce (map_option (\<lambda>l. (lk_path l, owner_subject l, format_micros D (lk_created l)))
         (find (\<lambda>l. lk_id l = id' \<and> lk_repo l = repository) (lfs_locks d)))
       (d\<lparr>lfs_locks := filter (\<lambda>l. \<not> (lk_id l = id' \<and> lk_repo l = repository)) (lfs_locks d)\<rparr>)"

section \<open>Handlers\<close>

text \<open>\<open>str::split\<close> on one character.\<close>

fun split_on :: "char \<Rightarrow> string \<Rightarrow> string list" where
  "split_on c [] = [[]]"
| "split_on c (x # xs) =
     (if x = c then [] # split_on c xs
      else case split_on c xs of [] \<Rightarrow> [[x]] | y # ys \<Rightarrow> (x # y) # ys)"

definition validate_lock_path :: "string \<Rightarrow> api_error + unit" where
  "validate_lock_path path =
     (if path = [] \<or> hd path = CHR ''/''
         \<or> list_ex (\<lambda>component. component = ''..'' \<or> component = []) (split_on CHR ''/'' path)
      then Inl (api_error_new 422 ''lock path must be a normalized repository-relative path'')
      else Inr ())"

text \<open>SQLSTATE 23505 is a unique violation.\<close>

definition create_lock_error :: "sql_error \<Rightarrow> api_error" where
  "create_lock_error e = (case e of
       UniqueViolation \<Rightarrow> api_error_new 409 ''path is already locked''
     | _ \<Rightarrow> database_error e)"

definition create_lock ::
  "('s, 'j) server_deps \<Rightarrow> app_state \<Rightarrow> string \<Rightarrow> string \<Rightarrow> header_map \<Rightarrow> string \<Rightarrow> uuid
     \<Rightarrow> (('s, 'j) world, api_error, lfs_lock) action" where
  "create_lock D A owner repository headers path new_id =
     andthen (authenticate D A headers owner repository Write) (\<lambda>ident.
     andthen (of_result (validate_lock_path path)) (\<lambda>_.
     andthen (repository_id owner repository) (\<lambda>repo.
     andthen (on_err create_lock_error (exec_pool (insert_lock D new_id repo path (subject ident)))) (\<lambda>created.
     ret \<lparr>lock_id = uuid_to_string D new_id, lock_path = path, locked_at = created,
          lock_held_by = \<lparr>owner_name = subject ident\<rparr>\<rparr>))))"

definition i64_of_usize :: "nat \<Rightarrow> int option" where
  "i64_of_usize n = (if n < 2 ^ 63 then Some (int n) else None)"

definition page_limit :: "nat option \<Rightarrow> nat" where
  "page_limit requested = min 100 (max 1 (case requested of None \<Rightarrow> 100 | Some n \<Rightarrow> n))"

definition load_locks_page ::
  "('s, 'j) server_deps \<Rightarrow> uuid \<Rightarrow> string option \<Rightarrow> uuid option \<Rightarrow> uuid option \<Rightarrow> nat option
     \<Rightarrow> (('s, 'j) world, api_error, lfs_lock list \<times> string option) action" where
  "load_locks_page D repository path id' cursor requested =
     (let limit = page_limit requested in
      andthen (of_result (ok_or (api_error_new 400 ''lock page limit is out of range'') (i64_of_usize (limit + 1)))) (\<lambda>n.
      andthen (query_pool (select_locks D repository path id' cursor n)) (\<lambda>rows.
      let locks = map (\<lambda>(i, p, sub, created). \<lparr>lock_id = uuid_to_string D i, lock_path = p, locked_at = created,
            lock_held_by = \<lparr>owner_name = sub\<rparr>\<rparr>) rows;
          has_more = length locks > limit;
          page = take limit locks
      in ret (page, if has_more \<and> page \<noteq> [] then Some (lock_id (last page)) else None))))"

definition list_locks ::
  "('s, 'j) server_deps \<Rightarrow> app_state \<Rightarrow> string \<Rightarrow> string \<Rightarrow> lock_list_query \<Rightarrow> header_map
     \<Rightarrow> (('s, 'j) world, api_error, lock_list) action" where
  "list_locks D A owner repository query headers =
     andthen (authenticate D A headers owner repository Read) (\<lambda>_.
     andthen (repository_id owner repository) (\<lambda>repo.
     andthen (load_locks_page D repo (query_path query) (query_id query) (query_cursor query) (query_limit query))
       (\<lambda>(locks, next_cursor).
     ret \<lparr>listed_locks = locks, list_next_cursor = next_cursor\<rparr>)))"

definition verify_locks ::
  "('s, 'j) server_deps \<Rightarrow> app_state \<Rightarrow> string \<Rightarrow> string \<Rightarrow> header_map \<Rightarrow> lock_verify_request
     \<Rightarrow> (('s, 'j) world, api_error, lock_verify_response) action" where
  "verify_locks D A owner repository headers request =
     andthen (authenticate D A headers owner repository Write) (\<lambda>ident.
     andthen (repository_id owner repository) (\<lambda>repo.
     andthen (load_locks_page D repo None None (verify_cursor request) (verify_limit request)) (\<lambda>(locks, next_cursor).
     ret \<lparr>ours = filter (\<lambda>l. owner_name (lock_held_by l) = subject ident) locks,
          theirs = filter (\<lambda>l. owner_name (lock_held_by l) \<noteq> subject ident) locks,
          verify_next_cursor = next_cursor\<rparr>)))"

definition lock_not_found :: api_error where
  "lock_not_found = api_error_new 404 ''lock not found''"

definition unlock ::
  "('s, 'j) server_deps \<Rightarrow> app_state \<Rightarrow> string \<Rightarrow> string \<Rightarrow> uuid \<Rightarrow> header_map \<Rightarrow> bool
     \<Rightarrow> (('s, 'j) world, api_error, lfs_lock) action" where
  "unlock D A owner repository id' headers force =
     andthen (authenticate D A headers owner repository Write) (\<lambda>ident.
     andthen (repository_id owner repository) (\<lambda>repo.
     andthen (query_pool (select_lock_owner id' repo)) (\<lambda>row.
     andthen (of_result (ok_or lock_not_found row)) (\<lambda>held_by.
     andthen (guard_err (held_by \<noteq> subject ident \<and> (\<not> force \<or> \<not> administrator ident))
                (api_error_new 403 ''only the lock owner or an administrator using force may unlock'')) (\<lambda>_.
     andthen (query_pool (delete_lock D id' repo)) (\<lambda>gone.
     andthen (of_result (ok_or lock_not_found gone)) (\<lambda>(path, sub, created).
     ret \<lparr>lock_id = uuid_to_string D id', lock_path = path, locked_at = created,
          lock_held_by = \<lparr>owner_name = sub\<rparr>\<rparr>)))))))"

section \<open>The catalogue invariant\<close>

lemma catalog_ok_locks: "catalog_ok D d \<Longrightarrow> schema_ok (d\<lparr>lfs_locks := ls\<rparr>) \<Longrightarrow> catalog_ok D (d\<lparr>lfs_locks := ls\<rparr>)"
  using same_tables [of "d\<lparr>lfs_locks := ls\<rparr>" d] by (auto simp: catalog_ok_def object_described_def)

lemma lock_statements_keep [intro!]:
  "st_keeps (catalog_ok D) (insert_lock D i r p sub)" "st_keeps (catalog_ok D) (delete_lock D i r)"
  "st_keeps P (select_locks D r path i' cur n)" "st_keeps P (select_lock_owner i r)"
  by (rule st_keepsI; auto simp: insert_lock_def delete_lock_def select_locks_def select_lock_owner_def ok_iff
      intro: catalog_ok_locks)+

lemma load_locks_page_local [keeps_intros]:
  "keeps (holds P) (load_locks_page D r path i cur n)" "keeps (stable P) (load_locks_page D r path i cur n)"
  "keeps (store_is s) (load_locks_page D r path i cur n)"
  unfolding load_locks_page_def Let_def by (auto intro!: keeps_intros)

lemma lock_handlers_keep [keeps_intros]:
  "keeps (holds (catalog_ok D)) (create_lock D A ow rp hs p i)" "keeps (stable P) (create_lock D A ow rp hs p i)"
  "keeps (store_is s) (create_lock D A ow rp hs p i)"
  "keeps (holds P) (list_locks D A ow rp q hs)" "keeps (stable P) (list_locks D A ow rp q hs)"
  "keeps (store_is s) (list_locks D A ow rp q hs)"
  "keeps (holds P) (verify_locks D A ow rp hs v)" "keeps (stable P) (verify_locks D A ow rp hs v)"
  "keeps (store_is s) (verify_locks D A ow rp hs v)"
  "keeps (holds (catalog_ok D)) (unlock D A ow rp i hs f)" "keeps (stable P) (unlock D A ow rp i hs f)"
  "keeps (store_is s) (unlock D A ow rp i hs f)"
  unfolding create_lock_def list_locks_def verify_locks_def unlock_def
  by (auto intro!: keeps_intros split: prod.split)

section \<open>Creating and releasing\<close>

text \<open>A statement on the pool without concurrent writers: nothing happened, or the statement ran.\<close>

lemma exec_pool_quiet_cases:
  assumes "quiet w" "exec_pool st w = (res, w')"
  obtains (kept) e where "res = Inl e" "db w' = db w"
  | (ran) now x where "st now (db w) = Inr (x, db w')" "res = Inr x \<or> res = Inl Unavailable"
proof -
  obtain ev w1 where t: "take_event w = (ev, w1)" by (cases "take_event w")
  have q: "interference ev = (\<lambda>d. d)" using take_event_frame(7) [OF t] assms(1) by (auto simp: quiet_def)
  show thesis
    using assms(2) t take_event_frame(1) [OF t] kept ran
    by (auto simp: exec_pool_def Let_def q split: if_splits sum.splits)
qed

text \<open>Paths locked in a repository.\<close>

definition locked :: "'j database \<Rightarrow> uuid \<Rightarrow> string \<Rightarrow> bool" where
  "locked d r p \<longleftrightarrow> (\<exists>l \<in> set (lfs_locks d). lk_repo l = r \<and> lk_path l = p)"

lemma insert_lock_run:
  assumes "insert_lock D i r p sub now d = Inr (x, d')"
  shows "\<not> locked d r p \<and> x = format_micros D now
    \<and> d' = d\<lparr>lfs_locks := lfs_locks d @ [\<lparr>lk_id = i, lk_repo = r, lk_path = p, owner_subject = sub, lk_created = now\<rparr>]\<rparr>"
  using assms by (auto simp: insert_lock_def ok_iff schema_ok_def uniques_ok_def locked_def)

text \<open>Claim C26: creating a lock is atomic and exclusive.  Whatever fails, the request either leaves the catalogue as
  it was and reports an error, or adds exactly one lock to the repository with the requested owner and name, held by the authenticated subject, on a valid path
  that nobody held in that repository; the answer, if the client gets one, describes that lock.\<close>

theorem create_lock_exclusive:
  assumes "quiet w" "create_lock D A owner repository headers path new_id w = (res, w')"
  shows "(\<exists>e. res = Inl e \<and> db w' = db w)
    \<or> (\<exists>ident w1 r now. authenticate D A headers owner repository Write w = (Inr ident, w1)
         \<and> (\<exists>row \<in> set (repositories (db w)). repo_id row = r \<and> repo_owner row = owner \<and> repo_name row = repository)
         \<and> validate_lock_path path = Inr () \<and> \<not> locked (db w) r path
         \<and> db w' = (db w)\<lparr>lfs_locks := lfs_locks (db w) @
             [\<lparr>lk_id = new_id, lk_repo = r, lk_path = path, owner_subject = subject ident, lk_created = now\<rparr>]\<rparr>
         \<and> (\<forall>l. res = Inr l \<longrightarrow> l = \<lparr>lock_id = uuid_to_string D new_id, lock_path = path, locked_at = format_micros D now,
              lock_held_by = \<lparr>owner_name = subject ident\<rparr>\<rparr>))"
proof -
  obtain a w1 where a: "authenticate D A headers owner repository Write w = (a, w1)"
    by (cases "authenticate D A headers owner repository Write w")
  note w1 = authenticate_quiet [OF assms(1) a]
  obtain b w2 where b: "repository_id owner repository w1 = (b, w2)" by (cases "repository_id owner repository w1")
  note w2 = repository_id_quiet [OF w1(1) b]
  note run = assms(2) [unfolded create_lock_def andthen_def [of "authenticate D A headers owner repository Write"] a]
  consider (denied) e where "a = Inl e" | (invalid) ident e where "a = Inr ident" "validate_lock_path path = Inl e"
    | (unknown) ident e where "a = Inr ident" "validate_lock_path path = Inr ()" "b = Inl e"
    | (ready) ident r where "a = Inr ident" "validate_lock_path path = Inr ()" "b = Inr r"
    by (metis old.sum.exhaust old.unit.exhaust)
  then show ?thesis
  proof cases
    case denied
    then have "res = Inl e \<and> db w' = db w" using run w1(2) by auto
    then show ?thesis by blast
  next
    case invalid
    then have "res = Inl e \<and> db w' = db w" using run w1(2) by (auto simp: andthen_def of_result_def)
    then show ?thesis by blast
  next
    case unknown
    then have "res = Inl e \<and> db w' = db w" using run b w1(2) w2(2) by (auto simp: andthen_def of_result_def)
    then show ?thesis by blast
  next
    case ok: (ready ident r)
    obtain c w3 where c: "exec_pool (insert_lock D new_id r path (subject ident)) w2 = (c, w3)"
      by (cases "exec_pool (insert_lock D new_id r path (subject ident)) w2")
    have out: "w' = w3" "res = map_err create_lock_error (res_bind c (\<lambda>created. Inr \<lparr>lock_id = uuid_to_string D new_id,
        lock_path = path, locked_at = created, lock_held_by = \<lparr>owner_name = subject ident\<rparr>\<rparr>))"
      using run b c ok by (cases c; auto simp: andthen_def of_result_def on_err_def ret_def)+
    from w2(1) c show ?thesis
    proof (cases rule: exec_pool_quiet_cases)
      case (kept e)
      then have "res = Inl (create_lock_error e) \<and> db w' = db w" using out w1(2) w2(2) by simp
      then show ?thesis by blast
    next
      case (ran now x)
      have i: "\<not> locked (db w) r path" "x = format_micros D now"
        "db w' = (db w)\<lparr>lfs_locks := lfs_locks (db w) @
          [\<lparr>lk_id = new_id, lk_repo = r, lk_path = path, owner_subject = subject ident, lk_created = now\<rparr>]\<rparr>"
        using insert_lock_run [OF ran(1)] out(1) w1(2) w2(2) by simp_all
      have "l = \<lparr>lock_id = uuid_to_string D new_id, lock_path = path, locked_at = format_micros D now,
              lock_held_by = \<lparr>owner_name = subject ident\<rparr>\<rparr>" if "res = Inr l" for l
        using out(2) [unfolded that] ran(2) by (elim disjE) (simp_all add: i(2))
      moreover have "\<exists>row \<in> set (repositories (db w)). repo_id row = r \<and> repo_owner row = owner \<and> repo_name row = repository"
        using repository_id_row [OF w1(1), of owner repository r w2] b ok(3) w1(2) by simp
      ultimately show ?thesis using a ok i by blast
    qed
  qed
qed

lemma repository_id_found:
  assumes "db_script w = []" "schema_ok (db w)" "rr \<in> set (repositories (db w))" "repo_owner rr = owner" "repo_name rr = repository"
  shows "repository_id owner repository w = (Inr (repo_id rr), w\<lparr>tx_now := clock w\<rparr>)"
proof -
  let ?P = "\<lambda>x. repo_owner x = owner \<and> repo_name x = repository"
  obtain x where x: "find ?P (repositories (db w)) = Some x"
    using assms(3-5) by (cases "find ?P (repositories (db w))") (auto simp: find_None_iff)
  have "inj_on (\<lambda>x. (repo_owner x, repo_name x)) (set (repositories (db w)))"
    using assms(2) by (simp add: schema_ok_def uniques_ok_def distinct_map)
  from inj_onD [OF this, of x rr] have "x = rr" using find_SomeD [OF x] assms(3-5) by simp
  then show ?thesis using assms(1) x by (simp add: repository_id_def run_defs select_repository_def)
qed

text \<open>a held path is refused with a conflict.  When the caller is authenticated, the path is valid, the
  repository exists and the database answers, creating a lock on a locked path returns 409 and changes nothing.\<close>

theorem create_lock_conflict:
  assumes "authenticate D A headers owner repository Write w = (Inr ident, w1)" "db_script w1 = []" "schema_ok (db w1)"
    and "validate_lock_path path = Inr ()"
    and "rr \<in> set (repositories (db w1))" "repo_owner rr = owner" "repo_name rr = repository" "locked (db w1) (repo_id rr) path"
  shows "\<exists>w'. create_lock D A owner repository headers path new_id w = (Inl (api_error_new 409 ''path is already locked''), w')
    \<and> db w' = db w1"
proof -
  note rid = repository_id_found [OF assms(2,3,5,6,7)]
  have "(repo_id rr, path) \<in> (\<lambda>l. (lk_repo l, lk_path l)) ` set (lfs_locks (db w1))"
    using assms(8) by (force simp: locked_def)
  then have "insert_lock D new_id (repo_id rr) path (subject ident) now (db w1) = Inl UniqueViolation" for now
    using assms(3) by (simp add: insert_lock_def enforce_def schema_ok_def checks_ok_def uniques_ok_def)
  then show ?thesis
    using assms(1,2,4) rid by (simp add: create_lock_def run_defs create_lock_error_def)
qed

text \<open>An action that changes the catalogue got past its read-only first step.\<close>

lemma andthen_changes:
  assumes "andthen m f w = (res, w')" "quiet w" "db w' \<noteq> db w" "\<And>P. keeps (holds P) m" "\<And>P. keeps (stable P) m"
  obtains x w1 where "m w = (Inr x, w1)" "f x w1 = (res, w')" "quiet w1" "db w1 = db w"
proof -
  obtain y w1 where m: "m w = (y, w1)" by (cases "m w")
  have k: "quiet w1" "db w1 = db w"
    using keepsD [OF keeps_quiet [OF assms(5)] assms(2) m] keeps_dbD [OF assms(4) assms(2) m] by auto
  then show thesis
    using that assms(1,3) m by (cases y) (auto simp: andthen_def)
qed

lemma delete_lock_run:
  assumes "schema_ok d" "l \<in> set (lfs_locks d)" "lk_id l = i" "lk_repo l = r" "delete_lock D i r now d = Inr (x, d')"
  shows "x = Some (lk_path l, owner_subject l, format_micros D (lk_created l))
    \<and> d' = d\<lparr>lfs_locks := filter (\<lambda>l'. l' \<noteq> l) (lfs_locks d)\<rparr>"
proof -
  let ?P = "\<lambda>l. lk_id l = i \<and> lk_repo l = r"
  have "inj_on lk_id (set (lfs_locks d))" using assms(1) by (simp add: schema_ok_def uniques_ok_def distinct_map)
  then have u: "?P l' \<longleftrightarrow> l' = l" if "l' \<in> set (lfs_locks d)" for l'
    using inj_onD [of lk_id "set (lfs_locks d)" l' l] that assms(2-4) by auto
  obtain y where y: "find ?P (lfs_locks d) = Some y"
    using assms(2-4) by (cases "find ?P (lfs_locks d)") (auto simp: find_None_iff)
  have "y = l" using find_SomeD [OF y] u [of y] by simp
  moreover have "filter (\<lambda>l. \<not> ?P l) (lfs_locks d) = filter (\<lambda>l'. l' \<noteq> l) (lfs_locks d)"
    by (rule filter_cong) (use u in auto)
  ultimately show ?thesis using assms(5) y by (simp add: delete_lock_def enforce_ok_iff)
qed

text \<open>Claim C27: releasing a lock takes authority.  If \<open>unlock\<close> changes the catalogue, then the lock existed in the
  repository with the requested owner and name, the caller was authenticated for writing and either held it or is an administrator who forced the release, and
  exactly that lock is gone; a successful answer describes it.\<close>

theorem unlock_requires_authority:
  assumes "quiet w" "schema_ok (db w)" "unlock D A owner repository i headers force w = (res, w')" "db w' \<noteq> db w"
  shows "\<exists>ident w1 l. authenticate D A headers owner repository Write w = (Inr ident, w1)
    \<and> l \<in> set (lfs_locks (db w)) \<and> lk_id l = i
    \<and> (\<exists>row \<in> set (repositories (db w)). repo_id row = lk_repo l \<and> repo_owner row = owner \<and> repo_name row = repository)
    \<and> (owner_subject l = subject ident \<or> force \<and> administrator ident)
    \<and> db w' = (db w)\<lparr>lfs_locks := filter (\<lambda>l'. l' \<noteq> l) (lfs_locks (db w))\<rparr>
    \<and> (\<forall>x. res = Inr x \<longrightarrow> x = \<lparr>lock_id = uuid_to_string D i, lock_path = lk_path l,
         locked_at = format_micros D (lk_created l), lock_held_by = \<lparr>owner_name = owner_subject l\<rparr>\<rparr>)"
  using assms(3) unfolding unlock_def
proof (rule andthen_changes [OF _ assms(1,4) authenticate_keeps(1,2)], goal_cases)
  case (1 ident w1)
  have n1: "db w' \<noteq> db w1" and d1: "db w1 = db w" and au: "authenticate D A headers owner repository Write w = (Inr ident, w1)"
    using assms(4) 1(1,4) by auto
  note q1 = 1(3)
  show ?case
  proof (rule andthen_changes [OF 1(2,3) n1 repository_id_local(1,2)], goal_cases)
    case (1 r w2)
    have n2: "db w' \<noteq> db w2" and d2: "db w2 = db w" and q2: "quiet w2" using n1 d1 1(3,4) by auto
    have rr: "\<exists>row \<in> set (repositories (db w)). repo_id row = r \<and> repo_owner row = owner \<and> repo_name row = repository"
      using repository_id_row [OF q1 1(1)] d1 by simp
    have k: "keeps (holds P) (query_pool (select_lock_owner i r))" "keeps (stable P) (query_pool (select_lock_owner i r))" for P
      by (auto intro!: keeps_intros)
    show ?case
    proof (rule andthen_changes [OF 1(2,3) n2 k], goal_cases)
      case (1 row w3)
      have "exec_pool (select_lock_owner i r) w2 = (Inr row, w3)" using 1(1) by (simp add: on_err_ok)
      from exec_pool_quiet_ok [OF q2 this] have row: "row = map_option owner_subject (find (\<lambda>l. lk_id l = i \<and> lk_repo l = r) (lfs_locks (db w)))"
        using d2 by (auto simp: select_lock_owner_def)
      have n3: "db w' \<noteq> db w3" and d3: "db w3 = db w" using 1(4) n2 d2 by auto
      from 1(2) n3 obtain held where held: "row = Some held" by (cases row) (auto simp: andthen_def of_result_def)
      then obtain l where l: "find (\<lambda>l. lk_id l = i \<and> lk_repo l = r) (lfs_locks (db w)) = Some l" "held = owner_subject l"
        using row by auto
      note lf = find_SomeD [OF l(1)]
      have auth: "owner_subject l = subject ident \<or> force \<and> administrator ident"
        using 1(2) n3 held l(2) by (auto simp: andthen_def of_result_def guard_err_def fail_def split: if_splits)
      obtain c w4 where c: "exec_pool (delete_lock D i r) w3 = (c, w4)" by (cases "exec_pool (delete_lock D i r) w3")
      have out: "w' = w4" "res = res_bind (map_err database_error c) (\<lambda>gone. res_bind (ok_or lock_not_found gone) (\<lambda>(path, sub, created).
          Inr \<lparr>lock_id = uuid_to_string D i, lock_path = path, locked_at = created, lock_held_by = \<lparr>owner_name = sub\<rparr>\<rparr>))"
        using 1(2) held l(2) auth c
        by (cases c; auto simp: andthen_def of_result_def guard_err_def on_err_def ret_def ok_or_def split: option.splits)+
      from 1(3) c show ?case
      proof (cases rule: exec_pool_quiet_cases)
        case (kept e)
        then show ?thesis using n3 out(1) by simp
      next
        case (ran now x)
        have del: "x = Some (lk_path l, owner_subject l, format_micros D (lk_created l))"
          "db w' = (db w)\<lparr>lfs_locks := filter (\<lambda>l'. l' \<noteq> l) (lfs_locks (db w))\<rparr>"
          using delete_lock_run [OF assms(2), of l i r D now x "db w4"] lf ran(1) d3 out(1) by auto
        have "y = \<lparr>lock_id = uuid_to_string D i, lock_path = lk_path l, locked_at = format_micros D (lk_created l),
            lock_held_by = \<lparr>owner_name = owner_subject l\<rparr>\<rparr>" if "res = Inr y" for y
          using out(2) [unfolded that] ran(2) by (elim disjE) (simp_all add: del(1))
        then show ?thesis using au lf rr auth del(2) by blast
      qed
    qed
  qed
qed

section \<open>Listing\<close>

definition as_lock :: "('s, 'j) server_deps \<Rightarrow> lock_row \<Rightarrow> lfs_lock" where
  "as_lock D l = \<lparr>lock_id = uuid_to_string D (lk_id l), lock_path = lk_path l, locked_at = format_micros D (lk_created l),
     lock_held_by = \<lparr>owner_name = owner_subject l\<rparr>\<rparr>"

lemma matching_after:
  assumes "schema_ok d" "matching_locks d r path i cursor = page @ rest" "page \<noteq> []"
  shows "matching_locks d r path i (Some (lk_id (last page))) = rest"
proof -
  let ?m = "matching_locks d r path i cursor" and ?x = "lk_id (last page)"
  have "distinct (map lk_id (lfs_locks d))" using assms(1) by (simp add: schema_ok_def uniques_ok_def)
  then have dist: "distinct (map lk_id ?m)" by (simp add: matching_locks_def distinct_map inj_on_def)
  have sort: "sorted (map lk_id ?m)" by (simp add: matching_locks_def)
  have p: "page = butlast page @ [last page]" using assms(3) by simp
  have after: "?x < lk_id l" if "l \<in> set rest" for l
  proof -
    have "?x \<le> lk_id l" using sort assms(2,3) that by (simp add: sorted_append)
    moreover have "?x \<noteq> lk_id l" using dist assms(2,3) that by (force simp: distinct_map inj_on_def)
    ultimately show ?thesis by simp
  qed
  have "sorted (map lk_id (butlast page @ [last page]))" using sort assms(2) p by (simp add: sorted_append)
  then have "lk_id l \<le> ?x" if "l \<in> set (butlast page @ [last page])" for l using that by (auto simp: sorted_append)
  then have before: "lk_id l \<le> ?x" if "l \<in> set page" for l using p that by simp
  have "last page \<in> set ?m" using assms(2,3) by simp
  then have "case cursor of None \<Rightarrow> True | Some c \<Rightarrow> ?x > c"
    by (auto simp: matching_locks_def split: option.splits)
  then have "matching_locks d r path i (Some ?x) = filter (\<lambda>l. ?x < lk_id l) ?m"
    unfolding matching_locks_def filter_sort filter_filter
    by (intro arg_cong [where f = "sort_key lk_id"] filter_cong) (auto split: option.splits)
  also have "\<dots> = rest"
    using assms(2) after before by (auto simp: filter_empty_conv filter_id_conv not_less)
  finally show ?thesis .
qed

text \<open>Paging is complete.  A page holds, in identifier order, a prefix of the locks that match and lie after the
  cursor, at most 100 of them; the next cursor is absent exactly when nothing is left, and otherwise the matching locks after
  that cursor are exactly those left: following the cursors visits every lock once.\<close>

theorem lock_pages_complete:
  assumes "quiet w" "schema_ok (db w)" "load_locks_page D r path i cursor requested w = (Inr (locks, next_cursor), w')"
  shows "\<exists>page rest. matching_locks (db w) r path i cursor = page @ rest \<and> locks = map (as_lock D) page \<and> length page \<le> 100
    \<and> (next_cursor = None \<longleftrightarrow> rest = [])
    \<and> (rest \<noteq> [] \<longrightarrow> page \<noteq> [] \<and> next_cursor = Some (uuid_to_string D (lk_id (last page)))
         \<and> matching_locks (db w) r path i (Some (lk_id (last page))) = rest)
    \<and> db w' = db w"
proof -
  let ?m = "matching_locks (db w) r path i cursor" and ?n = "page_limit requested"
  have n: "1 \<le> ?n" "?n \<le> 100" by (auto simp: page_limit_def)
  then have i64: "i64_of_usize (?n + 1) = Some (int (?n + 1))" by (simp add: i64_of_usize_def)
  let ?lk = "\<lambda>(i, p, sub, created). \<lparr>lock_id = uuid_to_string D i, lock_path = p, locked_at = created,
            lock_held_by = \<lparr>owner_name = sub\<rparr>\<rparr>"
  from assms(3) i64 obtain rows w1 where q: "exec_pool (select_locks D r path i cursor (int (?n + 1))) w = (Inr rows, w1)"
    and out: "locks = take ?n (map ?lk rows)" "w' = w1"
      "next_cursor = (if length rows > ?n \<and> locks \<noteq> [] then Some (lock_id (last locks)) else None)"
    by (auto simp: load_locks_page_def Let_def andthen_ok of_result_ok on_err_ok ret_ok)
  from exec_pool_quiet_ok [OF assms(1) q] obtain now where "select_locks D r path i cursor (int (?n + 1)) now (db w) = Inr (rows, db w1)"
    by blast
  then have rows: "rows = map (\<lambda>l. (lk_id l, lk_path l, owner_subject l, format_micros D (lk_created l))) (take (?n + 1) ?m)"
    and d: "db w' = db w" by (auto simp: select_locks_def out(2) nat_add_distrib)
  have lk: "locks = map (as_lock D) (take ?n ?m)"
    by (simp add: out(1) rows take_map as_lock_def comp_def min_def)
  have more: "length rows > ?n \<longleftrightarrow> drop ?n ?m \<noteq> []" by (auto simp: rows)
  have ne: "take ?n ?m \<noteq> []" if "drop ?n ?m \<noteq> []" using that n by auto
  have "next_cursor = (if drop ?n ?m = [] then None else Some (uuid_to_string D (lk_id (last (take ?n ?m)))))"
    using out(3) more ne by (auto simp: lk last_map as_lock_def)
  then show ?thesis
    using lk d n(2) ne matching_after [OF assms(2), of r path i cursor "take ?n ?m" "drop ?n ?m"]
    by (intro exI [of _ "take ?n ?m"] exI [of _ "drop ?n ?m"]) auto
qed

section \<open>Lock paths\<close>

fun join_on :: "char \<Rightarrow> string list \<Rightarrow> string" where
  "join_on c [] = []"
| "join_on c [x] = x"
| "join_on c (x # xs) = x @ c # join_on c xs"

lemma split_on_nonempty [simp]: "split_on c s \<noteq> []"
  by (induction s) (auto split: list.splits)

lemma join_split: "join_on c (split_on c s) = s"
proof (induction s)
  case (Cons x xs)
  then show ?case by (cases "split_on c xs"; cases "tl (split_on c xs)") auto
qed simp

lemma split_no_separator: "p \<in> set (split_on c s) \<Longrightarrow> c \<notin> set p"
proof (induction s arbitrary: p)
  case (Cons x xs)
  then show ?case by (cases "split_on c xs") (auto split: if_splits)
qed simp

lemma split_append: "c \<notin> set x \<Longrightarrow> split_on c (x @ c # s) = x # split_on c s"
  by (induction x) auto

lemma split_single: "c \<notin> set x \<Longrightarrow> split_on c x = [x]"
  by (induction x) auto

lemma split_join: "cs \<noteq> [] \<Longrightarrow> (\<And>x. x \<in> set cs \<Longrightarrow> c \<notin> set x) \<Longrightarrow> split_on c (join_on c cs) = cs"
  by (induction c cs rule: join_on.induct) (simp_all add: split_append split_single)

definition proper_component :: "string \<Rightarrow> bool" where
  "proper_component c \<longleftrightarrow> c \<noteq> [] \<and> c \<noteq> ''..'' \<and> CHR ''/'' \<notin> set c"

text \<open>The lock paths that are accepted are exactly the non-empty sequences of components joined by slashes in
  which no component is empty, contains a slash or is \<open>..\<close>; a component \<open>.\<close> is accepted.\<close>

theorem lock_paths_accepted:
  "validate_lock_path path = Inr () \<longleftrightarrow> (\<exists>cs. cs \<noteq> [] \<and> list_all proper_component cs \<and> path = join_on CHR ''/'' cs)"
proof
  assume ok: "validate_lock_path path = Inr ()"
  let ?cs = "split_on CHR ''/'' path"
  have "list_all proper_component ?cs"
    using ok split_no_separator [of _ "CHR ''/''" path]
    by (auto simp: validate_lock_path_def list_all_iff list_ex_iff proper_component_def split: if_splits)
  then show "\<exists>cs. cs \<noteq> [] \<and> list_all proper_component cs \<and> path = join_on CHR ''/'' cs"
    by (intro exI [of _ ?cs]) (simp add: join_split)
next
  assume "\<exists>cs. cs \<noteq> [] \<and> list_all proper_component cs \<and> path = join_on CHR ''/'' cs"
  then obtain cs where cs: "cs \<noteq> []" "list_all proper_component cs" "path = join_on CHR ''/'' cs" by blast
  have sp: "split_on CHR ''/'' path = cs"
    using cs split_join [of cs "CHR ''/''"] by (auto simp: list_all_iff proper_component_def)
  then have none: "\<not> list_ex (\<lambda>component. component = ''..'' \<or> component = []) (split_on CHR ''/'' path)"
    using cs(2) by (auto simp: list_all_iff list_ex_iff proper_component_def)
  have "path \<noteq> [] \<and> hd path \<noteq> CHR ''/''"
    using none by (cases path) (auto split: if_splits)
  then show "validate_lock_path path = Inr ()" using none by (simp add: validate_lock_path_def)
qed

section \<open>A concrete repository with locks\<close>

definition demo_lock :: "uuid \<Rightarrow> string \<Rightarrow> lock_row" where
  "demo_lock i p = \<lparr>lk_id = i, lk_repo = 5, lk_path = p, owner_subject = ''development-user'', lk_created = 1000\<rparr>"

definition demo_locks :: "lock_row list \<Rightarrow> object_manifest database" where
  "demo_locks ls = demo_repositories\<lparr>lfs_locks := ls\<rparr>"

lemmas demo_lock_defs = demo_locks_def demo_lock_def demo_repositories_def empty_database_def

lemma demo_lock_schema: "schema_ok (demo_locks [demo_lock 7 ''a/b'', demo_lock 3 ''c''])"
  by (simp add: demo_lock_defs schema_defs)

lemma demo_lock_insert:
  "insert_lock demo_deps 7 5 ''a/b'' ''development-user'' 1000 demo_repositories = Inr (format_micros demo_deps 1000, demo_locks [demo_lock 7 ''a/b''])"
  by (simp add: insert_lock_def demo_lock_defs enforce_def schema_defs)

lemma demo_lock_path: "validate_lock_path ''a/b'' = Inr ()"
  by (simp add: validate_lock_path_def)

lemma demo_create_lock:
  "\<exists>l w'. create_lock demo_deps demo_app ''o'' ''r'' demo_headers ''a/b'' 7 (demo_world demo_repositories) = (Inr l, w')
     \<and> db w' = demo_locks [demo_lock 7 ''a/b'']"
  using demo_lock_insert demo_repository_id [of demo_repositories]
  by (simp add: create_lock_def run_defs demo_lock_path demo_identity_def)

theorem create_lock_exclusive_witness:
  "\<exists>r now. (\<exists>row \<in> set (repositories demo_repositories). repo_id row = r \<and> repo_owner row = ''o'' \<and> repo_name row = ''r'')
     \<and> \<not> locked demo_repositories r ''a/b'' \<and> lfs_locks (demo_locks [demo_lock 7 ''a/b'']) =
     [\<lparr>lk_id = 7, lk_repo = r, lk_path = ''a/b'', owner_subject = ''development-user'', lk_created = now\<rparr>]"
proof -
  obtain l w' where run: "create_lock demo_deps demo_app ''o'' ''r'' demo_headers ''a/b'' 7 (demo_world demo_repositories) = (Inr l, w')"
    and d: "db w' = demo_locks [demo_lock 7 ''a/b'']" using demo_create_lock by blast
  from create_lock_exclusive [OF _ run] d obtain ident w1 r now where
    "authenticate demo_deps demo_app demo_headers ''o'' ''r'' Write (demo_world demo_repositories) = (Inr ident, w1)"
    "\<exists>row \<in> set (repositories demo_repositories). repo_id row = r \<and> repo_owner row = ''o'' \<and> repo_name row = ''r''"
    "\<not> locked demo_repositories r ''a/b''" and e: "demo_locks [demo_lock 7 ''a/b''] = demo_repositories\<lparr>lfs_locks := lfs_locks demo_repositories @
       [\<lparr>lk_id = 7, lk_repo = r, lk_path = ''a/b'', owner_subject = subject ident, lk_created = now\<rparr>]\<rparr>"
    by simp blast
  moreover have "subject ident = ''development-user''" using calculation(1) by (auto simp: ret_def demo_identity_def)
  moreover have "lfs_locks demo_repositories = []" by (simp add: demo_lock_defs)
  ultimately show ?thesis unfolding e by auto
qed

theorem create_lock_conflict_witness:
  "\<exists>w'. create_lock demo_deps demo_app ''o'' ''r'' demo_headers ''a/b'' 8 (demo_world (demo_locks [demo_lock 7 ''a/b'', demo_lock 3 ''c'']))
     = (Inl (api_error_new 409 ''path is already locked''), w') \<and> db w' = demo_locks [demo_lock 7 ''a/b'', demo_lock 3 ''c'']"
proof -
  let ?d = "demo_locks [demo_lock 7 ''a/b'', demo_lock 3 ''c'']"
  have "locked ?d 5 ''a/b''" "\<lparr>repo_id = 5, repo_owner = ''o'', repo_name = ''r''\<rparr> \<in> set (repositories ?d)"
    by (simp_all add: locked_def demo_lock_defs)
  then show ?thesis
    using create_lock_conflict [of demo_deps demo_app demo_headers "''o''" "''r''" "demo_world ?d" demo_identity "demo_world ?d" "''a/b''"
        "\<lparr>repo_id = 5, repo_owner = ''o'', repo_name = ''r''\<rparr>" 8] demo_lock_schema demo_lock_path
    by (simp add: ret_def)
qed

lemma demo_unlock:
  "\<exists>l w'. unlock demo_deps demo_app ''o'' ''r'' 7 demo_headers False (demo_world (demo_locks [demo_lock 7 ''a/b'', demo_lock 3 ''c''])) = (Inr l, w')
     \<and> db w' = demo_locks [demo_lock 3 ''c'']"
proof -
  let ?d = "demo_locks [demo_lock 7 ''a/b'', demo_lock 3 ''c'']"
  have "select_lock_owner 7 5 now ?d = Inr (Some ''development-user'', ?d)" for now
    by (simp add: select_lock_owner_def demo_lock_defs)
  moreover have "delete_lock demo_deps 7 5 now ?d
      = Inr (Some (''a/b'', ''development-user'', format_micros demo_deps 1000), demo_locks [demo_lock 3 ''c''])" for now
    by (simp add: delete_lock_def demo_lock_defs enforce_def schema_defs)
  moreover have "repositories ?d = [\<lparr>repo_id = 5, repo_owner = ''o'', repo_name = ''r''\<rparr>]" by (simp add: demo_lock_defs)
  ultimately show ?thesis
    using demo_repository_id [of ?d] by (simp add: unlock_def run_defs demo_identity_def)
qed

theorem unlock_requires_authority_witness:
  "\<exists>l. l \<in> set (lfs_locks (demo_locks [demo_lock 7 ''a/b'', demo_lock 3 ''c''])) \<and> lk_id l = 7
     \<and> (\<exists>row \<in> set (repositories demo_repositories). repo_id row = lk_repo l \<and> repo_owner row = ''o'' \<and> repo_name row = ''r'')
     \<and> owner_subject l = subject demo_identity"
proof -
  let ?d = "demo_locks [demo_lock 7 ''a/b'', demo_lock 3 ''c'']"
  obtain x w' where run: "unlock demo_deps demo_app ''o'' ''r'' 7 demo_headers False (demo_world ?d) = (Inr x, w')"
    and d: "db w' = demo_locks [demo_lock 3 ''c'']" using demo_unlock by blast
  have "db w' \<noteq> db (demo_world ?d)" unfolding d by (simp add: demo_lock_defs)
  moreover have "repositories ?d = repositories demo_repositories" by (simp add: demo_locks_def)
  ultimately show ?thesis using unlock_requires_authority [OF _ _ run] demo_lock_schema by (auto simp: ret_def)
qed

theorem lock_pages_complete_witness:
  "\<exists>page rest. matching_locks (demo_locks [demo_lock 7 ''a/b'', demo_lock 3 ''c'']) 5 None None None = page @ rest
     \<and> length page = 1 \<and> matching_locks (demo_locks [demo_lock 7 ''a/b'', demo_lock 3 ''c'']) 5 None None (Some (lk_id (last page))) = rest"
proof -
  let ?d = "demo_locks [demo_lock 7 ''a/b'', demo_lock 3 ''c'']"
  have m: "matching_locks ?d 5 None None None = [demo_lock 3 ''c'', demo_lock 7 ''a/b'']"
    by (simp add: matching_locks_def demo_lock_defs)
  have two: "page_limit (Some 1) = 1" "i64_of_usize (1 + 1) = Some 2" "nat 2 = Suc 1" by (simp_all add: page_limit_def i64_of_usize_def)
  have "\<exists>locks nc w'. load_locks_page demo_deps 5 None None None (Some 1) (demo_world ?d) = (Inr (locks, nc), w')
      \<and> length locks = 1 \<and> nc \<noteq> None"
    by (simp add: load_locks_page_def two [simplified] run_defs select_locks_def m)
  then obtain locks nc w' where run: "load_locks_page demo_deps 5 None None None (Some 1) (demo_world ?d) = (Inr (locks, nc), w')"
    and l: "length locks = 1" and nc: "nc \<noteq> None" by blast
  from lock_pages_complete [OF _ _ run] demo_lock_schema obtain page rest where
    "matching_locks ?d 5 None None None = page @ rest" "locks = map (as_lock demo_deps) page" "nc = None \<longleftrightarrow> rest = []"
    "rest \<noteq> [] \<longrightarrow> matching_locks ?d 5 None None (Some (lk_id (last page))) = rest"
    by (simp only: demo_world_simps) blast
  then show ?thesis using l nc by (intro exI [of _ page] exI [of _ rest]) auto
qed

end
