(* ===== verification/Admin.thy ===== *)
theory Admin
  imports Locks Gc
begin

text \<open>
  Schema compatibility (\<open>schema_status\<close>, \<open>schema_check\<close> and \<open>migrate\<close> of \<open>lib.rs\<close>) and the commands of the
  administrative binary \<open>git-lfs-delta-admin\<close>.  The embedded migrations and SQLx's migration runner are parameters,
  as is the reachability scan that \<open>Reconcile\<close> submits.  The theorems show that \<open>schema_check\<close> accepts exactly
  the databases on which every embedded migration was applied unchanged and none is half applied.
\<close>

section \<open>Migrations\<close>

record migration =
  mig_version :: int
  mig_down :: bool
  mig_checksum :: bytes

text \<open>\<open>MIGRATOR\<close>: the embedded migrations, and \<open>Migrator::run\<close> on the database.\<close>

record 'j migrator =
  embedded :: "migration list"
  migrator_run :: "('j, unit) statement"

record schema_status =
  target_version :: int
  applied_version :: int
  pending :: nat
  newer :: nat

datatype schema_error = SchemaDatabase sql_error | Migration sql_error | Dirty int | Checksum int | Pending nat

definition up_migrations :: "'j migrator \<Rightarrow> migration list" where
  "up_migrations M = filter (\<lambda>g. \<not> mig_down g) (embedded M)"

text \<open>\<open>Iterator::max\<close> with \<open>unwrap_or(0)\<close>.\<close>

definition max_or_0 :: "int list \<Rightarrow> int" where
  "max_or_0 xs = (if xs = [] then 0 else fold max (tl xs) (hd xs))"

definition select_history_exists :: "('j, bool) statement" where
  "select_history_exists now d = Inr (sqlx_migrations d \<noteq> None, d)"

definition select_history :: "('j, (int \<times> bytes \<times> bool) list) statement" where
  "select_history now d = (case sqlx_migrations d of
       None \<Rightarrow> Inl (Protocol ''relation does not exist'')
     | Some rows \<Rightarrow> Inr (sort_key fst rows, d))"

text \<open>The loop over the embedded migrations.\<close>

fun count_pending :: "(int \<times> bytes \<times> bool) list \<Rightarrow> migration list \<Rightarrow> nat \<Rightarrow> schema_error + nat" where
  "count_pending applied [] pending' = Inr pending'"
| "count_pending applied (g # gs) pending' =
     (case find (\<lambda>(v, _, _). v = mig_version g) applied of
        Some (v, _, False) \<Rightarrow> Inl (Dirty v)
      | Some (v, checksum, True) \<Rightarrow>
          if checksum \<noteq> mig_checksum g then Inl (Checksum v) else count_pending applied gs pending'
      | None \<Rightarrow> count_pending applied gs (pending' + 1))"

definition inspect_history :: "'j migrator \<Rightarrow> (int \<times> bytes \<times> bool) list \<Rightarrow> schema_error + schema_status" where
  "inspect_history M applied =
     (let target = max_or_0 (map mig_version (up_migrations M)) in
      res_bind (count_pending applied (up_migrations M) 0) (\<lambda>pending'.
      case find (\<lambda>(_, _, success). \<not> success) applied of
        Some (v, _, _) \<Rightarrow> Inl (Dirty v)
      | None \<Rightarrow> Inr \<lparr>target_version = target,
          applied_version = max_or_0 (map fst (filter (\<lambda>(_, _, success). success) applied)), pending = pending',
          newer = length (filter (\<lambda>(v, _, success). success \<and> v > target) applied)\<rparr>))"

definition schema_status_of :: "'j migrator \<Rightarrow> (('s, 'j) world, schema_error, schema_status) action" where
  "schema_status_of M =
     andthen (on_err SchemaDatabase (exec_pool select_history_exists)) (\<lambda>history_exists.
     if \<not> history_exists then
       ret \<lparr>target_version = max_or_0 (map mig_version (up_migrations M)), applied_version = 0,
            pending = length (up_migrations M), newer = 0\<rparr>
     else
       andthen (on_err SchemaDatabase (exec_pool select_history)) (\<lambda>applied.
       of_result (inspect_history M applied)))"

definition schema_check :: "'j migrator \<Rightarrow> (('s, 'j) world, schema_error, schema_status) action" where
  "schema_check M =
     andthen (schema_status_of M) (\<lambda>status'.
     andthen (guard_err (pending status' > 0) (Pending (pending status'))) (\<lambda>_.
     ret status'))"

text \<open>A connection of the pool, \<open>SET lock_timeout\<close> and \<open>SET statement_timeout\<close> on it, then the runner.\<close>

definition acquire_connection :: "('j, unit) statement" where
  "acquire_connection now d = Inr ((), d)"

definition set_timeout :: "('j, unit) statement" where
  "set_timeout now d = Inr ((), d)"

definition migrate :: "'j migrator \<Rightarrow> (('s, 'j) world, schema_error, unit) action" where
  "migrate M =
     andthen (on_err SchemaDatabase (exec_pool acquire_connection)) (\<lambda>_.
     andthen (on_err SchemaDatabase (exec_pool set_timeout)) (\<lambda>_.
     andthen (on_err SchemaDatabase (exec_pool set_timeout)) (\<lambda>_.
     on_err Migration (exec_pool (migrator_run M)))))"

section \<open>Administrative commands\<close>

text \<open>\<open>INSERT INTO repositories \<dots> ON CONFLICT (owner, name) DO UPDATE \<dots> RETURNING id\<close>.\<close>

definition insert_repository :: "uuid \<Rightarrow> string \<Rightarrow> string \<Rightarrow> ('j, uuid) statement" where
  "insert_repository id' owner name now d =
     (case find (\<lambda>r. repo_owner r = owner \<and> repo_name r = name) (repositories d) of
        Some r \<Rightarrow> Inr (repo_id r, d)
      | None \<Rightarrow> enforce id' (d\<lparr>repositories := repositories d @
          [\<lparr>repo_id = id', repo_owner = owner, repo_name = name\<rparr>]\<rparr>))"

text \<open>\<open>INSERT INTO repository_grants \<dots> ON CONFLICT (repository_id, subject) DO UPDATE\<close>.\<close>

definition upsert_grant :: "uuid \<Rightarrow> string \<Rightarrow> bool \<Rightarrow> bool \<Rightarrow> ('j, unit) statement" where
  "upsert_grant repository subject' write' admin now d =
     (let row = \<lparr>gr_repo = repository, gr_subject = subject', can_read = True, can_write = write', can_admin = admin\<rparr> in
      enforce () (d\<lparr>repository_grants :=
        (if (\<exists>g \<in> set (repository_grants d). gr_repo g = repository \<and> gr_subject g = subject')
         then map (\<lambda>g. if gr_repo g = repository \<and> gr_subject g = subject' then row else g) (repository_grants d)
         else repository_grants d @ [row])\<rparr>))"

datatype admin_command =
    Migrate | MigrateStatus | SchemaCheck
  | RepositoryAdd string string uuid
  | Grant uuid string bool bool
  | Reconcile uuid string uuid
  | GcDryRun uuid
  | GcStage uuid u64
  | GcCollect uuid
  | UploadsReclaim uuid u64

text \<open>What a command prints.\<close>

datatype admin_output =
    SchemaLine schema_status | RepositoryLine uuid | Silent | EpochLine uuid nat | CandidateLines "gc_candidate list"
  | StagedLine nat | DeletedLine u64 | ReclaimedLine nat

datatype admin_error = AdminSchema schema_error | AdminSql sql_error | AdminScan string | AdminGc gc_error | OutOfFuel

definition admin_schema_command :: "admin_command \<Rightarrow> bool" where
  "admin_schema_command c \<longleftrightarrow> c = Migrate \<or> c = MigrateStatus \<or> c = SchemaCheck"

text \<open>The three commands dispatched before the schema check.\<close>

definition run_schema_command :: "'j migrator \<Rightarrow> admin_command \<Rightarrow> (('s, 'j) world, admin_error, admin_output) action" where
  "run_schema_command M c =
     on_err AdminSchema (
       if c = Migrate then andthen (migrate M) (\<lambda>_. andthen (schema_check M) (\<lambda>st. ret (SchemaLine st)))
       else if c = MigrateStatus then andthen (schema_status_of M) (\<lambda>st. ret (SchemaLine st))
       else andthen (schema_check M) (\<lambda>st. ret (SchemaLine st)))"

text \<open>The commands dispatched after it.  \<open>scan_remote\<close> is \<open>reconcile::scan\<close>: an error, or the ref fingerprint with
  the reachable identities.\<close>

fun run_command ::
  "('s, 'j) server_deps \<Rightarrow> (string \<Rightarrow> string + (string \<times> object_oid list)) \<Rightarrow> nat \<Rightarrow> admin_command
     \<Rightarrow> (('s, 'j) world, admin_error, admin_output) action" where
  "run_command D scan_remote fuel (RepositoryAdd owner name id') =
     andthen (on_err AdminSql (exec_pool (insert_repository id' owner name))) (\<lambda>i. ret (RepositoryLine i))"
| "run_command D scan_remote fuel (Grant repository subject' write' admin) =
     andthen (on_err AdminSql (exec_pool (upsert_grant repository subject' (write' \<or> admin) admin))) (\<lambda>_. ret Silent)"
| "run_command D scan_remote fuel (Reconcile repository git_url epoch) =
     andthen (of_result (map_err AdminScan (scan_remote git_url))) (\<lambda>(fingerprint, reachable).
     andthen (on_err AdminSql (submit_snapshot \<lparr>snap_repository = repository, snap_fingerprint = fingerprint,
                snap_objects = reachable\<rparr> epoch)) (\<lambda>e. ret (EpochLine e (length reachable))))"
| "run_command D scan_remote fuel (GcDryRun repository) =
     andthen (on_err AdminSql (dry_run repository)) (\<lambda>cs. ret (CandidateLines cs))"
| "run_command D scan_remote fuel (GcStage repository grace) =
     andthen (on_err AdminSql (stage repository grace)) (\<lambda>cs. ret (StagedLine (length cs)))"
| "run_command D scan_remote fuel (GcCollect repository) =
     andthen (on_err AdminGc (collect_due D fuel repository)) (\<lambda>n. case n of
       None \<Rightarrow> fail OutOfFuel | Some k \<Rightarrow> ret (DeletedLine k))"
| "run_command D scan_remote fuel (UploadsReclaim repository grace) =
     andthen (on_err AdminGc (reclaim_expired_uploads D repository grace)) (\<lambda>n. ret (ReclaimedLine n))"
| "run_command D scan_remote fuel c = fail (AdminSql (Protocol ''administrative command dispatch failed''))"

definition admin ::
  "('s, 'j) server_deps \<Rightarrow> 'j migrator \<Rightarrow> (string \<Rightarrow> string + (string \<times> object_oid list)) \<Rightarrow> nat \<Rightarrow> admin_command
     \<Rightarrow> (('s, 'j) world, admin_error, admin_output) action" where
  "admin D M scan_remote fuel c =
     (if admin_schema_command c then run_schema_command M c
      else andthen (on_err AdminSchema (schema_check M)) (\<lambda>_. run_command D scan_remote fuel c))"

section \<open>Preservation\<close>

lemma admin_reads_keep [intro!]:
  "st_keeps P select_history_exists" "st_keeps P select_history" "st_keeps P set_timeout" "st_keeps P acquire_connection"
  by (auto simp: st_keeps_def select_history_exists_def select_history_def set_timeout_def acquire_connection_def split: option.splits)

lemma admin_writes_keep [intro!]:
  "st_keeps (catalog_ok D) (insert_repository i ow nm)" "st_keeps (catalog_ok D) (upsert_grant r sub wr ad)"
  by (rule st_keepsI; auto simp: insert_repository_def upsert_grant_def Let_def ok_iff split: option.splits
      split del: if_split elim!: catalog_ok_other_tables)+

lemma schema_actions_keep [keeps_intros]:
  "keeps (holds P) (schema_status_of M)" "keeps (stable P) (schema_status_of M)" "keeps (store_is s) (schema_status_of M)"
  "keeps (holds P) (schema_check M)" "keeps (stable P) (schema_check M)" "keeps (store_is s) (schema_check M)"
  unfolding schema_check_def schema_status_of_def by (auto intro!: keeps_intros)

lemma run_command_keeps [keeps_intros]:
  "keeps (holds (catalog_ok D)) (run_command D scan n c)" "keeps (stable P) (run_command D scan n c)"
  by (cases c; auto intro!: keeps_intros split: prod.split)+

section \<open>Schema compatibility\<close>

text \<open>A history is healthy for a list of migrations when each of them was applied successfully with the same checksum
  and no recorded migration failed.\<close>

definition history_ok :: "migration list \<Rightarrow> (int \<times> bytes \<times> bool) list \<Rightarrow> bool" where
  "history_ok gs rows \<longleftrightarrow>
     list_all (\<lambda>g. (mig_version g, mig_checksum g, True) \<in> set rows) gs \<and> list_all (\<lambda>(_, _, success). success) rows"

lemma find_version:
  assumes "distinct (map fst rows)" "(v, c, b) \<in> set rows"
  shows "find (\<lambda>(v', _, _). v' = v) rows = Some (v, c, b)"
proof -
  obtain x where x: "find (\<lambda>(v', _, _). v' = v) rows = Some x"
    using assms(2) by (cases "find (\<lambda>(v', _, _). v' = v) rows") (auto simp: find_None_iff)
  then have "x \<in> set rows" "fst x = v" using find_SomeD [OF x] by auto
  then have "(v, snd x) \<in> set rows" by (metis prod.collapse)
  then have "snd x = (c, b)" using eq_key_imp_eq_value [OF assms(1)] assms(2) by blast
  then show ?thesis using x \<open>fst x = v\<close> by (metis prod.collapse)
qed

lemma count_pending_mono: "count_pending rows gs n = Inr k \<Longrightarrow> n \<le> k"
  by (induction rows gs n rule: count_pending.induct) (fastforce split: option.splits bool.splits if_splits)+

lemma count_pending_none:
  assumes "distinct (map fst rows)"
  shows "count_pending rows gs n = Inr n \<longleftrightarrow> list_all (\<lambda>g. (mig_version g, mig_checksum g, True) \<in> set rows) gs"
proof (induction gs)
  case (Cons g gs)
  show ?case
  proof (cases "find (\<lambda>(v, _, _). v = mig_version g) rows")
    case None
    then have "(mig_version g, mig_checksum g, True) \<notin> set rows" by (auto simp: find_None_iff)
    moreover have "count_pending rows gs (n + 1) \<noteq> Inr n" using count_pending_mono [of rows gs "n + 1" n] by auto
    ultimately show ?thesis using None by simp
  next
    case (Some x)
    obtain v c b where x: "x = (v, c, b)" by (cases x)
    then have v: "v = mig_version g" "(v, c, b) \<in> set rows" using find_SomeD [OF Some] by auto
    have "(mig_version g, mig_checksum g, True) \<in> set rows \<longleftrightarrow> c = mig_checksum g \<and> b"
    proof
      assume "(mig_version g, mig_checksum g, True) \<in> set rows"
      from find_version [OF assms this] show "c = mig_checksum g \<and> b" using Some x by simp
    qed (use v in auto)
    then show ?thesis using Cons.IH Some x by (cases b) auto
  qed
qed simp

lemma inspect_exact:
  assumes "distinct (map fst rows)"
  shows "(\<exists>st. inspect_history M rows = Inr st \<and> pending st = 0) \<longleftrightarrow> history_ok (up_migrations M) rows"
proof -
  have "(\<exists>st. inspect_history M rows = Inr st \<and> pending st = 0) \<longleftrightarrow>
      count_pending rows (up_migrations M) 0 = Inr 0 \<and> find (\<lambda>(_, _, success). \<not> success) rows = None"
    by (cases "find (\<lambda>(_, _, success). \<not> success) rows") (auto simp: inspect_history_def Let_def ok_iff)
  also have "\<dots> \<longleftrightarrow> history_ok (up_migrations M) rows"
    by (auto simp: count_pending_none [OF assms] history_ok_def find_None_iff list_all_iff)
  finally show ?thesis .
qed

lemma schema_check_iff:
  assumes "db_script w = []" "distinct (map fst (case sqlx_migrations (db w) of None \<Rightarrow> [] | Some rows \<Rightarrow> rows))"
  shows "((\<exists>st. fst (schema_check M w) = Inr st)
      \<longleftrightarrow> history_ok (up_migrations M) (case sqlx_migrations (db w) of None \<Rightarrow> [] | Some rows \<Rightarrow> rows))
    \<and> db (snd (schema_check M w)) = db w"
proof
  show "db (snd (schema_check M w)) = db w"
    using keeps_dbD [OF schema_actions_keep(4), of w M "fst (schema_check M w)" "snd (schema_check M w)"] assms(1) by simp
  show "(\<exists>st. fst (schema_check M w) = Inr st)
      \<longleftrightarrow> history_ok (up_migrations M) (case sqlx_migrations (db w) of None \<Rightarrow> [] | Some rows \<Rightarrow> rows)"
  proof (cases "sqlx_migrations (db w)")
    case None
    then show ?thesis using assms(1)
      by (auto simp: schema_check_def schema_status_of_def run_defs select_history_exists_def history_ok_def list_all_iff)
  next
    case (Some rows)
    have d: "distinct (map fst (sort_key fst rows))" using assms(2) Some by (simp add: distinct_map)
    have "fst (schema_check M w) = res_bind (inspect_history M (sort_key fst rows)) (\<lambda>st. if pending st > 0 then Inl (Pending (pending st)) else Inr st)"
      using assms(1) Some
      by (auto simp: schema_check_def schema_status_of_def run_defs select_history_exists_def select_history_def split: sum.splits)
    then have "(\<exists>st. fst (schema_check M w) = Inr st) \<longleftrightarrow> (\<exists>st. inspect_history M (sort_key fst rows) = Inr st \<and> pending st = 0)"
      by (auto simp: ok_iff)
    then show ?thesis using inspect_exact [OF d] Some by (simp add: history_ok_def list_all_iff)
  qed
qed

definition demo_migrator :: "object_manifest migrator" where
  "demo_migrator = \<lparr>embedded = [\<lparr>mig_version = 1, mig_down = False, mig_checksum = [1]\<rparr>,
     \<lparr>mig_version = 2, mig_down = False, mig_checksum = [2]\<rparr>, \<lparr>mig_version = 2, mig_down = True, mig_checksum = [3]\<rparr>],
     migrator_run = set_timeout\<rparr>"

text \<open>Claim C28: \<open>schema_check\<close> is exact.  On a reachable database whose recorded versions are distinct it succeeds
  precisely when every embedded up-migration has been applied successfully with the embedded checksum and no recorded
  migration is incomplete (or there is nothing to apply and no history); it never changes the database.\<close>

theorem schema_check_exact:
  assumes "db_script w = []" "distinct (map fst (case sqlx_migrations (db w) of None \<Rightarrow> [] | Some rows \<Rightarrow> rows))"
  shows "((\<exists>st. fst (schema_check M w) = Inr st)
      \<longleftrightarrow> history_ok (up_migrations M) (case sqlx_migrations (db w) of None \<Rightarrow> [] | Some rows \<Rightarrow> rows))
    \<and> db (snd (schema_check M w)) = db w"
  using assms by (rule schema_check_iff)

theorem schema_check_exact_witness:
  "(\<exists>st. fst (schema_check demo_migrator (demo_world (demo_repositories\<lparr>sqlx_migrations := Some [(1, [1], True), (2, [2], True), (3, [9], True)]\<rparr>))) = Inr st)
   \<and> \<not> (\<exists>st. fst (schema_check demo_migrator (demo_world (demo_repositories\<lparr>sqlx_migrations := Some [(1, [1], True), (2, [7], True)]\<rparr>))) = Inr st)"
  using schema_check_exact [of "demo_world (demo_repositories\<lparr>sqlx_migrations := Some [(1, [1], True), (2, [2], True), (3, [9], True)]\<rparr>)" demo_migrator]
    schema_check_exact [of "demo_world (demo_repositories\<lparr>sqlx_migrations := Some [(1, [1], True), (2, [7], True)]\<rparr>)" demo_migrator]
  by (simp add: history_ok_def up_migrations_def demo_migrator_def)

end
