(* ===== verification/System.thy ===== *)
theory System
  imports Collection Admin
begin

text \<open>
  The whole service: \<open>build_router\<close> of \<open>lib.rs\<close> as a dispatch of requests to handlers under the metrics middleware,
  and the sequences of requests and administrative commands a deployment can run.  \<open>reaches\<close> is the reachability relation:
  any number of calls, in any order, with anything the environment may do between them.  The theorems lift the
  per-operation results to it: the catalogue invariant under concurrent writers, and the availability of every published
  object.
\<close>

section \<open>The router\<close>

datatype request =
    Healthz
  | Readyz uuid
  | Metrics
  | Batch string string header_map batch_request
  | UploadBasic string string string header_map reader uuid
  | DownloadBasic string string string header_map
  | BeginCdc string string string header_map begin_upload_request uuid
  | DownloadManifest string string string header_map
  | DownloadChunk string string string nat header_map
  | UploadChunk string string string uuid nat header_map bytes
  | FinalizeCdc string string string uuid header_map
  | CreateLock string string header_map string uuid
  | ListLocks string string lock_list_query header_map
  | VerifyLocks string string header_map lock_verify_request
  | Unlock string string uuid header_map bool

datatype response =
    Status nat | MetricsText string | BatchAnswer batch_response | ObjectBody download_response
  | UploadPlan begin_upload_response | ManifestBody object_manifest | ChunkBody bytes
  | LockCreated lfs_lock | LockPage lock_list | LockCheck lock_verify_response | LockReleased lfs_lock

fun response_code :: "response \<Rightarrow> nat" where
  "response_code (Status n) = n"
| "response_code (LockCreated l) = 201"
| "response_code r = 200"

text \<open>The Prometheus text of \<open>metrics\<close>: name, kind and value of every counter.\<close>

definition metric_lines :: "string \<Rightarrow> string \<Rightarrow> u64 \<Rightarrow> string" where
  "metric_lines name kind v =
     ''# TYPE git_lfs_delta_'' @ name @ '' '' @ kind @ [CHR 0x0A] @ ''git_lfs_delta_'' @ name @ '' '' @ show_nat (unat v) @ [CHR 0x0A]"

definition metrics_text :: "service_metrics \<Rightarrow> string" where
  "metrics_text m =
     metric_lines ''logical_upload_bytes_total'' ''counter'' (logical_uploaded m)
   @ metric_lines ''logical_download_bytes_total'' ''counter'' (logical_downloaded m)
   @ metric_lines ''received_chunk_bytes_total'' ''counter'' (chunks_received m)
   @ metric_lines ''forgejo_auth_cache_hits_total'' ''counter'' (auth_cache_hits m)
   @ metric_lines ''forgejo_auth_cache_misses_total'' ''counter'' (auth_cache_misses m)
   @ metric_lines ''forgejo_requests_total'' ''counter'' (forgejo_requests m)
   @ metric_lines ''http_requests_total'' ''counter'' (http_requests m)
   @ metric_lines ''http_failures_total'' ''counter'' (http_failures m)
   @ metric_lines ''http_in_flight'' ''gauge'' (in_flight m)"

definition answer :: "('a \<Rightarrow> response) \<Rightarrow> (('s, 'j) world, api_error, 'a) action \<Rightarrow> (('s, 'j) world, api_error, response) action" where
  "answer f m = andthen m (\<lambda>x. ret (f x))"

fun route :: "('s, 'j) server_deps \<Rightarrow> app_state \<Rightarrow> request \<Rightarrow> (('s, 'j) world, api_error, response) action" where
  "route D A Healthz = ret (Status 204)"
| "route D A (Readyz probe) = answer Status (readiness D probe)"
| "route D A Metrics = answer MetricsText (get_world (\<lambda>w. metrics_text (metrics w)))"
| "route D A (Batch ow rp hs b) = answer BatchAnswer (batch D A ow rp hs b)"
| "route D A (UploadBasic ow rp oid hs body i) = answer Status (upload_basic D A ow rp oid hs body i)"
| "route D A (DownloadBasic ow rp oid hs) = answer ObjectBody (download_basic D A ow rp oid hs)"
| "route D A (BeginCdc ow rp oid hs rq i) = answer UploadPlan (begin_cdc D A ow rp oid hs rq i)"
| "route D A (DownloadManifest ow rp oid hs) = answer ManifestBody (download_cdc_manifest D A ow rp oid hs)"
| "route D A (DownloadChunk ow rp oid k hs) = answer ChunkBody (download_cdc_chunk D A ow rp oid k hs)"
| "route D A (UploadChunk ow rp oid u k hs b) = answer Status (upload_cdc_chunk D A ow rp oid u k hs b)"
| "route D A (FinalizeCdc ow rp oid u hs) = answer Status (finalize_cdc D A ow rp oid u hs)"
| "route D A (CreateLock ow rp hs p i) = answer LockCreated (create_lock D A ow rp hs p i)"
| "route D A (ListLocks ow rp q hs) = answer LockPage (list_locks D A ow rp q hs)"
| "route D A (VerifyLocks ow rp hs v) = answer LockCheck (verify_locks D A ow rp hs v)"
| "route D A (Unlock ow rp i hs f) = answer LockReleased (unlock D A ow rp i hs f)"

definition serve :: "('s, 'j) server_deps \<Rightarrow> app_state \<Rightarrow> request \<Rightarrow> (('s, 'j) world, api_error, response) action" where
  "serve D A rq = record_http_metrics response_code (route D A rq)"

section \<open>Reachable states\<close>

text \<open>A call: an HTTP request, or an administrative command other than \<open>Migrate\<close>, whose effect belongs to SQLx.\<close>

datatype call = Http request | Command admin_command

text \<open>The parts of a deployment that stay fixed.\<close>

record ('s, 'j) deployment =
  deps :: "('s, 'j) server_deps"
  app :: app_state
  embedded_migrator :: "'j migrator"
  scanner :: "string \<Rightarrow> string + (string \<times> object_oid list)"
  rounds :: nat

fun perform :: "('s, 'j) deployment \<Rightarrow> call \<Rightarrow> ('s, 'j) world \<Rightarrow> ('s, 'j) world" where
  "perform S (Http rq) w = snd (serve (deps S) (app S) rq w)"
| "perform S (Command c) w = snd (admin (deps S) (embedded_migrator S) (scanner S) (rounds S) c w)"

text \<open>\<open>ok\<close> bounds the calls, \<open>calm\<close> what the environment scripts: delays, failures and the transactions of other
  processes.\<close>

inductive reaches ::
  "('s, 'j) deployment \<Rightarrow> (call \<Rightarrow> bool) \<Rightarrow> (('s, 'j) world \<Rightarrow> bool) \<Rightarrow> ('s, 'j) world \<Rightarrow> ('s, 'j) world \<Rightarrow> bool"
  for S ok calm w0 where
  start: "reaches S ok calm w0 w0"
| call: "reaches S ok calm w0 w \<Longrightarrow> ok c \<Longrightarrow> c \<noteq> Command Migrate \<Longrightarrow> reaches S ok calm w0 (perform S c w)"
| environment: "reaches S ok calm w0 w \<Longrightarrow> db w' = db w \<Longrightarrow> store w' = store w \<Longrightarrow> calm w' \<Longrightarrow> reaches S ok calm w0 w'"

inductive_cases reachesE: "reaches S ok calm w0 w"

section \<open>Preservation through the router\<close>

lemma record_http_metrics_keeps [keeps_intros]:
  assumes "\<And>w f. I (w\<lparr>metrics := f\<rparr>) = I w" "keeps I handler"
  shows "keeps I (record_http_metrics ok handler)"
proof (rule keepsI)
  fix w r w' assume i: "I w" and run: "record_http_metrics ok handler w = (r, w')"
  obtain x w1 where h: "handler (w\<lparr>metrics := (metrics w)\<lparr>in_flight := in_flight (metrics w) + 1\<rparr>\<rparr>) = (x, w1)"
    by (cases "handler (w\<lparr>metrics := (metrics w)\<lparr>in_flight := in_flight (metrics w) + 1\<rparr>\<rparr>)")
  have "I w1" by (rule keepsD [OF assms(2) _ h]) (simp add: assms(1) i)
  then show "I w'" using run h assms(1) by (auto simp: record_http_metrics_def Let_def)
qed

lemma answer_keeps [keeps_intros]: "keeps I m \<Longrightarrow> keeps I (answer f m)"
  unfolding answer_def by (auto intro!: keeps_intros)

lemma metrics_frame [simp]:
  "holds P (w\<lparr>metrics := f\<rparr>) = holds P w" "stable P (w\<lparr>metrics := f\<rparr>) = stable P w" "quiet (w\<lparr>metrics := f\<rparr>) = quiet w"
  by (simp_all add: holds_def stable_def quiet_def)

lemma set_world_ready_keeps [keeps_intros]:
  "keeps (holds P) (set_world (\<lambda>w. w\<lparr>storage_ready_until := x\<rparr>))" "keeps (stable P) (set_world (\<lambda>w. w\<lparr>storage_ready_until := x\<rparr>))"
  "keeps (store_is s) (set_world (\<lambda>w. w\<lparr>storage_ready_until := x\<rparr>))"
  by (simp_all add: keeps_def set_world_def holds_def stable_def store_is_def)

lemma select_one_keeps [simp]: "st_keeps P select_one"
  by (simp add: st_keeps_def select_one_def)

lemma readiness_local [keeps_intros]: "keeps (holds P) (readiness D probe)" "keeps (stable P) (readiness D probe)"
  unfolding readiness_def by (auto intro!: keeps_intros)

lemma batch_local [keeps_intros]:
  "keeps (holds P) (batch D A ow rp hs b)" "keeps (stable P) (batch D A ow rp hs b)" "keeps (store_is s) (batch D A ow rp hs b)"
  unfolding batch_def batch_step_def by (auto intro!: keeps_intros split: prod.split)

lemma downloads_local [keeps_intros]:
  "keeps (holds P) (download_basic D A ow rp oid hs)" "keeps (stable P) (download_basic D A ow rp oid hs)"
  "keeps (holds P) (download_cdc_manifest D A ow rp oid hs)" "keeps (stable P) (download_cdc_manifest D A ow rp oid hs)"
  "keeps (store_is s) (download_cdc_manifest D A ow rp oid hs)"
  "keeps (holds P) (download_cdc_chunk D A ow rp oid k hs)" "keeps (stable P) (download_cdc_chunk D A ow rp oid k hs)"
  unfolding download_basic_def download_cdc_manifest_def download_cdc_chunk_def by (auto intro!: keeps_intros)

lemma serve_keeps:
  assumes "json_roundtrip D"
  shows "keeps (holds (catalog_ok D)) (serve D A rq)" "keeps (stable P) (serve D A rq)"
  unfolding serve_def by (cases rq; auto intro!: keeps_intros assms)+

lemma admin_keeps:
  assumes "c \<noteq> Migrate"
  shows "keeps (holds (catalog_ok D)) (admin D M scan n c)" "keeps (stable P) (admin D M scan n c)"
  using assms unfolding admin_def run_schema_command_def by (auto intro!: keeps_intros)

lemma perform_catalog:
  assumes "json_roundtrip (deps S)" "c \<noteq> Command Migrate" "holds (catalog_ok (deps S)) w"
  shows "holds (catalog_ok (deps S)) (perform S c w)"
  using assms serve_keeps(1) [OF assms(1), of "app S"]
    admin_keeps(1) [of _ "deps S" "embedded_migrator S" "scanner S" "rounds S"]
  by (cases c) (auto simp: keeps_def)

text \<open>Claim C4: the catalogue invariant holds in every reachable state.  Whatever requests and commands arrive, in whatever order,
  whatever fails in between and whatever other processes commit as long as they preserve the invariant themselves: the
  constraints of the schema hold, every reference count is exact, and every object is linked to exactly the chunks of its
  well-formed manifest.\<close>

theorem reachable_catalog:
  assumes "json_roundtrip (deps S)" "reaches S ok (stable (catalog_ok (deps S))) w0 w"
    and "catalog_ok (deps S) (db w0)" "stable (catalog_ok (deps S)) w0"
  shows "catalog_ok (deps S) (db w)"
proof -
  have "holds (catalog_ok (deps S)) w"
    using assms(2)
  proof induction
    case start
    then show ?case using assms(3,4) by (simp add: holds_def)
  next
    case (call w c)
    then show ?case using perform_catalog [OF assms(1)] by blast
  next
    case (environment w w')
    then show ?case by (simp add: holds_def)
  qed
  then show ?thesis by (simp add: holds_def)
qed

section \<open>Availability\<close>

lemma upload_ok_frame [simp]:
  "system_ok D contents (w\<lparr>metrics := f\<rparr>) = system_ok D contents w" "store_clean D contents U (w\<lparr>metrics := f\<rparr>) = store_clean D contents U w"
  "upload_ok D contents U (w\<lparr>metrics := f\<rparr>) = upload_ok D contents U w"
  by (simp_all add: upload_ok_def system_ok_def store_clean_def quiet_def)

text \<open>Bodies a request carries: chunks, and the pieces a whole-object upload is cut into.\<close>

fun bodies_in :: "('s, 'j) server_deps \<Rightarrow> bytes set \<Rightarrow> call \<Rightarrow> bool" where
  "bodies_in D U (Http (UploadChunk ow rp oid u k hs b)) \<longleftrightarrow> b \<in> U"
| "bodies_in D U (Http (UploadBasic ow rp oid hs (Reader content err) i)) \<longleftrightarrow>
     cdc_ok D content \<and> (\<forall>e. \<forall>c \<in> set (fst (produce D (new_stream D (Reader content e) beta_v1))). chunk_data c \<in> U)"
| "bodies_in D U c \<longleftrightarrow> True"

text \<open>Actions that leave every chunk in place.\<close>

definition view_is ::
  "('s, 'j) server_deps \<Rightarrow> ('s \<Rightarrow> string \<Rightarrow> bytes option) \<Rightarrow> (uuid \<Rightarrow> chunk_id \<Rightarrow> bytes option) \<Rightarrow> ('s, 'j) world \<Rightarrow> bool" where
  "view_is D contents v w \<longleftrightarrow> chunk_view D contents (store w) = v"

lemma view_isD: "(\<And>v. keeps (view_is D contents v) m) \<Longrightarrow> m w = (r, w') \<Longrightarrow> chunk_view D contents (store w') = chunk_view D contents (store w)"
  using keepsD [of "view_is D contents (chunk_view D contents (store w))" m w] by (auto simp: view_is_def)

lemma view_is_grows: "(\<And>v. keeps (view_is D contents v) m) \<Longrightarrow> keeps (grows D contents s) m"
  by (rule keepsI) (metis grows_def view_isD)

lemma view_is_clean: "(\<And>v. keeps (view_is D contents v) m) \<Longrightarrow> keeps (store_clean D contents U) m"
  by (rule keepsI) (metis store_clean_def view_isD)

lemma store_is_view: "(\<And>s. keeps (store_is s) m) \<Longrightarrow> keeps (view_is D contents v) m"
  by (rule keepsI) (metis view_is_def keeps_storeD)

lemma view_is_frame [simp]: "view_is D contents v (w\<lparr>metrics := f\<rparr>) = view_is D contents v w"
  by (simp add: view_is_def)

lemma view_is_on_store:
  assumes "\<And>s. chunk_view D contents (snd (op s)) = chunk_view D contents s"
  shows "keeps (view_is D contents v) (on_store op)"
  using assms by (simp add: keeps_def view_is_def on_store_def case_prod_beta)

lemma view_is_intros [keeps_intros]:
  "keeps (view_is D contents v) (authenticate D' A hs ow rp a)" "keeps (view_is D contents v) (repository_id ow rp)"
  "keeps (view_is D contents v) (load_open_upload D' r oid u)" "keeps (view_is D contents v) acquire_permit"
  "keeps (view_is D contents v) (exec_tx st)" "keeps (view_is D contents v) (exec_pool st)"
  "keeps (view_is D contents v) (bump f)" "keeps (view_is D contents v) file_io" "keeps (view_is D contents v) instant_now"
  "keeps (view_is D contents v) (load_finalizable_upload D' r oid u)" "keeps (view_is D contents v) (load_manifest D' r oid)"
  "keeps (view_is D contents v) (publish_manifest D' r u m)" "keeps (view_is D contents v) (batch D' A ow rp hs b)"
  "keeps (view_is D contents v) (create_lock D' A ow rp hs p i)" "keeps (view_is D contents v) (list_locks D' A ow rp q hs)"
  "keeps (view_is D contents v) (verify_locks D' A ow rp hs vr)" "keeps (view_is D contents v) (unlock D' A ow rp i hs fc)"
  "keeps (view_is D contents v) (download_cdc_manifest D' A ow rp oidt hs)"
  "keeps (view_is D contents v) (set_world (\<lambda>w. w\<lparr>storage_ready_until := x\<rparr>))"
  by (rule store_is_view, rule keeps_intros)+

lemma view_is_transaction [keeps_intros]:
  "(\<And>s. keeps (store_is s) body) \<Longrightarrow> keeps (view_is D contents v) (transaction cv body)"
  by (rule store_is_view) (rule transaction_store)

lemma view_is_provider:
  assumes "object_store D contents"
  shows "keeps (view_is D contents v) (on_store (\<lambda>s. get_verified D s r c))" "keeps (view_is D contents v) (on_store (\<lambda>s. chunk_exists D s r c))"
    "keeps (view_is D contents v) (on_store (\<lambda>s. healthcheck D s probe))"
proof -
  note laws = object_store.chunk_store_laws [OF assms]
  show "keeps (view_is D contents v) (on_store (\<lambda>s. get_verified D s r c))" "keeps (view_is D contents v) (on_store (\<lambda>s. chunk_exists D s r c))"
    by (rule view_is_on_store, rule chunk_store.get_view [OF laws] chunk_store.exists_view [OF laws])+
  have "chunk_view D contents (snd (healthcheck D s probe)) = chunk_view D contents s" for s
    using object_store.healthcheck_frame [OF assms, of s probe "fst (healthcheck D s probe)"] by simp
  then show "keeps (view_is D contents v) (on_store (\<lambda>s. healthcheck D s probe))" by (rule view_is_on_store)
qed

lemma view_is_handlers:
  assumes "object_store D contents"
  shows "keeps (view_is D contents v) (download_basic D A ow rp oid hs)" "keeps (view_is D contents v) (download_cdc_chunk D A ow rp oid k hs)"
    "keeps (view_is D contents v) (readiness D probe)" "keeps (view_is D contents v) (begin_cdc D A ow rp oid hs rq i)"
    "keeps (view_is D contents v) (finalize_cdc D A ow rp oid u hs)"
  unfolding download_basic_def download_cdc_chunk_def readiness_def begin_cdc_def finalize_cdc_def
    stage_chunks_def read_all_def read_chunk_def missing_step_def
  by (auto intro!: keeps_intros view_is_provider [OF assms] split: prod.split)

lemma lock_statements_objects [simp, intro!]:
  "st_keeps (objects_in S) (insert_lock D i r p sub)" "st_keeps (objects_in S) (delete_lock D i r)"
  "st_keeps (objects_in S) (insert_repository i ow nm)" "st_keeps (objects_in S) (upsert_grant r sub wr ad)"
  by (rule st_keepsI; auto simp: objects_in_def insert_lock_def delete_lock_def insert_repository_def upsert_grant_def ok_iff Let_def
      split: option.splits)+

lemma lock_handlers_objects [keeps_intros]:
  "keeps (holds (objects_in S)) (create_lock D A ow rp hs p i)" "keeps (holds (objects_in S)) (unlock D A ow rp i hs f)"
  unfolding create_lock_def unlock_def by (auto intro!: keeps_intros split: prod.split)

text \<open>Requests other than uploads change neither the objects nor the chunks.\<close>

fun is_upload :: "request \<Rightarrow> bool" where
  "is_upload (UploadBasic ow rp oid hs body i) \<longleftrightarrow> True"
| "is_upload (BeginCdc ow rp oid hs rq i) \<longleftrightarrow> True"
| "is_upload (UploadChunk ow rp oid u k hs b) \<longleftrightarrow> True"
| "is_upload (FinalizeCdc ow rp oid u hs) \<longleftrightarrow> True"
| "is_upload rq \<longleftrightarrow> False"

lemma route_reads:
  assumes "object_store D contents" "\<not> is_upload rq"
  shows "keeps (view_is D contents v) (serve D A rq)" "keeps (holds (\<lambda>d. objects d = os)) (serve D A rq)"
proof -
  have st: "st_keeps (\<lambda>d. objects d = os) (insert_lock D i r p sub)" "st_keeps (\<lambda>d. objects d = os) (delete_lock D i r)" for i r p sub
    by (rule st_keepsI; auto simp: insert_lock_def delete_lock_def ok_iff)+
  have lk: "keeps (holds (\<lambda>d. objects d = os)) (create_lock D A ow rp hs p i)" "keeps (holds (\<lambda>d. objects d = os)) (unlock D A ow rp i hs f)"
    for ow rp hs p i f
    unfolding create_lock_def unlock_def by (auto intro!: keeps_intros st split: prod.split)
  show "keeps (view_is D contents v) (serve D A rq)"
    using assms(2) unfolding serve_def by (cases rq) (auto intro!: keeps_intros view_is_handlers [OF assms(1)])
  show "keeps (holds (\<lambda>d. objects d = os)) (serve D A rq)"
    using assms(2) unfolding serve_def by (cases rq) (auto intro!: keeps_intros lk)
qed

lemma upload_okI_keeps:
  "keeps (system_ok D contents) m \<Longrightarrow> keeps (store_clean D contents U) m \<Longrightarrow> keeps (upload_ok D contents U) m"
  by (simp add: keeps_def upload_ok_def)

lemma upload_cdc_chunk_clean:
  assumes "object_store D contents" "b \<in> U"
  shows "keeps (store_clean D contents U) (upload_cdc_chunk D A ow rp ot u i hs b)"
  unfolding upload_cdc_chunk_def
  by (intro keeps_andthen register_clean [OF assms] keeps_of_result keeps_guard_err keeps_ret)
    (rule store_is_clean, rule keeps_intros)+

lemma quiet_unchanged:
  assumes sys: "upload_ok D contents U w" and run: "m w = (r, w')"
    and k: "keeps (holds (catalog_ok D)) m" "\<And>P. keeps (stable P) m"
      "keeps (view_is D contents (chunk_view D contents (store w))) m" "keeps (holds (\<lambda>d. objects d = objects (db w))) m"
  shows "upload_ok D contents U w' \<and> objects (db w') = objects (db w) \<and> chunk_view D contents (store w') = chunk_view D contents (store w)"
proof -
  have q: "quiet w" and c: "catalog_ok D (db w)" using sys by (auto simp: upload_ok_def system_ok_def)
  have v: "chunk_view D contents (store w') = chunk_view D contents (store w)"
    using keepsD [OF k(3) _ run] by (simp add: view_is_def)
  have o: "objects (db w') = objects (db w)"
    using keeps_holdsD [OF k(4) _ run] q by (simp add: holds_def quiet_stable)
  have "catalog_ok D (db w')" using keeps_holdsD [OF k(1) _ run] q c by (simp add: holds_def quiet_stable)
  moreover have "quiet w'" using keepsD [OF keeps_quiet [OF k(2)] q run] .
  ultimately show ?thesis
    using sys v o present_cong(2) [OF v] by (simp add: upload_ok_def system_ok_def store_clean_def)
qed

lemma serve_upload_ok:
  assumes "object_store D contents" "json_roundtrip D" "inj_on (blake3 D) U" "cdc_reports_errors D" "bodies_in D U (Http rq)"
  shows "keeps (upload_ok D contents U) (serve D A rq)"
proof (cases "is_upload rq")
  case False
  show ?thesis
    by (rule keepsI) (use quiet_unchanged [OF _ _ serve_keeps [OF assms(2)] route_reads [OF assms(1) False]] in blast)
next
  case True
  then show ?thesis
    using assms(5) unfolding serve_def
  proof (cases rq)
    case (UploadBasic ow rp oid hs body i)
    obtain content err where body: "body = Reader content err" by (cases body)
    show "keeps (upload_ok D contents U) (record_http_metrics response_code (route D A rq))"
      using assms(5) UploadBasic body upload_basic_upload_ok [OF assms(1-3) _ assms(4)]
      by (auto intro!: record_http_metrics_keeps answer_keeps)
  next
    case (BeginCdc ow rp oid hs brq i)
    then show "keeps (upload_ok D contents U) (record_http_metrics response_code (route D A rq))"
      by (auto intro!: record_http_metrics_keeps answer_keeps upload_okI_keeps begin_cdc_system [OF assms(1,2)]
          view_is_clean view_is_handlers [OF assms(1)])
  next
    case (UploadChunk ow rp oid u k hs b)
    then show "keeps (upload_ok D contents U) (record_http_metrics response_code (route D A rq))"
      using assms(5) by (auto intro!: record_http_metrics_keeps answer_keeps upload_okI_keeps upload_cdc_chunk_system [OF assms(1)]
          upload_cdc_chunk_clean [OF assms(1)])
  next
    case (FinalizeCdc ow rp oid u hs)
    then show "keeps (upload_ok D contents U) (record_http_metrics response_code (route D A rq))"
      by (auto intro!: record_http_metrics_keeps answer_keeps upload_okI_keeps finalize_cdc_system [OF assms(1,2)]
          view_is_clean view_is_handlers [OF assms(1)])
  qed auto
qed

text \<open>Maintenance: draining only removes chunks.\<close>

lemma transaction_store_sat:
  assumes "keeps (\<lambda>w. G (store w)) body"
  shows "keeps (\<lambda>w. G (store w)) (transaction cv body)"
proof (rule keepsI)
  fix w r w' assume h: "G (store w)" and run: "transaction cv body w = (r, w')"
  obtain b w1 where b: "db_begin w = (b, w1)" by (cases "db_begin w")
  obtain x w2 where x: "body w1 = (x, w2)" by (cases "body w1")
  obtain ev w3 where t: "take_event w2 = (ev, w3)" by (cases "take_event w2")
  have s1: "G (store w1)" using h keeps_storeD [OF db_begin_store b] by simp
  have s2: "G (store w2)" using keepsD [OF assms s1 x] .
  have s3: "G (store w3)" using s2 take_event_frame(2) [OF t] by simp
  show "G (store w')"
    using run b x t s1 s2 s3 by (auto simp: transaction_def split: sum.splits db_outcome.splits)
qed

lemma store_clean_sat: "store_clean D contents U = (\<lambda>w. \<forall>r c b. chunk_view D contents (store w) r c = Some b \<longrightarrow> blake3 D b = c \<and> b \<in> U)"
  by (simp add: store_clean_def fun_eq_iff)

lemma delete_clean:
  assumes "object_store D contents"
  shows "keeps (store_clean D contents U) (on_store (\<lambda>s. delete_chunk D s r c))"
proof (rule keepsI)
  fix w x w' assume cl: "store_clean D contents U w" and run: "on_store (\<lambda>s. delete_chunk D s r c) w = (x, w')"
  obtain s' where d: "delete_chunk D (store w) r c = (x, s')" "store w' = s'"
    using run by (auto simp: on_store_def split: prod.splits)
  note laws = object_store.chunk_store_laws [OF assms]
  have "chunk_view D contents s' = chunk_view D contents (store w)
      \<or> chunk_view D contents s' = view_upd (chunk_view D contents (store w)) r c None"
    using d(1) chunk_store.delete_ok [OF laws] chunk_store.delete_err [OF laws] by (cases x) auto
  then show "store_clean D contents U w'"
    using cl d(2) by (auto simp: store_clean_def view_upd_def split: if_splits)
qed

lemma gc_store_local [keeps_intros]:
  "keeps (store_is s) (submit_snapshot sn e)" "keeps (store_is s) (dry_run r)" "keeps (store_is s) (stage r g)"
  "keeps (store_is s) (collect_one r)"
  unfolding submit_snapshot_def stage_def dry_run_def collect_one_def collect_body_def release_chunk_def
  by (auto intro!: keeps_intros)

lemma statements_clean [keeps_intros]:
  "keeps (store_clean D contents U) (exec_tx st)" "keeps (store_clean D contents U) (exec_pool st)"
  by (rule store_is_clean, rule keeps_intros)+

lemma drain_clean:
  assumes "object_store D contents"
  shows "keeps (store_clean D contents U) (drain_chunk_queue D r)"
proof -
  have "keeps (store_clean D contents U) (drain_body D r raw)" for raw
    unfolding drain_body_def by (auto intro!: keeps_intros delete_clean [OF assms])
  then have "keeps (store_clean D contents U) (drain_one D r raw)" for raw
    unfolding drain_one_def store_clean_sat by (rule transaction_store_sat)
  then show ?thesis unfolding drain_chunk_queue_def by (auto intro!: keeps_intros)
qed

lemma collect_loop_store [keeps_intros]: "keeps (store_is s) (collect_loop n r k)"
  by (induction n arbitrary: k) (auto intro!: keeps_intros)

lemma gc_clean:
  assumes "object_store D contents"
  shows "keeps (store_clean D contents U) (collect_due D n r)" "keeps (store_clean D contents U) (reclaim_expired_uploads D r g)"
proof -
  have c: "keeps (store_clean D contents U) (collect_loop n r 0)" by (rule store_is_clean, rule keeps_intros)
  show "keeps (store_clean D contents U) (collect_due D n r)"
    unfolding collect_due_def by (auto intro!: keeps_intros c drain_clean [OF assms])
  have t: "keeps (store_clean D contents U) (transaction GcDatabase (
       andthen (gc_tx (expire_sessions r)) (\<lambda>_. andthen (gc_tx (enqueue_abandoned r k)) (\<lambda>_. gc_tx (delete_stale_sessions r k)))))" for k
    by (rule store_is_clean) (auto intro!: keeps_intros)
  show "keeps (store_clean D contents U) (reclaim_expired_uploads D r g)"
    unfolding reclaim_expired_uploads_def by (auto intro!: keeps_intros t drain_clean [OF assms])
qed

lemma run_command_upload_ok:
  assumes "object_store D contents"
  shows "keeps (upload_ok D contents U) (run_command D scan n c)"
proof -
  have stm: "keeps (upload_ok D contents U) (exec_pool (insert_repository i ow nm))" "keeps (upload_ok D contents U) (exec_pool (upsert_grant r sub wr ad))"
    for i ow nm r sub wr ad
    by (rule keeps_upload_ok; auto intro!: keeps_intros)+
  have gc: "keeps (upload_ok D contents U) (submit_snapshot sn e)" "keeps (upload_ok D contents U) (dry_run r)" "keeps (upload_ok D contents U) (stage r g)"
    "keeps (upload_ok D contents U) (collect_due D n r)" "keeps (upload_ok D contents U) (reclaim_expired_uploads D r g)" for sn e r g
    by (rule upload_okI_keeps; auto intro!: gc_admin_system collect_due_system [OF assms] reclaim_system [OF assms] gc_clean [OF assms]
        store_is_clean gc_store_local)+
  show ?thesis
    by (cases c) (auto intro!: keeps_intros stm gc split: prod.split option.split)
qed

lemma admin_upload_ok:
  assumes "object_store D contents" "c \<noteq> Migrate"
  shows "keeps (upload_ok D contents U) (admin D M scan n c)"
proof -
  have "keeps (upload_ok D contents U) (schema_status_of M)" "keeps (upload_ok D contents U) (schema_check M)"
    by (rule keeps_upload_ok; auto intro!: keeps_intros store_is_grows store_is_clean)+
  then show ?thesis
    using assms unfolding admin_def run_schema_command_def by (auto intro!: keeps_intros run_command_upload_ok)
qed

lemma perform_upload_ok:
  assumes "object_store (deps S) contents" "json_roundtrip (deps S)" "inj_on (blake3 (deps S)) U" "cdc_reports_errors (deps S)"
    and "bodies_in (deps S) U c" "c \<noteq> Command Migrate" "upload_ok (deps S) contents U w"
  shows "upload_ok (deps S) contents U (perform S c w)"
proof (cases c)
  case (Http rq)
  then show ?thesis using serve_upload_ok [OF assms(1-4), of rq "app S"] assms(5,7) by (simp add: keeps_def)
next
  case (Command ac)
  then show ?thesis
    using admin_upload_ok [OF assms(1), of ac U "embedded_migrator S" "scanner S" "rounds S"] assms(6,7) by (simp add: keeps_def)
qed

lemma reaches_upload_ok:
  assumes "reaches S (bodies_in (deps S) U) quiet w0 w"
    and "object_store (deps S) contents" "json_roundtrip (deps S)" "inj_on (blake3 (deps S)) U" "cdc_reports_errors (deps S)"
    and "upload_ok (deps S) contents U w0"
  shows "upload_ok (deps S) contents U w"
  using assms(1)
proof induction
  case start
  then show ?case by (rule assms(6))
next
  case (call w c)
  then show ?case using perform_upload_ok [OF assms(2-5)] by blast
next
  case (environment w w')
  then show ?case by (simp add: upload_ok_def system_ok_def store_clean_def)
qed

text \<open>Claim C3: no published object is ever lost or damaged.  In every state reachable without concurrent writers, whatever
  requests arrive and whichever operations fail (the database, the provider, file I/O, authentication), each object in the
  catalogue can be reconstructed: all its chunks are stored with the right identities and lengths, and together they hash to
  its SHA-256.  \<open>U\<close> is a set of byte strings on which BLAKE3 does not collide and from which all uploaded chunks come.\<close>

theorem published_objects_available:
  assumes "reaches S (bodies_in (deps S) U) quiet w0 w" "upload_ok (deps S) contents U w0"
    and "object_store (deps S) contents" "json_roundtrip (deps S)" "inj_on (blake3 (deps S)) U" "cdc_reports_errors (deps S)"
    and "o' \<in> set (objects (db w))"
  shows "available (deps S) contents (store w) o'"
  using reaches_upload_ok [OF assms(1,3-6,2)] assms(7) by (simp add: upload_ok_def system_ok_def)

section \<open>Concrete runs\<close>

definition demo_deployment :: "(mem_store, object_manifest) deployment" where
  "demo_deployment = \<lparr>deps = demo_deps, app = demo_app, embedded_migrator = demo_migrator, scanner = (\<lambda>_. Inl ''no remote''), rounds = 5\<rparr>"

lemma demo_deployment_simps [simp]: "deps demo_deployment = demo_deps" "app demo_deployment = demo_app"
  by (simp_all add: demo_deployment_def)

lemma demo_errors: "cdc_reports_errors demo_deps"
proof -
  have "finish demo_deps (new_stream demo_deps (Reader content (Some e)) beta_v1) = Inl (Chunking e)" for content e
    by (simp add: finish_def stream_chunks.simps next_chunk_def new_stream_def demo_fields)
  then show ?thesis by (simp add: cdc_reports_errors_def)
qed

lemma demo_stored: "chunk_view demo_deps mem_contents sample_store r c = Some b \<longleftrightarrow> r = 5 \<and> c = digest_fill 9 \<and> b = replicate 32 9"
  by (auto simp: chunk_view_def mem_contents_def sample_store_def demo_path mem.path_eq_iff)

lemma demo_upload_ok: "upload_ok demo_deps mem_contents {replicate 32 9} (demo_world demo_published)"
proof -
  have "present demo_deps mem_contents sample_store 5 (chunks demo_manifest) [replicate 32 9]"
    by (simp add: present_def holds_chunk_def demo_manifest_def demo_stored)
  then have "available demo_deps mem_contents sample_store demo_object"
    by (auto simp: available_def demo_object_def intro!: exI [of _ "[replicate 32 9]"])
  moreover have "objects demo_published = [demo_object]" by (simp add: demo_published_def)
  ultimately show ?thesis
    using demo_catalog(3) by (simp add: upload_ok_def system_ok_def store_clean_def demo_stored)
qed

theorem reachable_catalog_witness:
  "catalog_ok demo_deps (db (perform demo_deployment (Http (DownloadBasic ''o'' ''r'' demo_oid_text demo_headers)) (demo_world demo_published)))"
  using reachable_catalog [of demo_deployment "\<lambda>_. True" "demo_world demo_published"] demo_json demo_catalog(3)
    reaches.call [OF reaches.start, of "\<lambda>_. True" "Http (DownloadBasic ''o'' ''r'' demo_oid_text demo_headers)" demo_deployment]
  by (simp add: quiet_stable)

theorem published_objects_available_witness:
  "available demo_deps mem_contents (store (demo_world demo_published)) demo_object"
  using published_objects_available [OF reaches.start, of demo_deployment mem_contents "{replicate 32 9}" "demo_world demo_published" demo_object]
    demo_upload_ok demo.object_store_axioms demo_json demo_errors
  by (simp add: demo_published_def)

end
