(* ===== verification/Refinement.thy ===== *)
theory Refinement
  imports System
begin

text \<open>
  The service refines an abstract map from (repository, identity) to content: reads leave it alone, uploads
  only add verified entries, collection only drops entries; and a download of an entry succeeds on a healthy server and
  returns its content.
\<close>

section \<open>Refinement of an object map\<close>

text \<open>The abstract state: which content every (repository, identity) has.\<close>

definition object_content ::
  "('s, 'j) server_deps \<Rightarrow> ('s \<Rightarrow> string \<Rightarrow> bytes option) \<Rightarrow> 's \<Rightarrow> 'j object_row \<Rightarrow> bytes option" where
  "object_content D contents s o' = (case from_value D (obj_manifest o') of
       Inl _ \<Rightarrow> None
     | Inr m \<Rightarrow> map_option concat (those (map (\<lambda>c. chunk_view D contents s (obj_repo o') (cd_id c)) (chunks m))))"

definition object_map ::
  "('s, 'j) server_deps \<Rightarrow> ('s \<Rightarrow> string \<Rightarrow> bytes option) \<Rightarrow> ('s, 'j) world \<Rightarrow> uuid \<times> bytes \<Rightarrow> bytes option" where
  "object_map D contents w k = Option.bind (find (\<lambda>o'. object_key o' = k) (objects (db w))) (object_content D contents (store w))"

text \<open>What a call may do to the map: leave it, add entries whose content hashes to their key, or drop entries.\<close>

datatype effect = Reads | Adds | Removes

fun allowed :: "(bytes \<Rightarrow> bytes) \<Rightarrow> effect \<Rightarrow> (uuid \<times> bytes \<Rightarrow> bytes option) \<Rightarrow> (uuid \<times> bytes \<Rightarrow> bytes option) \<Rightarrow> bool" where
  "allowed hash Reads M M' \<longleftrightarrow> M' = M"
| "allowed hash Adds M M' \<longleftrightarrow> M \<subseteq>\<^sub>m M' \<and> (\<forall>k v. M' k = Some v \<longrightarrow> M k = None \<longrightarrow> hash v = snd k)"
| "allowed hash Removes M M' \<longleftrightarrow> M' \<subseteq>\<^sub>m M"

fun effect_of :: "call \<Rightarrow> effect" where
  "effect_of (Http rq) = (if is_upload rq then Adds else Reads)"
| "effect_of (Command (GcCollect r)) = Removes"
| "effect_of (Command (UploadsReclaim r g)) = Removes"
| "effect_of (Command c) = Reads"

lemma those_some: "those xs = Some ys \<longleftrightarrow> xs = map Some ys"
  by (induction xs arbitrary: ys) (auto split: option.splits)

lemma present_those: "present D contents s r cs bs \<Longrightarrow> those (map (\<lambda>c. chunk_view D contents s r (cd_id c)) cs) = Some bs"
  unfolding those_some present_def by (induction rule: list_all2_induct) (auto simp: holds_chunk_def)

lemma present_length: "present D contents s r cs bs \<Longrightarrow> length (concat bs) = sum_list (map chunk_len cs)"
  unfolding present_def by (induction rule: list_all2_induct) (auto simp: holds_chunk_def)

lemma available_content:
  assumes "available D contents s o'"
  shows "\<exists>v. object_content D contents s o' = Some v \<and> as_bytes (sha256 D v) = obj_oid o'"
  using assms present_those by (fastforce simp: available_def object_content_def)

lemma map_Some_mono: "map f xs = map Some ys \<Longrightarrow> (\<And>x b. x \<in> set xs \<Longrightarrow> f x = Some b \<Longrightarrow> g x = Some b) \<Longrightarrow> map g xs = map Some ys"
  by (induction xs arbitrary: ys) auto

lemma object_content_mono:
  assumes "object_content D contents s o' = Some v"
    and "\<And>m c b. from_value D (obj_manifest o') = Inr m \<Longrightarrow> c \<in> set (chunks m) \<Longrightarrow>
      chunk_view D contents s (obj_repo o') (cd_id c) = Some b \<Longrightarrow> chunk_view D contents s' (obj_repo o') (cd_id c) = Some b"
  shows "object_content D contents s' o' = Some v"
proof -
  from assms(1) obtain m z where m: "from_value D (obj_manifest o') = Inr m" "v = concat z"
    and z: "map (\<lambda>c. chunk_view D contents s (obj_repo o') (cd_id c)) (chunks m) = map Some z"
    by (auto simp: object_content_def those_some split: sum.splits)
  have "map (\<lambda>c. chunk_view D contents s' (obj_repo o') (cd_id c)) (chunks m) = map Some z"
    by (rule map_Some_mono [OF z]) (rule assms(2) [OF m(1)])
  then show ?thesis using m by (simp add: object_content_def those_some [THEN iffD2])
qed

lemma find_object:
  assumes "schema_ok d"
  shows "find (\<lambda>o'. object_key o' = k) (objects d) = Some o' \<longleftrightarrow> o' \<in> set (objects d) \<and> object_key o' = k"
proof
  assume r: "o' \<in> set (objects d) \<and> object_key o' = k"
  then obtain x where x: "find (\<lambda>o'. object_key o' = k) (objects d) = Some x"
    by (cases "find (\<lambda>o'. object_key o' = k) (objects d)") (auto simp: find_None_iff)
  have "inj_on object_key (set (objects d))" using assms by (simp add: schema_ok_def uniques_ok_def distinct_map)
  from inj_onD [OF this, of x o'] show "find (\<lambda>o'. object_key o' = k) (objects d) = Some o'"
    using find_SomeD [OF x] r x by simp
qed (rule find_SomeD)

lemma object_map_some:
  assumes "schema_ok (db w)"
  shows "object_map D contents w k = Some v \<longleftrightarrow>
    (\<exists>o' \<in> set (objects (db w)). object_key o' = k \<and> object_content D contents (store w) o' = Some v)"
  using find_object [OF assms, of k] by (fastforce simp: object_map_def bind_eq_Some_conv)

lemma object_map_le:
  assumes "schema_ok (db w)" "schema_ok (db w')" "set (objects (db w)) \<subseteq> set (objects (db w'))"
    and "\<And>o' c b. o' \<in> set (objects (db w)) \<Longrightarrow> object_content D contents (store w) o' = Some b \<Longrightarrow> object_content D contents (store w') o' = Some b"
  shows "object_map D contents w \<subseteq>\<^sub>m object_map D contents w'"
proof (unfold map_le_def, rule ballI)
  fix k assume "k \<in> dom (object_map D contents w)"
  then obtain v where v: "object_map D contents w k = Some v" by blast
  then have "object_map D contents w' k = Some v"
    using assms(3,4) unfolding object_map_some [OF assms(1)] object_map_some [OF assms(2)] by blast
  then show "object_map D contents w k = object_map D contents w' k" using v by simp
qed

text \<open>Uploads never remove an object row.\<close>

lemma objects_kept_statements [simp, intro!]:
  "st_keeps (\<lambda>d. S \<subseteq> set (objects d)) (expire_sessions_of r oid)" "st_keeps (\<lambda>d. S \<subseteq> set (objects d)) (upsert_open_session i r oid n j)"
  "st_keeps (\<lambda>d. S \<subseteq> set (objects d)) (upsert_chunk r c n)" "st_keeps (\<lambda>d. S \<subseteq> set (objects d)) (insert_session_chunk u r c)"
  "st_keeps (\<lambda>d. S \<subseteq> set (objects d)) (insert_chunk_if_absent r c n)" "st_keeps (\<lambda>d. S \<subseteq> set (objects d)) (finalize_session u)"
  "st_keeps (\<lambda>d. S \<subseteq> set (objects d)) (insert_object_chunk r oid od c p l)" "st_keeps (\<lambda>d. S \<subseteq> set (objects d)) (add_references k r c)"
  "st_keeps (\<lambda>d. S \<subseteq> set (objects d)) (insert_object_if_absent r oid n j)"
  by (rule st_keepsI; auto simp: expire_sessions_of_def upsert_open_session_def upsert_chunk_def insert_object_if_absent_def
      insert_session_chunk_def insert_chunk_if_absent_def finalize_session_def insert_object_chunk_def
      add_references_def ok_iff Let_def split: if_splits option.splits)+

lemma objects_kept_parts [keeps_intros]:
  "keeps (holds (\<lambda>d. S \<subseteq> set (objects d))) (ensure_upload_session D i r m)"
  "keeps (holds (\<lambda>d. S \<subseteq> set (objects d))) (register_and_store_chunk D r u c b)"
  "keeps (holds (\<lambda>d. S \<subseteq> set (objects d))) (publish_manifest D r u m)"
  unfolding ensure_upload_session_def register_and_store_chunk_def publish_manifest_def publish_body_def link_chunk_def
  by (auto intro!: keeps_intros transaction_keeps keeps_ok_keeps split: prod.split)

lemma upload_basic_grows:
  assumes "object_store D contents" "json_roundtrip D"
  shows "keeps (grows D contents s) (upload_basic D A ow rp oid hs body i)"
proof -
  have "keeps (grows D contents s) (ensure_upload_session D i r m)" "keeps (grows D contents s) (publish_manifest D r u m)" for r m u
    by (rule store_is_grows, auto intro!: keeps_intros assms)+
  then show ?thesis
    unfolding upload_basic_def by (intro keeps_intros register_and_store_chunk_grows [OF assms(1)]) auto
qed

lemma route_adds:
  assumes "object_store D contents" "json_roundtrip D" "is_upload rq"
  shows "keeps (holds (\<lambda>d. S \<subseteq> set (objects d))) (serve D A rq)" "keeps (grows D contents s) (serve D A rq)"
proof -
  have fr: "grows D contents s (w\<lparr>metrics := f\<rparr>) = grows D contents s w" for w f by (simp add: grows_def)
  have basic: "keeps (holds (\<lambda>d. S \<subseteq> set (objects d))) (upload_basic D A ow rp oid hs body i)" for ow rp oid hs body i
    unfolding upload_basic_def by (intro keeps_intros)
  have others: "keeps (holds (\<lambda>d. S \<subseteq> set (objects d))) (begin_cdc D A ow rp oid hs brq i)" "keeps (holds (\<lambda>d. S \<subseteq> set (objects d))) (upload_cdc_chunk D A ow rp oid u k hs b)"
    "keeps (holds (\<lambda>d. S \<subseteq> set (objects d))) (finalize_cdc D A ow rp oid u hs)" for ow rp oid hs brq i u k b
    unfolding begin_cdc_def upload_cdc_chunk_def finalize_cdc_def by (auto intro!: keeps_intros transaction_keeps keeps_ok_keeps split: prod.split)
  have chunk: "keeps (grows D contents s) (upload_cdc_chunk D A ow rp oid u k hs b)" for ow rp oid hs u k b
    unfolding upload_cdc_chunk_def by (auto intro!: keeps_intros assms)
  show "keeps (holds (\<lambda>d. S \<subseteq> set (objects d))) (serve D A rq)"
    using assms(3) unfolding serve_def by (cases rq) (auto intro!: record_http_metrics_keeps answer_keeps basic others)
  have cdc: "keeps (grows D contents s) (begin_cdc D A ow rp oid hs brq i)" "keeps (grows D contents s) (finalize_cdc D A ow rp oid u hs)" for ow rp oid hs brq i u
    by (rule view_is_grows, rule view_is_handlers [OF assms(1)])+
  show "keeps (grows D contents s) (serve D A rq)"
    using assms(3) unfolding serve_def
    by (cases rq) (auto simp: fr intro!: record_http_metrics_keeps answer_keeps upload_basic_grows [OF assms(1,2)] chunk cdc)
qed

text \<open>Collection only drops entries.\<close>

definition map_within ::
  "('s, 'j) server_deps \<Rightarrow> ('s \<Rightarrow> string \<Rightarrow> bytes option) \<Rightarrow> (uuid \<times> bytes \<Rightarrow> bytes option) \<Rightarrow> ('s, 'j) world \<Rightarrow> bool" where
  "map_within D contents M w \<longleftrightarrow> system_ok D contents w \<and> object_map D contents w \<subseteq>\<^sub>m M"

lemma object_map_shrinks:
  assumes "system_ok D contents w" "system_ok D contents w'" "set (objects (db w')) \<subseteq> set (objects (db w))"
    and same: "\<And>o' b. o' \<in> set (objects (db w')) \<Longrightarrow> object_content D contents (store w) o' = Some b \<Longrightarrow> object_content D contents (store w') o' = Some b"
  shows "object_map D contents w' \<subseteq>\<^sub>m object_map D contents w"
proof (unfold map_le_def, rule ballI)
  fix k assume "k \<in> dom (object_map D contents w')"
  then obtain v where v: "object_map D contents w' k = Some v" by blast
  have s: "schema_ok (db w)" "schema_ok (db w')" using assms(1,2) by (auto simp: system_ok_def catalog_ok_def)
  from v obtain o' where o: "o' \<in> set (objects (db w'))" "object_key o' = k" "object_content D contents (store w') o' = Some v"
    unfolding object_map_some [OF s(2)] by blast
  obtain b where b: "object_content D contents (store w) o' = Some b"
    using available_content [of D contents "store w" o'] assms(1,3) o(1) by (auto simp: system_ok_def)
  then have "b = v" using same [OF o(1) b] o(3) by simp
  then have "object_map D contents w k = Some v"
    using b o assms(3) unfolding object_map_some [OF s(1)] by blast
  then show "object_map D contents w' k = object_map D contents w k" using v by simp
qed

lemma map_withinI:
  assumes "keeps (system_ok D contents) m"
    and step: "\<And>w r w'. system_ok D contents w \<Longrightarrow> m w = (r, w') \<Longrightarrow> set (objects (db w')) \<subseteq> set (objects (db w))
      \<and> (\<forall>o' b. o' \<in> set (objects (db w')) \<longrightarrow> object_content D contents (store w) o' = Some b \<longrightarrow> object_content D contents (store w') o' = Some b)"
  shows "keeps (map_within D contents M) m"
proof (rule keepsI)
  fix w r w' assume h: "map_within D contents M w" and run: "m w = (r, w')"
  then have s: "system_ok D contents w" "system_ok D contents w'" using keepsD [OF assms(1) _ run] by (auto simp: map_within_def)
  have "object_map D contents w' \<subseteq>\<^sub>m object_map D contents w"
    by (rule object_map_shrinks [OF s]) (use step [OF s(1) run] in auto)
  then show "map_within D contents M w'" using h s(2) map_le_trans unfolding map_within_def by blast
qed

lemma map_within_same_store:
  assumes "keeps (system_ok D contents) m" "\<And>s. keeps (store_is s) m" "\<And>S. keeps (holds (objects_in S)) m"
  shows "keeps (map_within D contents M) m"
proof (rule map_withinI [OF assms(1)])
  fix w r w' assume s: "system_ok D contents w" and run: "m w = (r, w')"
  have "objects_in (set (objects (db w))) (db w')"
    using keeps_holdsD [OF assms(3) [of "set (objects (db w))"] _ run] s by (simp add: holds_def objects_in_def system_ok_def quiet_stable)
  then show "set (objects (db w')) \<subseteq> set (objects (db w)) \<and> (\<forall>o' b. o' \<in> set (objects (db w')) \<longrightarrow>
      object_content D contents (store w) o' = Some b \<longrightarrow> object_content D contents (store w') o' = Some b)"
    using keeps_storeD [OF assms(2) run] by (simp add: objects_in_def)
qed

lemma drain_one_objects: "keeps (holds (objects_in S)) (drain_one D r raw)"
  unfolding drain_one_def drain_body_def
  by (auto intro!: keeps_intros transaction_keeps keeps_ok_keeps st_keepsI
      simp: objects_in_def delete_queue_entry_def delete_chunk_row_def ok_iff)

lemma drain_one_within:
  assumes "object_store D contents"
  shows "keeps (map_within D contents M) (drain_one D r raw)"
proof (rule map_withinI [OF drain_one_system [OF assms]])
  fix w res w' assume s: "system_ok D contents w" and run: "drain_one D r raw w = (res, w')"
  have c: "catalog_ok D (db w)" and q: "quiet w" using s by (auto simp: system_ok_def)
  have linked: "keeps_linked D contents (db w) (store w) (store w')"
    by (rule transaction_store_inv [OF drain_body_linked [OF assms c] q refl keeps_linked_refl run [unfolded drain_one_def]])
  have sub: "set (objects (db w')) \<subseteq> set (objects (db w))"
    using keeps_holdsD [OF drain_one_objects [of "set (objects (db w))"] _ run] q by (simp add: holds_def objects_in_def quiet_stable)
  have "object_content D contents (store w') o' = Some b"
    if o: "o' \<in> set (objects (db w'))" and b: "object_content D contents (store w) o' = Some b" for o' b
  proof (rule object_content_mono [OF b])
    fix m d x assume "from_value D (obj_manifest o') = Inr m" "d \<in> set (chunks m)"
      and x: "chunk_view D contents (store w) (obj_repo o') (cd_id d) = Some x"
    then have "count_refs (db w) (obj_repo o') (as_bytes (cd_id d)) \<noteq> 0"
      using described_chunk_linked [OF catalog_okD(3) [OF c]] sub o by blast
    then show "chunk_view D contents (store w') (obj_repo o') (cd_id d) = Some x" using linked x by (simp add: keeps_linked_def)
  qed
  then show "set (objects (db w')) \<subseteq> set (objects (db w)) \<and> (\<forall>o' b. o' \<in> set (objects (db w')) \<longrightarrow>
      object_content D contents (store w) o' = Some b \<longrightarrow> object_content D contents (store w') o' = Some b)"
    using sub by blast
qed

lemma gc_within:
  assumes "object_store D contents"
  shows "keeps (map_within D contents M) (collect_due D n r)" "keeps (map_within D contents M) (reclaim_expired_uploads D r g)"
proof -
  have drain: "keeps (map_within D contents M) (drain_chunk_queue D r)"
  proof -
    have "keeps (map_within D contents M) (on_err GcDatabase (exec_pool (select_queue r)))"
      by (rule map_within_same_store, rule system_ok_local) (auto intro!: keeps_intros)
    then show ?thesis unfolding drain_chunk_queue_def by (intro keeps_andthen keeps_for_each drain_one_within [OF assms])
  qed
  have one: "keeps (map_within D contents M) (collect_one r)"
  proof (rule map_within_same_store [OF collect_one_system])
    show "keeps (holds (objects_in S)) (collect_one r)" for S
      unfolding collect_one_def collect_body_def release_chunk_def by (auto intro!: keeps_intros transaction_keeps keeps_ok_keeps)
  qed (rule gc_store_local)
  have "keeps (map_within D contents M) (collect_loop n r k)" for k
    by (induction n arbitrary: k) (auto intro!: keeps_intros one)
  then show "keeps (map_within D contents M) (collect_due D n r)"
    unfolding collect_due_def by (auto intro!: keeps_intros drain)
  have "keeps (map_within D contents M) (transaction GcDatabase (
       andthen (gc_tx (expire_sessions r)) (\<lambda>_. andthen (gc_tx (enqueue_abandoned r k)) (\<lambda>_. gc_tx (delete_stale_sessions r k)))))" for k
    by (rule map_within_same_store, rule keeps_system_ok) (auto intro!: keeps_intros transaction_keeps keeps_ok_keeps)
  then show "keeps (map_within D contents M) (reclaim_expired_uploads D r g)"
    unfolding reclaim_expired_uploads_def by (intro keeps_intros drain)
qed

lemma same_object_map:
  assumes "objects (db w') = objects (db w)" "chunk_view D contents (store w') = chunk_view D contents (store w)"
  shows "object_map D contents w' = object_map D contents w"
proof -
  have "object_content D contents (store w') = object_content D contents (store w)"
    unfolding object_content_def [abs_def] assms(2) ..
  then show ?thesis by (intro ext) (simp add: object_map_def assms(1))
qed

lemma added_entries_verified:
  assumes "system_ok D contents w" "object_map D contents w k = Some v"
  shows "as_bytes (sha256 D v) = snd k"
proof -
  have "schema_ok (db w)" using assms(1) by (auto simp: system_ok_def catalog_ok_def)
  from object_map_some [OF this] assms(2) obtain o' where o: "o' \<in> set (objects (db w))" "object_key o' = k"
    "object_content D contents (store w) o' = Some v" by blast
  then show ?thesis
    using available_content [of D contents "store w" o'] assms(1) by (auto simp: system_ok_def object_key_def)
qed

lemma serve_adds:
  assumes "object_store D contents" "json_roundtrip D" "is_upload rq" "upload_ok D contents U w" "upload_ok D contents U w'"
    and run: "serve D A rq w = (r, w')"
  shows "allowed (as_bytes \<circ> sha256 D) Adds (object_map D contents w) (object_map D contents w')"
proof -
  have sys: "system_ok D contents w" "system_ok D contents w'" using assms(4,5) by (auto simp: upload_ok_def)
  have sub: "set (objects (db w)) \<subseteq> set (objects (db w'))"
    using keeps_holdsD [OF route_adds(1) [OF assms(1-3)] _ run] sys(1) by (auto simp: holds_def system_ok_def quiet_stable)
  have gr: "grows D contents (store w) w'"
    by (rule keepsD [OF route_adds(2) [OF assms(1-3)] grows_refl run])
  have "object_map D contents w \<subseteq>\<^sub>m object_map D contents w'"
  proof (rule object_map_le [OF _ _ sub])
    show "schema_ok (db w)" "schema_ok (db w')" using sys by (auto simp: system_ok_def catalog_ok_def)
    show "object_content D contents (store w') o' = Some b" if "object_content D contents (store w) o' = Some b" for o' b
      by (rule object_content_mono [OF that]) (use gr in \<open>auto simp: grows_def\<close>)
  qed
  then show ?thesis using added_entries_verified [OF sys(2)] by auto
qed

lemma admin_reads:
  assumes "effect_of (Command c) = Reads" "c \<noteq> Migrate"
  shows "keeps (view_is D contents v) (admin D M scan n c)" "keeps (holds (\<lambda>d. objects d = os)) (admin D M scan n c)"
proof -
  have st: "st_keeps (\<lambda>d. objects d = os) (insert_repository i ow nm)" "st_keeps (\<lambda>d. objects d = os) (upsert_grant r sub wr ad)"
    "st_keeps (\<lambda>d. objects d = os) (insert_epoch e r f)" "st_keeps (\<lambda>d. objects d = os) (insert_reachable e oid)"
    "st_keeps (\<lambda>d. objects d = os) (complete_epoch e)" "st_keeps (\<lambda>d. objects d = os) (insert_tombstone r oid g)" for i ow nm r sub wr ad e f oid g
    by (rule st_keepsI; auto simp: insert_repository_def upsert_grant_def insert_epoch_def insert_reachable_def complete_epoch_def
        insert_tombstone_def ok_iff Let_def split: option.splits if_splits)+
  have view: "keeps (view_is D contents v) (schema_status_of M)" "keeps (view_is D contents v) (schema_check M)"
    "keeps (view_is D contents v) (submit_snapshot sn e)" "keeps (view_is D contents v) (dry_run r)" "keeps (view_is D contents v) (stage r g)" for sn e r g
    by (rule store_is_view, rule keeps_intros)+
  have "keeps (holds (\<lambda>d. objects d = os)) (submit_snapshot sn e)" "keeps (holds (\<lambda>d. objects d = os)) (stage r g)" for sn e r g
    unfolding submit_snapshot_def stage_def by (auto intro!: keeps_intros transaction_keeps keeps_ok_keeps st)
  then have run: "keeps (view_is D contents v) (run_command D scan n c)" "keeps (holds (\<lambda>d. objects d = os)) (run_command D scan n c)"
    using assms(1) view by (cases c; auto intro!: keeps_intros st split: prod.split)+
  show "keeps (view_is D contents v) (admin D M scan n c)" "keeps (holds (\<lambda>d. objects d = os)) (admin D M scan n c)"
    using assms(2) view run unfolding admin_def run_schema_command_def by (auto intro!: keeps_intros)
qed

lemma admin_removes:
  assumes "object_store D contents" "effect_of (Command c) = Removes"
  shows "keeps (map_within D contents M') (admin D M scan n c)"
proof -
  have "keeps (map_within D contents M') (schema_check M)"
    by (rule map_within_same_store, rule system_ok_local) (auto intro!: keeps_intros store_is_grows)
  then show ?thesis
    using assms(2) gc_within [OF assms(1)] unfolding admin_def
    by (cases c) (auto simp: admin_schema_command_def intro!: keeps_intros split: option.split)
qed

text \<open>Claim C1: the service refines an abstract map from (repository, identity) to content.  From every reachable state,
  requests other than uploads and all commands but collection leave the map as it is; an upload request, whatever it returns,
  keeps every entry and adds only entries whose content hashes to their identity; collection and reclamation change no
  content, they only drop entries.\<close>

theorem server_refines_object_map:
  assumes "reaches S (bodies_in (deps S) U) quiet w0 w" "upload_ok (deps S) contents U w0"
    and "object_store (deps S) contents" "json_roundtrip (deps S)" "inj_on (blake3 (deps S)) U" "cdc_reports_errors (deps S)"
    and "bodies_in (deps S) U c" "c \<noteq> Command Migrate"
  shows "allowed (as_bytes \<circ> sha256 (deps S)) (effect_of c) (object_map (deps S) contents w) (object_map (deps S) contents (perform S c w))"
proof -
  have ok: "upload_ok (deps S) contents U w" by (rule reaches_upload_ok [OF assms(1,3-6,2)])
  have ok': "upload_ok (deps S) contents U (perform S c w)" by (rule perform_upload_ok [OF assms(3-8) ok])
  show ?thesis
  proof (cases c)
    case (Http rq)
    let ?r = "serve (deps S) (app S) rq w"
    have run: "serve (deps S) (app S) rq w = (fst ?r, snd ?r)" by simp
    show ?thesis
    proof (cases "is_upload rq")
      case True
      then show ?thesis using serve_adds [OF assms(3,4) True ok _ run] ok' Http by simp
    next
      case False
      note quiet_unchanged [OF ok run serve_keeps [OF assms(4)] route_reads [OF assms(3) False]]
      then show ?thesis using same_object_map Http False by auto
    qed
  next
    case (Command ac)
    let ?m = "admin (deps S) (embedded_migrator S) (scanner S) (rounds S) ac"
    have ne: "ac \<noteq> Migrate" and run: "?m w = (fst (?m w), snd (?m w))" using assms(8) Command by auto
    show ?thesis
    proof (cases "effect_of (Command ac)")
      case Reads
      note quiet_unchanged [OF ok run admin_keeps [OF ne] admin_reads [OF Reads ne]]
      then show ?thesis using same_object_map Command Reads by auto
    next
      case Adds
      then show ?thesis by (cases ac) auto
    next
      case Removes
      have "map_within (deps S) contents (object_map (deps S) contents w) (snd (?m w))"
        by (rule keepsD [OF admin_removes [OF assms(3) Removes] _ run]) (use ok in \<open>simp add: map_within_def upload_ok_def\<close>)
      then show ?thesis using Command Removes by (simp add: map_within_def)
    qed
  qed
qed

section \<open>Downloads succeed\<close>

text \<open>A provider that answers: as long as \<open>P\<close> holds of its state, reading a stored chunk whose bytes have the right identity
  returns them.\<close>

definition provider_answers ::
  "('s, 'j) server_deps \<Rightarrow> ('s \<Rightarrow> string \<Rightarrow> bytes option) \<Rightarrow> ('s \<Rightarrow> bool) \<Rightarrow> bool" where
  "provider_answers D contents P \<longleftrightarrow> (\<forall>s p b. P s \<longrightarrow> contents s p = Some b \<longrightarrow>
     (\<exists>s'. os_get D s p = (Inr b, s') \<and> contents s' = contents s \<and> P s'))"

lemma get_verified_answers:
  assumes "provider_answers D contents P" "P s" "chunk_view D contents s r c = Some b" "blake3 D b = c"
  shows "\<exists>s'. get_verified D s r c = (Inr b, s') \<and> contents s' = contents s \<and> P s'"
  using assms unfolding provider_answers_def get_verified_def chunk_view_def
  by (fastforce simp: verify_digest_def Let_def)

lemma stage_chunks_answers:
  assumes "provider_answers D contents P" "present D contents (store w) r cs bs" "P (store w)" "io_script w = []"
  shows "\<exists>s'. stage_chunks D r cs acc w = (Inr (acc @ concat bs), w\<lparr>store := s'\<rparr>)"
  using assms(2-4)
proof (induction cs arbitrary: bs acc w)
  case Nil
  then show ?case by (auto simp: stage_chunks_def present_def ret_def intro!: exI [of _ "store w"])
next
  case (Cons c cs)
  from Cons.prems(1) obtain b bs' where bs: "bs = b # bs'" and h: "holds_chunk D contents (store w) r c b"
    and rest: "present D contents (store w) r cs bs'" by (auto simp: present_def list_all2_Cons1)
  from get_verified_answers [OF assms(1) Cons.prems(2), of r "cd_id c" b] h obtain s' where
    g: "get_verified D (store w) r (cd_id c) = (Inr b, s')" "contents s' = contents (store w)" "P s'"
    by (auto simp: holds_chunk_def)
  let ?w1 = "w\<lparr>store := s'\<rparr>"
  have "chunk_view D contents s' = chunk_view D contents (store w)" using g(2) by (simp add: chunk_view_def fun_eq_iff)
  then have "present D contents (store ?w1) r cs bs'" using present_cong(1) [of D contents s' "store w"] rest by simp
  from Cons.IH [OF this, of "acc @ b"] g(3) Cons.prems(3) obtain s2 where
    "stage_chunks D r cs (acc @ b) ?w1 = (Inr (acc @ concat bs), w\<lparr>store := s2\<rparr>)" by (auto simp: bs)
  moreover have "length b = chunk_len c" using h by (simp add: holds_chunk_def)
  ultimately show ?case
    using g(1) Cons.prems(3) by (auto simp: stage_chunks_def read_chunk_def run_defs)
qed

text \<open>Claim C6: a published object can be downloaded.  When the caller is authenticated, the repository exists, the
  database, the provider and the staging file answer and the server is not shutting down, \<open>download_basic\<close> succeeds and
  returns exactly the content that the abstract map holds, with its length.\<close>

theorem download_serves_published_object:
  assumes "authenticate D A headers owner repository Read w = (Inr ident, w1)" "system_ok D contents w1"
    and "db_script w1 = []" "io_script w1 = []" "\<not> semaphores_closed w1" "provider_answers D contents P" "P (store w1)"
    and "parse_oid D oid_text = Inr oid" "rr \<in> set (repositories (db w1))" "repo_owner rr = owner" "repo_name rr = repository"
    and "object_map D contents w1 (repo_id rr, as_bytes oid) = Some v"
  shows "\<exists>resp w'. download_basic D A owner repository oid_text headers w = (Inr resp, w')
    \<and> body_bytes resp = v \<and> unat (content_length resp) = length v"
proof -
  let ?w2 = "w1\<lparr>tx_now := clock w1\<rparr>"
  have c: "catalog_ok D (db w1)" using assms(2) by (simp add: system_ok_def)
  note s = catalog_okD(1) [OF c]
  from assms(12) obtain o' where o: "o' \<in> set (objects (db w1))" "object_key o' = (repo_id rr, as_bytes oid)"
    "object_content D contents (store w1) o' = Some v" unfolding object_map_some [OF s] by blast
  then have f: "find (\<lambda>x. object_key x = (repo_id rr, as_bytes oid)) (objects (db w1)) = Some o'" using find_object [OF s] by blast
  obtain m bs where m: "from_value D (obj_manifest o') = Inr m" and p: "present D contents (store w1) (obj_repo o') (chunks m) bs"
    and h: "as_bytes (sha256 D (concat bs)) = obj_oid o'" using assms(2) o(1) by (auto simp: system_ok_def available_def)
  have v: "v = concat bs" using o(3) m present_those [OF p] by (simp add: object_content_def)
  have wf: "well_formed m" using catalog_okD(3) [OF c o(1)] m by (auto simp: object_described_def)
  have key: "obj_repo o' = repo_id rr" "obj_oid o' = as_bytes oid" using o(2) by (auto simp: object_key_def)
  have load: "load_manifest D (repo_id rr) oid ?w2 = (Inr m, ?w2)"
    using f m assms(3) by (simp add: load_manifest_def run_defs select_object_manifest_def)
  obtain s' where st: "stage_chunks D (repo_id rr) (chunks m) [] ?w2 = (Inr v, ?w2\<lparr>store := s'\<rparr>)"
    using stage_chunks_answers [OF assms(6), of ?w2 "repo_id rr" "chunks m" bs "[]"] p key(1) assms(4,7) v by auto
  have "unat (object_size m) = length v"
    using present_length [OF p] wf v by (simp add: well_formed_def)
  then show ?thesis
    using assms(1,4,5,8) repository_id_found [OF assms(3) s assms(9-11)] load st wf h key(2) v
    by (simp add: download_basic_def run_defs validate_iff_well_formed [THEN iffD2])
qed

theorem server_refines_object_map_witness:
  "object_map demo_deps mem_contents (perform demo_deployment (Http (DownloadBasic ''o'' ''r'' demo_oid_text demo_headers)) (demo_world demo_published))
     = object_map demo_deps mem_contents (demo_world demo_published)"
  using server_refines_object_map [OF reaches.start, of demo_deployment mem_contents "{replicate 32 9}" "demo_world demo_published"
      "Http (DownloadBasic ''o'' ''r'' demo_oid_text demo_headers)"]
    demo_upload_ok demo.object_store_axioms demo_json demo_errors
  by simp

theorem download_serves_published_object_witness:
  "\<exists>resp w'. download_basic demo_deps demo_app ''o'' ''r'' demo_oid_text demo_headers (demo_world demo_published) = (Inr resp, w')
     \<and> body_bytes resp = replicate 32 9 \<and> unat (content_length resp) = 32"
proof -
  have "provider_answers demo_deps mem_contents (\<lambda>s. mem_script s = [])"
    by (auto simp: provider_answers_def demo_fields mem_get_def mem_op_def mem_contents_def)
  moreover have "object_map demo_deps mem_contents (demo_world demo_published) (5, replicate 32 9) = Some (replicate 32 9)"
    by (simp add: object_map_def demo_published_def demo_object_def object_key_def object_content_def demo_manifest_def demo_chunk_view)
  ultimately show ?thesis
    using download_serves_published_object [of demo_deps demo_app demo_headers "''o''" "''r''" "demo_world demo_published" demo_identity
        "demo_world demo_published" mem_contents "\<lambda>s. mem_script s = []" demo_oid_text "digest_fill 9"
        "\<lparr>repo_id = 5, repo_owner = ''o'', repo_name = ''r''\<rparr>" "replicate 32 9"] demo_upload_ok
    by (simp add: ret_def upload_ok_def sample_store_def)
qed

end
