(* ===== verification/Pool.thy ===== *)
theory Pool
  imports Prelude "HOL-Library.Multiset"
begin

text \<open>
  What the worker pools of the client promise.  A pool is a step relation over the state of a coordinator, its bounded
  channels and its workers.  The locale \<open>worker_pool\<close> collects what the joined scope of \<open>backend.rs\<close> relies on: an invariant, a weight that
  every step decreases, and that a state with no step is final; it derives that every schedule ends.  Both pools of
  \<open>HttpBackend\<close> interpret it.
\<close>

section \<open>Schedules end\<close>

locale worker_pool =
  fixes step :: "'s \<Rightarrow> 's \<Rightarrow> bool" and inv :: "'s \<Rightarrow> bool" and final :: "'s \<Rightarrow> bool" and weight :: "'s \<Rightarrow> nat"
  assumes preserved: "inv s \<Longrightarrow> step s t \<Longrightarrow> inv t"
    and decreases: "inv s \<Longrightarrow> step s t \<Longrightarrow> weight t < weight s"
    and progress: "inv s \<Longrightarrow> \<not> final s \<Longrightarrow> \<exists>t. step s t"
begin

lemma reachable_inv: "step\<^sup>*\<^sup>* s t \<Longrightarrow> inv s \<Longrightarrow> inv t"
  by (induction rule: rtranclp_induct) (auto intro: preserved)

lemma schedule_bounded: "(step ^^ k) s t \<Longrightarrow> inv s \<Longrightarrow> k + weight t \<le> weight s"
proof (induction k arbitrary: t)
  case (Suc k)
  then obtain u where u: "(step ^^ k) s u" "step u t" by auto
  have "inv u" using reachable_inv [OF relpowp_imp_rtranclp [OF u(1)]] Suc.prems(2) .
  from decreases [OF this u(2)] Suc.IH [OF u(1) Suc.prems(2)] show ?case by simp
qed simp

lemma completes: "inv s \<Longrightarrow> \<exists>t. step\<^sup>*\<^sup>* s t \<and> final t"
proof (induction "weight s" arbitrary: s rule: less_induct)
  case less
  show ?case
  proof (cases "final s")
    case False
    then obtain t where t: "step s t" using progress [OF less.prems] by blast
    from less.hyps [OF decreases [OF less.prems t] preserved [OF less.prems t]] t show ?thesis
      by (meson converse_rtranclp_into_rtranclp)
  qed blast
qed

text \<open>However the threads are scheduled, a run that cannot go on is final, and no run has more than \<open>weight s\<close> steps.\<close>

lemma every_schedule_ends:
  assumes "inv s"
  shows "(\<forall>k t. (step ^^ k) s t \<longrightarrow> k \<le> weight s) \<and> (\<forall>t. step\<^sup>*\<^sup>* s t \<longrightarrow> (\<exists>u. step\<^sup>*\<^sup>* t u \<and> final u))"
  using schedule_bounded [OF _ assms] completes reachable_inv assms by fastforce

end

section \<open>Workers\<close>

text \<open>A worker waits for a job, works on one, or has left; the download pool's workers also wait to report.\<close>

datatype ('j, 'r) worker = Idle | Busy 'j | Reporting 'r | Gone

fun held :: "('j, 'r) worker \<Rightarrow> 'j multiset" where
  "held (Busy j) = {#j#}"
| "held _ = {#}"

fun reported :: "('j, 'r) worker \<Rightarrow> 'r multiset" where
  "reported (Reporting r) = {#r#}"
| "reported _ = {#}"

fun worker_weight :: "('j, 'r) worker \<Rightarrow> nat" where
  "worker_weight Idle = 1"
| "worker_weight (Busy _) = 3"
| "worker_weight (Reporting _) = 2"
| "worker_weight Gone = 0"

definition all_gone :: "('j, 'r) worker list \<Rightarrow> bool" where
  "all_gone ws \<longleftrightarrow> (\<forall>x \<in> set ws. x = Gone)"

lemma sum_list_update_nat:
  "i < length ws \<Longrightarrow> sum_list (map f (ws[i := x])) + f (ws ! i) = sum_list (map f ws) + (f x :: nat)"
  by (induction ws arbitrary: i) (auto split: nat.split)

lemma sum_list_update_mset:
  "i < length ws \<Longrightarrow> sum_list (map f (ws[i := x])) + f (ws ! i) = sum_list (map f ws) + (f x :: 'b multiset)"
  by (induction ws arbitrary: i) (auto simp: union_assoc union_commute union_lcomm split: nat.split)

lemma sum_list_none: "(\<And>x. x \<in> set ws \<Longrightarrow> f x = {#}) \<Longrightarrow> sum_list (map f ws) = {#}"
  by (induction ws) auto

lemma all_gone_empty: "all_gone ws \<Longrightarrow> sum_list (map held ws) = {#} \<and> sum_list (map reported ws) = {#}"
  by (auto simp: all_gone_def intro!: sum_list_none)

lemma in_set_update: "x \<in> set (ws[i := y]) \<Longrightarrow> x = y \<or> x \<in> set ws"
  using set_update_subset_insert [of ws i y] by blast

end
