(* ===== verification/Protocol.thy ===== *)
theory Protocol
  imports Digest Action
begin

text \<open>
  \<open>crates/git-lfs-delta-client/src/transfer.rs\<close>: the line-delimited Git LFS custom-transfer protocol.  The
  driver is a state machine over the input lines with one bit of state (initialized); the JSON decoder and the backend are
  parameters.  Output lines are recorded when they are completely written; a write may fail.  The theorem shows
  that every transfer Git LFS asked for is answered by exactly one completion, in order, and that nothing is transferred
  before the initialization exchange.
\<close>

section \<open>Messages\<close>

record transfer_action =
  ta_href :: string
  ta_header :: "(string \<times> string) list"

record upload_request =
  up_oid :: object_oid
  up_size :: u64
  up_path :: string
  up_action :: "transfer_action option"

record download_request =
  down_oid :: object_oid
  down_size :: u64
  down_action :: "transfer_action option"

record download_result =
  result_path :: string
  bytes_transferred :: u64

record backend_error =
  error_code :: int
  error_message :: string

datatype input_message =
    Init string string bool nat
  | UploadMessage upload_request
  | DownloadMessage download_request
  | Terminate

datatype output_message =
    Acknowledge
  | Progress object_oid u64 u64
  | Complete object_oid "string option" "backend_error option"

datatype protocol_error = ReadFailed string | DecodeFailed string | WriteFailed string | NotInitialized | AlreadyInitialized

section \<open>The driver\<close>

text \<open>The backend state, the lines written and flushed so far, and the errors of the coming writes, \<open>None\<close> for none.\<close>

record 'b session =
  backend :: 'b
  written :: "output_message list"
  write_script :: "string option list"

text \<open>The trait \<open>TransferBackend\<close>.\<close>

record 'b transfer_backend =
  backend_upload :: "upload_request \<Rightarrow> 'b \<Rightarrow> (backend_error + u64) \<times> 'b"
  backend_download :: "download_request \<Rightarrow> 'b \<Rightarrow> (backend_error + download_result) \<times> 'b"

definition write_json_line :: "output_message \<Rightarrow> ('b session, protocol_error, unit) action" where
  "write_json_line m w = (case write_script w of
       [] \<Rightarrow> (Inr (), w\<lparr>written := written w @ [m]\<rparr>)
     | None # rest \<Rightarrow> (Inr (), w\<lparr>written := written w @ [m], write_script := rest\<rparr>)
     | Some e # rest \<Rightarrow> (Inl (WriteFailed e), w\<lparr>write_script := rest\<rparr>))"

definition emit_progress :: "object_oid \<Rightarrow> u64 \<Rightarrow> ('b session, protocol_error, unit) action" where
  "emit_progress oid bytes = write_json_line (Progress oid bytes bytes)"

definition emit_complete ::
  "object_oid \<Rightarrow> string option \<Rightarrow> backend_error option \<Rightarrow> ('b session, protocol_error, unit) action" where
  "emit_complete oid path err = write_json_line (Complete oid path err)"

definition require_initialized :: "bool \<Rightarrow> ('b session, protocol_error, unit) action" where
  "require_initialized initialized = (if initialized then ret () else fail NotInitialized)"

definition call_backend :: "('b \<Rightarrow> (backend_error + 'a) \<times> 'b) \<Rightarrow> ('b session, protocol_error, backend_error + 'a) action" where
  "call_backend op w = (case op (backend w) of (r, b) \<Rightarrow> (Inr r, w\<lparr>backend := b\<rparr>))"

definition handle_upload :: "'b transfer_backend \<Rightarrow> upload_request \<Rightarrow> ('b session, protocol_error, unit) action" where
  "handle_upload B rq =
     andthen (call_backend (backend_upload B rq)) (\<lambda>r. case r of
       Inr bytes \<Rightarrow> andthen (emit_progress (up_oid rq) bytes) (\<lambda>_. emit_complete (up_oid rq) None None)
     | Inl e \<Rightarrow> emit_complete (up_oid rq) None (Some e))"

definition handle_download :: "'b transfer_backend \<Rightarrow> download_request \<Rightarrow> ('b session, protocol_error, unit) action" where
  "handle_download B rq =
     andthen (call_backend (backend_download B rq)) (\<lambda>r. case r of
       Inr d \<Rightarrow> andthen (emit_progress (down_oid rq) (bytes_transferred d)) (\<lambda>_.
                emit_complete (down_oid rq) (Some (result_path d)) None)
     | Inl e \<Rightarrow> emit_complete (down_oid rq) None (Some e))"

text \<open>A line of the input: a read error, or its text.\<close>

fun run_lines ::
  "(string \<Rightarrow> string + input_message) \<Rightarrow> 'b transfer_backend \<Rightarrow> bool \<Rightarrow> (string + string) list
     \<Rightarrow> ('b session, protocol_error, unit) action" where
  "run_lines decode B initialized [] = ret ()"
| "run_lines decode B initialized (line # lines) =
     andthen (of_result (map_err ReadFailed line)) (\<lambda>text.
     andthen (of_result (map_err DecodeFailed (decode text))) (\<lambda>message. case message of
       Init _ _ _ _ \<Rightarrow>
         if initialized then fail AlreadyInitialized
         else andthen (write_json_line Acknowledge) (\<lambda>_. run_lines decode B True lines)
     | UploadMessage rq \<Rightarrow>
         andthen (require_initialized initialized) (\<lambda>_.
         andthen (handle_upload B rq) (\<lambda>_. run_lines decode B initialized lines))
     | DownloadMessage rq \<Rightarrow>
         andthen (require_initialized initialized) (\<lambda>_.
         andthen (handle_download B rq) (\<lambda>_. run_lines decode B initialized lines))
     | Terminate \<Rightarrow> ret ()))"

definition run_transfer_protocol ::
  "(string \<Rightarrow> string + input_message) \<Rightarrow> 'b transfer_backend \<Rightarrow> (string + string) list
     \<Rightarrow> ('b session, protocol_error, unit) action" where
  "run_transfer_protocol decode B = run_lines decode B False"

section \<open>One completion per transfer\<close>

text \<open>What was asked for: the identities of the transfers before \<open>Terminate\<close> and before the first line that cannot be
  read or decoded.\<close>

fun requested :: "(string \<Rightarrow> string + input_message) \<Rightarrow> (string + string) list \<Rightarrow> object_oid list" where
  "requested decode [] = []"
| "requested decode (line # lines) = (case res_bind line decode of
     Inl _ \<Rightarrow> []
   | Inr (Init _ _ _ _) \<Rightarrow> requested decode lines
   | Inr (UploadMessage rq) \<Rightarrow> up_oid rq # requested decode lines
   | Inr (DownloadMessage rq) \<Rightarrow> down_oid rq # requested decode lines
   | Inr Terminate \<Rightarrow> [])"

fun completed_oid :: "output_message \<Rightarrow> object_oid option" where
  "completed_oid (Complete oid _ _) = Some oid"
| "completed_oid _ = None"

definition completions :: "output_message list \<Rightarrow> object_oid list" where
  "completions ms = List.map_filter completed_oid ms"

lemma completions_append [simp]: "completions (xs @ ys) = completions xs @ completions ys"
  by (simp add: completions_def map_filter_def)

lemma completions_simps [simp]:
  "completions [] = []" "completions (Acknowledge # ms) = completions ms" "completions (Progress o' a b # ms) = completions ms"
  "completions (Complete o' p e # ms) = o' # completions ms"
  by (simp_all add: completions_def map_filter_def)

lemma write_json_line_run:
  assumes "write_json_line m w = (r, w')"
  shows "backend w' = backend w" "r = Inr () \<and> written w' = written w @ [m] \<or> (\<exists>e. r = Inl e \<and> written w' = written w)"
  using assms by (auto simp: write_json_line_def split: list.splits option.splits)

text \<open>A handler only appends, and what it appends completes exactly its own transfer when it succeeds and nothing
  otherwise.\<close>

definition answers :: "object_oid \<Rightarrow> ('b session, protocol_error, unit) action \<Rightarrow> bool" where
  "answers oid m \<longleftrightarrow> (\<forall>w r w'. m w = (r, w') \<longrightarrow>
     (\<exists>ms. written w' = written w @ ms \<and> completions ms = (if r = Inr () then [oid] else [])))"

lemma emit_complete_answers: "answers oid (emit_complete oid p e)"
  unfolding answers_def emit_complete_def by (auto dest!: write_json_line_run(2))

lemma progress_answers: "answers oid (andthen (emit_progress oid n) (\<lambda>_. emit_complete oid p e))"
  unfolding answers_def
proof (intro allI impI)
  fix w r w' assume run: "andthen (emit_progress oid n) (\<lambda>_. emit_complete oid p e) w = (r, w')"
  obtain a w1 where a: "emit_progress oid n w = (a, w1)" by (cases "emit_progress oid n w")
  from write_json_line_run(2) [OF a [unfolded emit_progress_def]]
  show "\<exists>ms. written w' = written w @ ms \<and> completions ms = (if r = Inr () then [oid] else [])"
  proof
    assume ok: "a = Inr () \<and> written w1 = written w @ [Progress oid n n]"
    with run a have "emit_complete oid p e w1 = (r, w')" by (simp add: andthen_def)
    with emit_complete_answers [of oid p e] obtain ms where "written w' = written w1 @ ms"
      "completions ms = (if r = Inr () then [oid] else [])" unfolding answers_def by blast
    then show ?thesis using ok by (intro exI [of _ "Progress oid n n # ms"]) simp
  qed (use run a in \<open>auto simp: andthen_def\<close>)
qed

lemma answers_call:
  assumes "\<And>x. answers oid (f x)"
  shows "answers oid (andthen (call_backend op) f)"
  using assms by (force simp: answers_def andthen_def call_backend_def split: prod.splits)

lemma handlers_answer: "answers (up_oid u) (handle_upload B u)" "answers (down_oid d) (handle_download B d)"
  unfolding handle_upload_def handle_download_def
  by (rule answers_call, auto intro: progress_answers emit_complete_answers split: sum.split)+

text \<open>The induction steps: a request that was answered, and an acknowledged initialization.\<close>

lemma answered_then:
  assumes "answers oid h" "andthen h (\<lambda>_. k) w = (res, w')"
    and "\<And>w1. k w1 = (res, w') \<Longrightarrow> \<exists>ms rest. written w' = written w1 @ ms \<and> reqs = completions ms @ rest \<and> (res = Inr () \<longrightarrow> rest = [])"
  shows "\<exists>ms rest. written w' = written w @ ms \<and> oid # reqs = completions ms @ rest \<and> (res = Inr () \<longrightarrow> rest = [])"
proof -
  obtain a w1 where a: "h w = (a, w1)" by (cases "h w")
  with assms(1) obtain ms where ms: "written w1 = written w @ ms" "completions ms = (if a = Inr () then [oid] else [])"
    unfolding answers_def by blast
  show ?thesis
  proof (cases a)
    case (Inl e)
    then have "res = Inl e" "w' = w1" using assms(2) a by (auto simp: andthen_def)
    then show ?thesis using ms Inl by (intro exI [of _ ms]) simp
  next
    case (Inr u)
    then have "k w1 = (res, w')" using assms(2) a by (simp add: andthen_def)
    from assms(3) [OF this] obtain ms' rest where "written w' = written w1 @ ms'" "reqs = completions ms' @ rest"
      "res = Inr () \<longrightarrow> rest = []" by blast
    then show ?thesis using ms Inr by (intro exI [of _ "ms @ ms'"] exI [of _ rest]) simp
  qed
qed

lemma acknowledged_then:
  assumes "andthen (write_json_line Acknowledge) (\<lambda>_. k) w = (res, w')"
    and "\<And>w1. k w1 = (res, w') \<Longrightarrow> \<exists>ms rest. written w' = written w1 @ ms \<and> reqs = completions ms @ rest \<and> (res = Inr () \<longrightarrow> rest = [])"
  shows "\<exists>ms rest. written w' = written w @ ms \<and> reqs = completions ms @ rest \<and> (res = Inr () \<longrightarrow> rest = [])"
proof -
  obtain a w1 where a: "write_json_line Acknowledge w = (a, w1)" by (cases "write_json_line Acknowledge w")
  from write_json_line_run(2) [OF this] show ?thesis
  proof
    assume ok: "a = Inr () \<and> written w1 = written w @ [Acknowledge]"
    with a assms(1) have "k w1 = (res, w')" by (simp add: andthen_def)
    from assms(2) [OF this] obtain ms rest where "written w' = written w1 @ ms" "reqs = completions ms @ rest"
      "res = Inr () \<longrightarrow> rest = []" by blast
    then show ?thesis using ok by (intro exI [of _ "Acknowledge # ms"] exI [of _ rest]) simp
  next
    assume "\<exists>e. a = Inl e \<and> written w1 = written w"
    then show ?thesis using a assms(1) by (intro exI [of _ "[]"] exI [of _ reqs]) (auto simp: andthen_def)
  qed
qed

lemma run_lines_answers:
  assumes "run_lines decode B i lines w = (res, w')"
  shows "\<exists>ms rest. written w' = written w @ ms \<and> requested decode lines = completions ms @ rest \<and> (res = Inr () \<longrightarrow> rest = [])"
  using assms
proof (induction lines arbitrary: i w)
  case Nil
  then show ?case by (simp add: ret_def)
next
  case (Cons line lines)
  show ?case
  proof (cases "res_bind line decode")
    case (Inl e)
    then show ?thesis using Cons.prems by (cases line) (auto simp: andthen_def of_result_def)
  next
    case (Inr msg)
    then obtain t where t: "line = Inr t" "decode t = Inr msg" by (auto simp: ok_iff)
    note run = Cons.prems [unfolded run_lines.simps t map_err_simps andthen_of_result t]
    show ?thesis
    proof (cases msg)
      case (Init a b c n)
      then show ?thesis using run t acknowledged_then [OF _ Cons.IH] by (auto simp: fail_def split: if_splits)
    next
      case (UploadMessage rq)
      then show ?thesis
        using run t answered_then [OF handlers_answer(1) _ Cons.IH]
        by (auto simp: require_initialized_def fail_def split: if_splits)
    next
      case (DownloadMessage rq)
      then show ?thesis
        using run t answered_then [OF handlers_answer(2) _ Cons.IH]
        by (auto simp: require_initialized_def fail_def split: if_splits)
    next
      case Terminate
      then show ?thesis using run t by (simp add: ret_def)
    qed
  qed
qed

lemma run_lines_uninitialized:
  assumes "run_lines decode B False lines w = (res, w')" "backend w' \<noteq> backend w"
  shows "\<exists>ms. written w' = written w @ Acknowledge # ms"
proof (cases lines)
  case Nil
  then show ?thesis using assms by (simp add: ret_def)
next
  case (Cons line rest)
  show ?thesis
  proof (cases "\<exists>a b c n. res_bind line decode = Inr (Init a b c n)")
    case True
    then obtain a b c n t where t: "line = Inr t" "decode t = Inr (Init a b c n)" by (auto simp: ok_iff)
    have run: "andthen (write_json_line Acknowledge) (\<lambda>_. run_lines decode B True rest) w = (res, w')"
      using assms(1) [unfolded Cons run_lines.simps t map_err_simps andthen_of_result t] by simp
    obtain x w1 where x: "write_json_line Acknowledge w = (x, w1)" by (cases "write_json_line Acknowledge w")
    from write_json_line_run [OF x] run x assms(2) have "written w1 = written w @ [Acknowledge]" "run_lines decode B True rest w1 = (res, w')"
      by (auto simp: andthen_def)
    then show ?thesis using run_lines_answers [of decode B True rest w1 res w'] by auto
  next
    case False
    then show ?thesis
      using assms Cons
      by (cases line; cases "decode (projr line)")
        (auto simp: andthen_def of_result_def require_initialized_def fail_def ret_def split: input_message.splits)
  qed
qed

text \<open>Claim C32: every transfer is answered exactly once.  Whatever the backend does and whichever write fails, the
  completions written are, in order, those of the first transfers Git LFS asked for, one each; if the process ends normally
  they are those of all transfers up to \<open>Terminate\<close>; and the backend is never called before the initialization has been
  acknowledged.\<close>

theorem transfers_answered_once:
  assumes "run_transfer_protocol decode B lines \<lparr>backend = b, written = [], write_script = ws\<rparr> = (res, w')"
  shows "(\<exists>rest. requested decode lines = completions (written w') @ rest \<and> (res = Inr () \<longrightarrow> rest = []))
    \<and> (backend w' \<noteq> b \<longrightarrow> (\<exists>ms. written w' = Acknowledge # ms))"
proof -
  note run = assms [unfolded run_transfer_protocol_def]
  show ?thesis using run_lines_answers [OF run] run_lines_uninitialized [OF run] by auto
qed

definition demo_backend :: "nat transfer_backend" where
  "demo_backend = \<lparr>backend_upload = (\<lambda>rq n. if n = 0 then (Inr (up_size rq), 1) else (Inl \<lparr>error_code = 1, error_message = ''down''\<rparr>, n + 1)),
     backend_download = (\<lambda>rq n. (Inl \<lparr>error_code = 1, error_message = ''down''\<rparr>, n + 1))\<rparr>"

definition demo_decode :: "string \<Rightarrow> string + input_message" where
  "demo_decode l = (if l = ''init'' then Inr (Init ''upload'' ''origin'' True 3)
     else if l = ''upload'' then Inr (UploadMessage \<lparr>up_oid = digest_fill 9, up_size = 32, up_path = ''f'', up_action = None\<rparr>)
     else if l = ''terminate'' then Inr Terminate else Inl ''bad'')"

theorem transfers_answered_once_witness:
  "requested demo_decode [Inr ''init'', Inr ''upload'', Inr ''upload'', Inr ''terminate''] = [digest_fill 9, digest_fill 9]
   \<and> completions (written (snd (run_transfer_protocol demo_decode demo_backend [Inr ''init'', Inr ''upload'', Inr ''upload'', Inr ''terminate'']
       \<lparr>backend = 0, written = [], write_script = []\<rparr>))) = [digest_fill 9, digest_fill 9]"
proof -
  let ?lines = "[Inr ''init'', Inr ''upload'', Inr ''upload'', Inr ''terminate''] :: (string + string) list"
  let ?r = "run_transfer_protocol demo_decode demo_backend ?lines \<lparr>backend = 0, written = [], write_script = []\<rparr>"
  have req: "requested demo_decode ?lines = [digest_fill 9, digest_fill 9]" by (simp add: demo_decode_def)
  have "fst ?r = Inr ()"
    by (simp add: run_transfer_protocol_def demo_decode_def demo_backend_def handle_upload_def call_backend_def emit_progress_def
        emit_complete_def write_json_line_def require_initialized_def andthen_def of_result_def ret_def)
  then have "?r = (Inr (), snd ?r)" by (metis prod.collapse)
  from transfers_answered_once [OF this] req show ?thesis by simp
qed

end
