(* ===== verification/Client.thy ===== *)
theory Client
  imports Protocol Uploads
begin

text \<open>
  \<open>crates/git-lfs-delta-client/src/backend.rs\<close> without its worker threads: requests with bounded retries, the verified chunk
  cache, and the sequential parts of \<open>upload\<close> and \<open>download\<close>.  The HTTP library is a state transformer \<open>cl_send\<close>
  on a network state, JSON, URL and header parsing are parameters; the clock is the list of pauses taken.  File operations
  consult a script that decides whether they fail and what other workers and processes did to the shared cache
  meanwhile.  The theorems show that a chunk the cache or the network delivers is always the described one and that every
  operation sends at most three requests.
\<close>

section \<open>Requests\<close>

datatype http_method = Get | Post | Put

datatype call_body = NoBody | PlanBody begin_upload_request | BytesBody bytes

record http_call =
  hc_method :: http_method
  hc_url :: string
  hc_headers :: "(string \<times> string) list"
  hc_body :: call_body

record http_answer =
  ha_status :: nat
  ha_retry_after :: "bytes option"
  ha_body :: "string + bytes"

record 'n client_deps = core_deps +
  cl_uuid_text :: "uuid \<Rightarrow> string"
  cl_parse_url :: "string \<Rightarrow> string + string"
  cl_extend_url :: "string \<Rightarrow> string list \<Rightarrow> string option"
  cl_send :: "http_call \<Rightarrow> 'n \<Rightarrow> (string + http_answer) \<times> 'n"
  cl_plan_json :: "bytes \<Rightarrow> string + begin_upload_response"
  cl_manifest_json :: "bytes \<Rightarrow> string + object_manifest"
  cl_header_text :: "bytes \<Rightarrow> string option"
  cl_status_text :: "nat \<Rightarrow> string"
  cl_not_found :: string
  cl_status_error :: "nat \<Rightarrow> string \<Rightarrow> string"

type_synonym chunk_files = "string \<Rightarrow> bytes option"

record fs_event =
  fs_error :: "string option"
  fs_others :: "chunk_files \<Rightarrow> chunk_files"

text \<open>\<open>sent\<close> and \<open>slept\<close> record the requests and the pauses in milliseconds; \<open>sources\<close> is what opening the upload source
  yields each time.\<close>

record 'n client =
  net :: 'n
  sent :: "http_call list"
  slept :: "nat list"
  cache_files :: chunk_files
  fs_script :: "fs_event list"
  sources :: "(string + reader) list"

type_synonym ('n, 'a) step = "('n client, backend_error, 'a) action"

definition failure :: "string \<Rightarrow> backend_error" where
  "failure msg = \<lparr>error_code = 1, error_message = msg\<rparr>"

definition action_of :: "transfer_action option \<Rightarrow> backend_error + transfer_action" where
  "action_of a = ok_or (failure ''server did not provide a CDC transfer action'') a"

definition authorized :: "http_method \<Rightarrow> string \<Rightarrow> call_body \<Rightarrow> transfer_action \<Rightarrow> http_call" where
  "authorized m url body act = \<lparr>hc_method = m, hc_url = url, hc_headers = ta_header act, hc_body = body\<rparr>"

definition send :: "'n client_deps \<Rightarrow> http_call \<Rightarrow> ('n, string + http_answer) step" where
  "send D c w = (case cl_send D c (net w) of (r, n) \<Rightarrow> (Inr r, w\<lparr>net := n, sent := sent w @ [c]\<rparr>))"

definition sleep :: "nat \<Rightarrow> ('n, unit) step" where
  "sleep ms = set_world (\<lambda>w. w\<lparr>slept := slept w @ [ms]\<rparr>)"

definition retryable_status :: "nat \<Rightarrow> bool" where
  "retryable_status s \<longleftrightarrow> s = 408 \<or> s = 429 \<or> 500 \<le> s \<and> s < 600"

text \<open>Seconds of the \<open>Retry-After\<close> header, in milliseconds.\<close>

definition retry_after :: "'n client_deps \<Rightarrow> http_answer \<Rightarrow> nat option" where
  "retry_after D a = map_option (\<lambda>n. 1000 * n)
     (Option.bind (ha_retry_after a) (\<lambda>h. Option.bind (cl_header_text D h) parse_u64))"

definition backoff :: "nat \<Rightarrow> nat" where
  "backoff attempt = 100 * 2 ^ attempt"

definition pause_for :: "'n client_deps \<Rightarrow> nat \<Rightarrow> http_answer \<Rightarrow> nat" where
  "pause_for D attempt a = (case retry_after D a of Some ms \<Rightarrow> ms | None \<Rightarrow> backoff attempt)"

definition child_url :: "'n client_deps \<Rightarrow> string \<Rightarrow> string list \<Rightarrow> backend_error + string" where
  "child_url D base children =
     res_bind (map_err (\<lambda>e. failure (''invalid action URL: '' @ e)) (cl_parse_url D base)) (\<lambda>url.
     ok_or (failure ''action URL cannot contain path segments'') (cl_extend_url D url children))"

section \<open>Bounded retries\<close>

text \<open>The loops \<open>for attempt in 0..3\<close>; the last argument counts the attempts left.\<close>

fun begin_from ::
  "'n client_deps \<Rightarrow> transfer_action \<Rightarrow> begin_upload_request \<Rightarrow> nat \<Rightarrow> nat \<Rightarrow> ('n, begin_upload_response) step" where
  "begin_from D act rq attempt 0 = fail (failure ''could not begin CDC upload after retries'')"
| "begin_from D act rq attempt (Suc left) =
     andthen (send D (authorized Post (ta_href act) (PlanBody rq) act)) (\<lambda>r. case r of
       Inr a \<Rightarrow>
         if is_success (ha_status a) then
           of_result (map_err (\<lambda>e. failure (''invalid CDC upload plan: '' @ e)) (res_bind (ha_body a) (cl_plan_json D)))
         else if retryable_status (ha_status a) \<and> attempt < 2 then
           andthen (sleep (pause_for D attempt a)) (\<lambda>_. begin_from D act rq (attempt + 1) left)
         else fail (failure (''could not begin CDC upload: HTTP '' @ cl_status_text D (ha_status a)))
     | Inl e \<Rightarrow>
         if attempt < 2 then andthen (sleep (backoff attempt)) (\<lambda>_. begin_from D act rq (attempt + 1) left)
         else fail (failure (''could not begin CDC upload: '' @ e)))"

definition begin_upload ::
  "'n client_deps \<Rightarrow> transfer_action \<Rightarrow> begin_upload_request \<Rightarrow> ('n, begin_upload_response) step" where
  "begin_upload D act rq = begin_from D act rq 0 3"

fun finalize_from :: "'n client_deps \<Rightarrow> transfer_action \<Rightarrow> string \<Rightarrow> nat \<Rightarrow> nat \<Rightarrow> ('n, unit) step" where
  "finalize_from D act url attempt 0 = fail (failure ''could not finalize CDC upload after retries'')"
| "finalize_from D act url attempt (Suc left) =
     andthen (send D (authorized Post url NoBody act)) (\<lambda>r. case r of
       Inr a \<Rightarrow>
         if is_success (ha_status a) then ret ()
         else if retryable_status (ha_status a) \<and> attempt < 2 then
           andthen (sleep (pause_for D attempt a)) (\<lambda>_. finalize_from D act url (attempt + 1) left)
         else fail (failure (''could not finalize CDC upload: HTTP '' @ cl_status_text D (ha_status a)))
     | Inl e \<Rightarrow>
         if attempt < 2 then andthen (sleep (backoff attempt)) (\<lambda>_. finalize_from D act url (attempt + 1) left)
         else fail (failure (''could not finalize CDC upload: '' @ e)))"

definition finalize_upload :: "'n client_deps \<Rightarrow> transfer_action \<Rightarrow> uuid \<Rightarrow> ('n, unit) step" where
  "finalize_upload D act upload =
     andthen (of_result (child_url D (ta_href act) [cl_uuid_text D upload, ''finalize''])) (\<lambda>url.
     finalize_from D act url 0 3)"

text \<open>The pause after a failed attempt that is not the last.\<close>

definition wait_after :: "nat \<Rightarrow> nat \<Rightarrow> ('n, unit) step" where
  "wait_after attempt delay = (if attempt < 2 then sleep delay else ret ())"

definition last_failure :: "string option \<Rightarrow> string" where
  "last_failure e = (case e of None \<Rightarrow> ''unknown transport failure'' | Some m \<Rightarrow> m)"

fun fetch_from :: "'n client_deps \<Rightarrow> transfer_action \<Rightarrow> string \<Rightarrow> nat \<Rightarrow> nat \<Rightarrow> string option \<Rightarrow> ('n, bytes) step" where
  "fetch_from D act url attempt 0 last_error =
     fail (failure (''chunk download failed after retries: '' @ last_failure last_error))"
| "fetch_from D act url attempt (Suc left) last_error =
     andthen (send D (authorized Get url NoBody act)) (\<lambda>r. case r of
       Inr a \<Rightarrow>
         if is_success (ha_status a) then
           of_result (map_err (\<lambda>e. failure (''could not read chunk response: '' @ e)) (ha_body a))
         else if retryable_status (ha_status a) then
           andthen (wait_after attempt (pause_for D attempt a)) (\<lambda>_.
           fetch_from D act url (attempt + 1) left (Some (''HTTP '' @ cl_status_text D (ha_status a))))
         else fail (failure (''chunk download failed with HTTP '' @ cl_status_text D (ha_status a)))
     | Inl e \<Rightarrow>
         andthen (wait_after attempt (backoff attempt)) (\<lambda>_. fetch_from D act url (attempt + 1) left (Some e)))"

fun put_from :: "'n client_deps \<Rightarrow> transfer_action \<Rightarrow> string \<Rightarrow> bytes \<Rightarrow> nat \<Rightarrow> nat \<Rightarrow> string option \<Rightarrow> ('n, unit) step" where
  "put_from D act url bytes attempt 0 last_error =
     fail (failure (''chunk upload failed after retries: '' @ last_failure last_error))"
| "put_from D act url bytes attempt (Suc left) last_error =
     andthen (send D (authorized Put url (BytesBody bytes) act)) (\<lambda>r. case r of
       Inr a \<Rightarrow>
         if is_success (ha_status a) then ret ()
         else if retryable_status (ha_status a) then
           andthen (wait_after attempt (pause_for D attempt a)) (\<lambda>_.
           put_from D act url bytes (attempt + 1) left (Some (''HTTP '' @ cl_status_text D (ha_status a))))
         else fail (failure (''chunk upload failed with HTTP '' @ cl_status_text D (ha_status a)))
     | Inl e \<Rightarrow>
         andthen (wait_after attempt (backoff attempt)) (\<lambda>_. put_from D act url bytes (attempt + 1) left (Some e)))"

definition upload_chunk_with_retry ::
  "'n client_deps \<Rightarrow> transfer_action \<Rightarrow> uuid \<Rightarrow> u32 \<Rightarrow> bytes \<Rightarrow> ('n, unit) step" where
  "upload_chunk_with_retry D act upload index bytes =
     andthen (of_result (child_url D (ta_href act) [cl_uuid_text D upload, ''chunks'', show_nat (unat index)])) (\<lambda>url.
     put_from D act url bytes 0 3 None)"

section \<open>The chunk cache\<close>

definition valid_chunk :: "'m digest_deps_scheme \<Rightarrow> bytes \<Rightarrow> chunk_descriptor \<Rightarrow> bool" where
  "valid_chunk D bytes d \<longleftrightarrow> length bytes = chunk_len d \<and> as_bytes (blake3 D bytes) = as_bytes (cd_id d)"

text \<open>The path below the cache root.\<close>

definition chunk_cache_path :: "string \<Rightarrow> string" where
  "chunk_cache_path digest = ''chunks/'' @ take 2 digest @ ''/'' @ digest"

text \<open>The next file operation: the error it fails with, if it does, after what others did to the cache.\<close>

definition fs_next :: "'n client \<Rightarrow> string option \<times> 'n client" where
  "fs_next w = (case fs_script w of
       [] \<Rightarrow> (None, w)
     | ev # rest \<Rightarrow> (fs_error ev, w\<lparr>cache_files := fs_others ev (cache_files w), fs_script := rest\<rparr>))"

definition fs_read :: "string \<Rightarrow> ('n, bytes option) step" where
  "fs_read path w = (case fs_next w of (e, w1) \<Rightarrow> (Inr (if e = None then cache_files w1 path else None), w1))"

definition fs_remove :: "'n client_deps \<Rightarrow> string \<Rightarrow> string \<Rightarrow> ('n, unit) step" where
  "fs_remove D msg path w = (case fs_next w of
       (Some e, w1) \<Rightarrow> (Inl (failure (msg @ '': '' @ e)), w1)
     | (None, w1) \<Rightarrow>
         if cache_files w1 path = None then (Inl (failure (msg @ '': '' @ cl_not_found D)), w1)
         else (Inr (), w1\<lparr>cache_files := (cache_files w1)(path := None)\<rparr>))"

text \<open>Creating directories and temporary files and writing to them.\<close>

definition fs_plain :: "string \<Rightarrow> ('n, unit) step" where
  "fs_plain msg w = (case fs_next w of
       (Some e, w1) \<Rightarrow> (Inl (failure (msg @ '': '' @ e)), w1)
     | (None, w1) \<Rightarrow> (Inr (), w1))"

text \<open>\<open>persist_noclobber\<close>, with \<open>AlreadyExists\<close> treated as success.\<close>

definition fs_persist_noclobber :: "string \<Rightarrow> bytes \<Rightarrow> ('n, unit) step" where
  "fs_persist_noclobber path bytes w = (case fs_next w of
       (Some e, w1) \<Rightarrow> (Inl (failure (''could not publish cache entry: '' @ e)), w1)
     | (None, w1) \<Rightarrow> (Inr (), if cache_files w1 path = None then w1\<lparr>cache_files := (cache_files w1)(path \<mapsto> bytes)\<rparr> else w1))"

definition fetch_chunk :: "'n client_deps \<Rightarrow> transfer_action \<Rightarrow> nat \<Rightarrow> chunk_descriptor \<Rightarrow> string \<Rightarrow> ('n, bytes) step" where
  "fetch_chunk D act index d path =
     andthen (of_result (child_url D (ta_href act) [''chunks'', show_nat index])) (\<lambda>url.
     andthen (fetch_from D act url 0 3 None) (\<lambda>bytes.
     andthen (guard_err (\<not> valid_chunk D bytes d) (failure ''downloaded chunk failed length or BLAKE3 validation'')) (\<lambda>_.
     andthen (fs_plain ''could not create chunk cache'') (\<lambda>_.
     andthen (fs_plain ''could not create cache temporary file'') (\<lambda>_.
     andthen (fs_plain ''could not write cache entry'') (\<lambda>_.
     andthen (fs_persist_noclobber path bytes) (\<lambda>_.
     ret bytes)))))))"

definition read_or_fetch_chunk ::
  "'n client_deps \<Rightarrow> transfer_action \<Rightarrow> nat \<Rightarrow> chunk_descriptor \<Rightarrow> ('n, bytes) step" where
  "read_or_fetch_chunk D act index d =
     (let path = chunk_cache_path (to_string D (cd_id d)) in
      andthen (fs_read path) (\<lambda>cached. case cached of
        Some bytes \<Rightarrow>
          if valid_chunk D bytes d then ret bytes
          else andthen (fs_remove D ''could not remove corrupt cache entry'' path) (\<lambda>_. fetch_chunk D act index d path)
      | None \<Rightarrow> fetch_chunk D act index d path))"

section \<open>Bounds\<close>

text \<open>\<open>bounded n k m\<close>: \<open>m\<close> sends at most \<open>n\<close> requests and pauses at most \<open>k\<close> times, whatever the network does.\<close>

definition bounded :: "nat \<Rightarrow> nat \<Rightarrow> ('n, 'a) step \<Rightarrow> bool" where
  "bounded n k m \<longleftrightarrow> (\<forall>w r w'. m w = (r, w') \<longrightarrow>
     length (sent w') \<le> length (sent w) + n \<and> length (slept w') \<le> length (slept w) + k)"

lemma boundedD: "bounded n k m \<Longrightarrow> m w = (r, w') \<Longrightarrow> length (sent w') \<le> length (sent w) + n \<and> length (slept w') \<le> length (slept w) + k"
  by (auto simp: bounded_def)

lemma bounded_andthen:
  assumes "bounded n k m" "\<And>x. bounded n' k' (f x)"
  shows "bounded (n + n') (k + k') (andthen m f)"
  unfolding bounded_def
proof (intro allI impI)
  fix w r w' assume run: "andthen m f w = (r, w')"
  obtain a w1 where a: "m w = (a, w1)" by (cases "m w")
  note b1 = boundedD [OF assms(1) a]
  show "length (sent w') \<le> length (sent w) + (n + n') \<and> length (slept w') \<le> length (slept w) + (k + k')"
  proof (cases a)
    case (Inl e)
    then show ?thesis using run a b1 by (auto simp: andthen_def)
  next
    case (Inr x)
    then have "f x w1 = (r, w')" using run a by (simp add: andthen_def)
    from boundedD [OF assms(2) this] b1 show ?thesis by linarith
  qed
qed

lemma bounded_local:
  "bounded n k (ret x)" "bounded n k (fail e)" "bounded n k (of_result r)" "bounded n k (guard_err b e')"
  by (auto simp: bounded_def ret_def fail_def of_result_def guard_err_def)

lemma fs_next_frame: "fs_next w = (ok, w') \<Longrightarrow> sent w' = sent w \<and> slept w' = slept w \<and> net w' = net w"
  by (auto simp: fs_next_def split: list.splits)

lemma bounded_fs:
  "bounded n k (fs_read p)" "bounded n k (fs_remove D e p)" "bounded n k (fs_plain e)" "bounded n k (fs_persist_noclobber p b)"
  by (auto simp: bounded_def fs_read_def fs_remove_def fs_plain_def fs_persist_noclobber_def split: prod.splits option.splits if_splits dest!: fs_next_frame)

lemma bounded_io: "bounded 1 k (send D c)" "bounded n 1 (sleep ms)"
  by (auto simp: bounded_def send_def sleep_def set_world_def split: prod.splits)

lemma bounded_wait: "attempt < 2 \<Longrightarrow> bounded n 1 (wait_after attempt ms)" "\<not> attempt < 2 \<Longrightarrow> bounded n k (wait_after attempt ms)"
  using bounded_io(2) bounded_local(1) by (auto simp: wait_after_def)

lemma bounded_send_then:
  assumes "\<And>r. bounded n k (f r)"
  shows "bounded (Suc n) k (andthen (send D c) f)"
  using bounded_andthen [OF bounded_io(1) [of 0] assms] by simp

lemma bounded_sleep_then: "bounded n k m \<Longrightarrow> bounded n (Suc k) (andthen (sleep ms) (\<lambda>_. m))"
  using bounded_andthen [OF bounded_io(2) [of 0], of n k "\<lambda>_. m"] by simp

lemma bounded_sleep_retry:
  assumes "bounded n (2 - Suc attempt) m" "attempt < 2"
  shows "bounded n (2 - attempt) (andthen (sleep ms) (\<lambda>_. m))"
proof -
  have e: "2 - attempt = Suc (2 - Suc attempt)" using assms(2) by simp
  show ?thesis unfolding e by (rule bounded_sleep_then [OF assms(1)])
qed

lemma bounded_wait_then:
  assumes "bounded n (2 - Suc attempt) m"
  shows "bounded n (2 - attempt) (andthen (wait_after attempt ms) (\<lambda>_. m))"
proof (cases "attempt < 2")
  case True
  then have e: "2 - attempt = 1 + (2 - Suc attempt)" by simp
  show ?thesis unfolding e by (rule bounded_andthen [OF bounded_wait(1) [OF True, of 0] assms, simplified add_0])
next
  case False
  then show ?thesis using bounded_andthen [OF bounded_wait(2) [OF False, of 0 0] assms] by simp
qed

lemma retries_bounded:
  "bounded left (2 - attempt) (begin_from D act rq attempt left)"
  "bounded left (2 - attempt) (finalize_from D act url attempt left)"
  "bounded left (2 - attempt) (fetch_from D act url attempt left last_error)"
  "bounded left (2 - attempt) (put_from D act url b attempt left last_error)"
proof (induction left arbitrary: attempt last_error)
  case 0
  {
    case 1 then show ?case by (simp add: bounded_local)
  next
    case 2 then show ?case by (simp add: bounded_local)
  next
    case 3 then show ?case by (simp add: bounded_local)
  next
    case 4 then show ?case by (simp add: bounded_local)
  }
next
  case (Suc left)
  {
    case 1 show ?case
      by (auto intro!: bounded_send_then bounded_sleep_retry bounded_local Suc.IH(1) [of "Suc attempt"] split: sum.split)
  next
    case 2 show ?case
      by (auto intro!: bounded_send_then bounded_sleep_retry bounded_local Suc.IH(2) [of "Suc attempt"] split: sum.split)
  next
    case 3 show ?case
      by (auto intro!: bounded_send_then bounded_wait_then bounded_local Suc.IH(3) [of "Suc attempt"] split: sum.split)
  next
    case 4 show ?case
      by (auto intro!: bounded_send_then bounded_wait_then bounded_local Suc.IH(4) [of "Suc attempt"] split: sum.split)
  }
qed

section \<open>Verified chunks\<close>

text \<open>No other process touches the cache, which is \<open>c\<close>.\<close>

definition cache_is :: "chunk_files \<Rightarrow> 'n client \<Rightarrow> bool" where
  "cache_is c w \<longleftrightarrow> cache_files w = c \<and> (\<forall>ev \<in> set (fs_script w). fs_others ev = (\<lambda>f. f))"

lemma fs_next_cache: "fs_next w = (ok, w') \<Longrightarrow> cache_is c w \<Longrightarrow> cache_is c w'"
  by (auto simp: fs_next_def cache_is_def split: list.splits)

lemma cache_local [keeps_intros]:
  "keeps (cache_is c) (send D rq)" "keeps (cache_is c) (sleep ms)" "keeps (cache_is c) (wait_after n ms)"
  "keeps (cache_is c) (fs_read p)" "keeps (cache_is c) (fs_plain e)"
  by (auto simp: keeps_def send_def sleep_def wait_after_def set_world_def ret_def fs_read_def fs_plain_def cache_is_def
      split: prod.splits option.splits dest!: fs_next_cache [where c = c, unfolded cache_is_def])

lemma fetch_from_cache [keeps_intros]: "keeps (cache_is c) (fetch_from D act url n k e)"
  by (induction k arbitrary: n e) (auto intro!: keeps_intros split: sum.split)

text \<open>What a fetch may do to the cache: nothing, drop the entry, or fill it with the described chunk.\<close>

definition cache_step :: "'m digest_deps_scheme \<Rightarrow> chunk_descriptor \<Rightarrow> string \<Rightarrow> chunk_files \<Rightarrow> chunk_files \<Rightarrow> bool" where
  "cache_step D d path c c' \<longleftrightarrow> c' = c \<or> (\<exists>x. c' = c(path := x) \<and> (\<forall>b. x = Some b \<longrightarrow> valid_chunk D b d))"

lemma cache_step_trans: "cache_step D d path c c' \<Longrightarrow> cache_step D d path c' c'' \<Longrightarrow> cache_step D d path c c''"
  by (auto simp: cache_step_def)

lemma persist_step:
  assumes "fs_persist_noclobber path b w = (r, w')" "cache_is c w" "valid_chunk D b d"
  shows "cache_step D d path c (cache_files w')"
proof -
  obtain ok w1 where n: "fs_next w = (ok, w1)" by (cases "fs_next w")
  have "cache_files w1 = c" using fs_next_cache [OF n assms(2)] by (simp add: cache_is_def)
  then show ?thesis
    using assms(1,3) n by (auto simp: fs_persist_noclobber_def cache_step_def split: option.splits if_splits)
qed

lemma remove_step:
  assumes "fs_remove D0 msg path w = (r, w')" "cache_is c w"
  shows "\<exists>c'. cache_is c' w' \<and> cache_step D d path c c'"
proof -
  obtain ok w1 where n: "fs_next w = (ok, w1)" by (cases "fs_next w")
  have c: "cache_is c w1" by (rule fs_next_cache [OF n assms(2)])
  then have "cache_is c w' \<or> cache_is (c(path := None)) w'"
    using assms(1) n by (auto simp: fs_remove_def cache_is_def split: option.splits if_splits)
  then show ?thesis by (auto simp: cache_step_def)
qed

lemma fetch_chunk_run:
  assumes "fetch_chunk D act i d path w = (res, w')"
  shows "(\<forall>b. res = Inr b \<longrightarrow> valid_chunk D b d) \<and> (cache_is c w \<longrightarrow> cache_step D d path c (cache_files w'))"
proof -
  let ?get = "andthen (of_result (child_url D (ta_href act) [''chunks'', show_nat i])) (\<lambda>url. fetch_from D act url 0 3 None)"
  let ?put = "\<lambda>b. andthen (fs_plain ''could not create chunk cache'') (\<lambda>_. andthen (fs_plain ''could not create cache temporary file'') (\<lambda>_.
     fs_plain ''could not write cache entry''))"
  have split: "fetch_chunk D act i d path = andthen ?get (\<lambda>b.
     andthen (guard_err (\<not> valid_chunk D b d) (failure ''downloaded chunk failed length or BLAKE3 validation'')) (\<lambda>_.
     andthen (?put b) (\<lambda>_. andthen (fs_persist_noclobber path b) (\<lambda>_. ret b))))"
    by (simp add: fetch_chunk_def andthen_assoc)
  obtain a w1 where a: "?get w = (a, w1)" by (cases "?get w")
  have k1: "keeps (cache_is c) ?get" and k2: "keeps (cache_is c) (?put b)" for b by (auto intro!: keeps_intros)
  have c1: "cache_is c w \<longrightarrow> cache_is c w1" using keepsD [OF k1 _ a] by blast
  show ?thesis
  proof (cases "\<exists>b. a = Inr b \<and> valid_chunk D b d")
    case False
    then have "(\<exists>e. res = Inl e) \<and> w' = w1"
      using assms a unfolding split by (cases a) (auto simp: andthen_def guard_err_def fail_def)
    then show ?thesis using c1 by (auto simp: cache_step_def cache_is_def)
  next
    case True
    then obtain b where b: "a = Inr b" "valid_chunk D b d" by blast
    obtain p w2 where p: "?put b w1 = (p, w2)" by (cases "?put b w1")
    have c2: "cache_is c w \<longrightarrow> cache_is c w2" using c1 keepsD [OF k2 _ p] by blast
    obtain q w3 where q: "fs_persist_noclobber path b w2 = (q, w3)" by (cases "fs_persist_noclobber path b w2")
    show ?thesis
    proof (cases p)
      case (Inl e)
      then have "res = Inl e \<and> w' = w2"
        using assms a p b unfolding split by (auto simp: andthen_def guard_err_def ret_def)
      then show ?thesis using c2 by (auto simp: cache_step_def cache_is_def)
    next
      case (Inr u)
      then have "(case q of Inl e \<Rightarrow> res = Inl e | Inr _ \<Rightarrow> res = Inr b) \<and> w' = w3"
        using assms a p q b unfolding split by (cases q) (auto simp: andthen_def guard_err_def ret_def)
      then show ?thesis using persist_step [OF q _ b(2), of c] c2 b(2) by (auto split: sum.splits)
    qed
  qed
qed

lemma fetch_chunk_bounded: "bounded 3 2 (fetch_chunk D act i d path)"
  unfolding fetch_chunk_def
  by (rule bounded_andthen [where n = 0 and k = 0 and n' = 3 and k' = 2, simplified add_0]
      bounded_andthen [where n' = 0 and k' = 0, simplified add_0_right]
      bounded_local bounded_fs retries_bounded(3) [of 3 0, simplified])+

lemma read_or_fetch_run:
  assumes run: "read_or_fetch_chunk D act i d w = (res, w')"
  shows "(\<forall>b. res = Inr b \<longrightarrow> valid_chunk D b d)
    \<and> length (sent w') \<le> length (sent w) + 3 \<and> length (slept w') \<le> length (slept w) + 2
    \<and> ((\<forall>ev \<in> set (fs_script w). fs_others ev = (\<lambda>f. f)) \<longrightarrow>
        cache_step D d (chunk_cache_path (to_string D (cd_id d))) (cache_files w) (cache_files w'))"
proof -
  let ?path = "chunk_cache_path (to_string D (cd_id d))" and ?c = "cache_files w"
  obtain cached w1 where r: "fs_read ?path w = (Inr cached, w1)" by (cases "fs_next w") (simp add: fs_read_def)
  have "bounded 3 2 (read_or_fetch_chunk D act i d)"
    unfolding read_or_fetch_chunk_def Let_def
    by (rule bounded_andthen [where n = 0 and k = 0 and n' = 3 and k' = 2, simplified add_0, OF bounded_fs(1)])
      (auto intro!: bounded_local fetch_chunk_bounded split: option.split
        intro: bounded_andthen [where n = 0 and k = 0 and n' = 3 and k' = 2, simplified add_0, OF bounded_fs(2)])
  note bounds = boundedD [OF this run]
  have c1: "cache_is ?c w1" if "cache_is ?c w" using keepsD [OF cache_local(4) that r] .
  have main: "(\<forall>b. res = Inr b \<longrightarrow> valid_chunk D b d) \<and> (cache_is ?c w \<longrightarrow> cache_step D d ?path ?c (cache_files w'))"
  proof (cases cached)
    case None
    then have "fetch_chunk D act i d ?path w1 = (res, w')" using run r by (simp add: read_or_fetch_chunk_def Let_def andthen_def)
    from fetch_chunk_run [OF this, of ?c] show ?thesis using c1 by blast
  next
    case (Some b)
    show ?thesis
    proof (cases "valid_chunk D b d")
      case True
      then have "res = Inr b \<and> w' = w1" using run r Some by (simp add: read_or_fetch_chunk_def Let_def andthen_def ret_def)
      then show ?thesis using True c1 by (auto simp: cache_step_def cache_is_def)
    next
      case False
      obtain u w2 where u: "fs_remove D ''could not remove corrupt cache entry'' ?path w1 = (u, w2)"
        by (cases "fs_remove D ''could not remove corrupt cache entry'' ?path w1")
      have k: "(case u of Inl e \<Rightarrow> res = Inl e \<and> w' = w2 | Inr _ \<Rightarrow> fetch_chunk D act i d ?path w2 = (res, w'))"
        using run r Some False u by (auto simp: read_or_fetch_chunk_def Let_def andthen_def split: sum.splits)
      have c2: "\<exists>c2. cache_is c2 w2 \<and> cache_step D d ?path ?c c2" if "cache_is ?c w"
        using remove_step [OF u c1 [OF that]] .
      show ?thesis
      proof (cases u)
        case (Inl e)
        then show ?thesis using k c2 by (auto simp: cache_is_def)
      next
        case (Inr x)
        then have f: "fetch_chunk D act i d ?path w2 = (res, w')" using k by simp
        show ?thesis
          using fetch_chunk_run [OF f, of ?c] fetch_chunk_run [OF f] c2 cache_step_trans by blast
      qed
    qed
  qed
  then show ?thesis using bounds by (simp add: cache_is_def)
qed

text \<open>
  Claim C31: a chunk that \<open>read_or_fetch_chunk\<close> returns, from the cache or from the network, has the described length and BLAKE3
  identity, whatever the server, the file system and concurrent users of the cache do; it takes at most three requests and
  two pauses.  When nobody else touches the cache, the only cache file that may change is the chunk's own, which is
  dropped or filled with the described chunk.
\<close>

theorem chunks_fetched_verified:
  assumes run: "read_or_fetch_chunk D act i d w = (res, w')"
  shows "(\<forall>b. res = Inr b \<longrightarrow> valid_chunk D b d)
    \<and> length (sent w') \<le> length (sent w) + 3 \<and> length (slept w') \<le> length (slept w) + 2
    \<and> ((\<forall>ev \<in> set (fs_script w). fs_others ev = (\<lambda>f. f)) \<longrightarrow>
        cache_step D d (chunk_cache_path (to_string D (cd_id d))) (cache_files w) (cache_files w'))"
  using assms by (rule read_or_fetch_run)

section \<open>What is retried\<close>

text \<open>The answers to sending one request up to \<open>k\<close> times; those after which the client tries again; the outcome.\<close>

fun replies :: "'n client_deps \<Rightarrow> http_call \<Rightarrow> nat \<Rightarrow> 'n \<Rightarrow> (string + http_answer) list" where
  "replies D c 0 n = []"
| "replies D c (Suc k) n = fst (cl_send D c n) # replies D c k (snd (cl_send D c n))"

definition again :: "string + http_answer \<Rightarrow> bool" where
  "again r = (case r of Inl _ \<Rightarrow> True | Inr a \<Rightarrow> \<not> is_success (ha_status a) \<and> retryable_status (ha_status a))"

definition accepted :: "(string + http_answer) list \<Rightarrow> bool" where
  "accepted rs = (case dropWhile again rs of Inr a # _ \<Rightarrow> is_success (ha_status a) | _ \<Rightarrow> False)"

definition tries :: "(string + http_answer) list \<Rightarrow> nat" where
  "tries rs = min (length rs) (Suc (length (takeWhile again rs)))"

definition retried :: "'n client_deps \<Rightarrow> http_call \<Rightarrow> nat \<Rightarrow> 'n client \<Rightarrow> (backend_error + unit) \<times> 'n client \<Rightarrow> bool" where
  "retried D c k w out \<longleftrightarrow> (let rs = replies D c k (net w) in
     (fst out = Inr () \<longleftrightarrow> accepted rs) \<and> sent (snd out) = sent w @ replicate (tries rs) c)"

lemma length_replies [simp]: "length (replies D c k n) = k"
  by (induction k arbitrary: n) simp_all

text \<open>One round: stop on success or on a final answer, otherwise pause and go on.\<close>

lemma retried_stop:
  assumes "\<not> again (fst (cl_send D c (net w)))" "sent (snd out) = sent w @ [c]"
    and "fst out = Inr () \<longleftrightarrow> (\<exists>a. fst (cl_send D c (net w)) = Inr a \<and> is_success (ha_status a))"
  shows "retried D c (Suc k) w out"
  using assms by (auto simp: retried_def accepted_def tries_def Let_def again_def split: sum.splits)

lemma retried_again:
  assumes "again (fst (cl_send D c (net w)))" "net w1 = snd (cl_send D c (net w))" "sent w1 = sent w @ [c]" "retried D c k w1 out"
  shows "retried D c (Suc k) w out"
  using assms by (simp add: retried_def accepted_def tries_def Let_def)

lemma wait_run:
  "\<exists>w1. andthen (wait_after n ms) (\<lambda>_. m) w = m w1 \<and> net w1 = net w \<and> sent w1 = sent w"
  "\<exists>w1. andthen (sleep ms) (\<lambda>_. m) w = m w1 \<and> net w1 = net w \<and> sent w1 = sent w"
  by (auto simp: wait_after_def sleep_def set_world_def andthen_def ret_def)

lemma send_run: "andthen (send D c) f w = f (fst (cl_send D c (net w))) (w\<lparr>net := snd (cl_send D c (net w)), sent := sent w @ [c]\<rparr>)"
  by (simp add: andthen_def send_def split: prod.split)

lemma put_from_retried: "retried D (authorized Put url (BytesBody b) act) k w (put_from D act url b n k e w)"
proof (induction k arbitrary: n e w)
  case 0
  show ?case by (simp add: retried_def accepted_def tries_def fail_def)
next
  case (Suc k)
  let ?c = "authorized Put url (BytesBody b) act"
  let ?r = "fst (cl_send D ?c (net w))" and ?w = "w\<lparr>net := snd (cl_send D ?c (net w)), sent := sent w @ [?c]\<rparr>"
  show ?case
  proof (cases "again ?r")
    case False
    then show ?thesis
      by (intro retried_stop) (auto simp: again_def send_run ret_def fail_def split: sum.splits)
  next
    case True
    then obtain ms e' where "put_from D act url b n (Suc k) e w =
        andthen (wait_after n ms) (\<lambda>_. put_from D act url b (n + 1) k e') ?w"
      by (cases ?r) (auto simp: again_def send_run)
    then obtain w1 where w1: "put_from D act url b n (Suc k) e w = put_from D act url b (n + 1) k e' w1"
      "net w1 = net ?w" "sent w1 = sent ?w" using wait_run(1) by metis
    show ?thesis unfolding w1(1) by (rule retried_again [OF True _ _ Suc.IH]) (use w1(2,3) in simp_all)
  qed
qed

lemma finalize_from_retried:
  "n + k = 3 \<Longrightarrow> retried D (authorized Post url NoBody act) k w (finalize_from D act url n k w)"
proof (induction k arbitrary: n w)
  case 0
  show ?case by (simp add: retried_def accepted_def tries_def fail_def)
next
  case (Suc k)
  let ?c = "authorized Post url NoBody act"
  let ?r = "fst (cl_send D ?c (net w))" and ?w = "w\<lparr>net := snd (cl_send D ?c (net w)), sent := sent w @ [?c]\<rparr>"
  consider (stop) "\<not> again ?r" | (last) "again ?r" "n = 2" | (more) "again ?r" "n < 2" using Suc.prems by linarith
  then show ?case
  proof cases
    case stop
    then show ?thesis by (intro retried_stop) (auto simp: again_def send_run ret_def fail_def split: sum.splits)
  next
    case last
    then have "k = 0" using Suc.prems by simp
    then show ?thesis
      using last by (auto simp: retried_def again_def accepted_def tries_def send_run fail_def split: sum.splits)
  next
    case more
    then obtain ms where "finalize_from D act url n (Suc k) w = andthen (sleep ms) (\<lambda>_. finalize_from D act url (n + 1) k) ?w"
      by (cases ?r) (auto simp: again_def send_run)
    then obtain w1 where w1: "finalize_from D act url n (Suc k) w = finalize_from D act url (n + 1) k w1"
      "net w1 = net ?w" "sent w1 = sent ?w" using wait_run(2) by metis
    show ?thesis unfolding w1(1)
      by (rule retried_again [OF more(1) _ _ Suc.IH]) (use w1(2,3) Suc.prems in simp_all)
  qed
qed

text \<open>
  Chunk uploads and finalization are retried exactly as intended.  The same request is sent again while the server
  answers with a transport error, 408, 429 or a 5xx status, three times at most, and the operation succeeds exactly when the
  first answer of another kind is a success.
\<close>

theorem uploads_retried_exactly:
  assumes "child_url D (ta_href act) [cl_uuid_text D u, ''chunks'', show_nat (unat i)] = Inr chunk_url"
    and "child_url D (ta_href act) [cl_uuid_text D u, ''finalize''] = Inr final_url"
  shows "retried D (authorized Put chunk_url (BytesBody b) act) 3 w (upload_chunk_with_retry D act u i b w)
    \<and> retried D (authorized Post final_url NoBody act) 3 w (finalize_upload D act u w)"
  by (simp add: upload_chunk_with_retry_def finalize_upload_def assms andthen_def of_result_def put_from_retried finalize_from_retried)

section \<open>Witnesses\<close>

text \<open>A network that answers from a script; an upload plan is encoded by its indexes, a manifest by the content it describes.\<close>

definition scripted :: "http_call \<Rightarrow> (string + http_answer) list \<Rightarrow> (string + http_answer) \<times> (string + http_answer) list" where
  "scripted c n = (case n of [] \<Rightarrow> (Inl ''connection refused'', []) | r # rest \<Rightarrow> (r, rest))"

text \<open>A client over a given network.\<close>

definition client_over :: "(http_call \<Rightarrow> 'n \<Rightarrow> (string + http_answer) \<times> 'n) \<Rightarrow> 'n client_deps" where
  "client_over f = core_deps.extend ref_core_deps
     \<lparr>cl_uuid_text = (\<lambda>u. ''u''), cl_parse_url = Inr, cl_extend_url = (\<lambda>base segs. Some (base @ concat segs)),
      cl_send = f,
      cl_plan_json = (\<lambda>b. Inr \<lparr>resp_protocol_version = 1, resp_upload_id = 1, missing_chunk_indexes = map ucast b, resp_expires_at = []\<rparr>),
      cl_manifest_json = (\<lambda>b. map_err core_error_to_string (finish ref_core_deps (new_stream ref_core_deps (Reader b None) beta_v1))),
      cl_header_text = (\<lambda>b. Some (map (\<lambda>x. char_of (unat x)) b)), cl_status_text = show_nat,
      cl_not_found = ''No such file or directory'', cl_status_error = (\<lambda>s url. show_nat s)\<rparr>"

abbreviation client_demo :: "(string + http_answer) list client_deps" where
  "client_demo \<equiv> client_over scripted"

definition demo_client :: "'n \<Rightarrow> 'n client" where
  "demo_client n = \<lparr>net = n, sent = [], slept = [], cache_files = (\<lambda>_. None), fs_script = [], sources = []\<rparr>"

definition demo_answer :: "nat \<Rightarrow> bytes \<Rightarrow> http_answer" where
  "demo_answer s b = \<lparr>ha_status = s, ha_retry_after = None, ha_body = Inr b\<rparr>"

definition demo_action :: transfer_action where
  "demo_action = \<lparr>ta_href = ''h/'', ta_header = []\<rparr>"

lemma client_over_simps [simp]:
  "cl_uuid_text (client_over f) = (\<lambda>u. ''u'')" "cl_parse_url (client_over f) = Inr"
  "cl_extend_url (client_over f) = (\<lambda>base segs. Some (base @ concat segs))" "cl_send (client_over f) = f"
  "cl_plan_json (client_over f) = (\<lambda>b. Inr \<lparr>resp_protocol_version = 1, resp_upload_id = 1, missing_chunk_indexes = map ucast b, resp_expires_at = []\<rparr>)"
  "cl_manifest_json (client_over f) = (\<lambda>b. map_err core_error_to_string (finish ref_core_deps (new_stream ref_core_deps (Reader b None) beta_v1)))"
  "stream_cdc (client_over f) = stream_cdc ref_core_deps" "sha256 (client_over f) = sha256 ref_digest_deps" "blake3 (client_over f) = blake3 ref_digest_deps"
  "ta_href demo_action = ''h/''"
  by (simp_all add: client_over_def core_deps.defs ref_core_deps_def digest_deps.defs ref_digest_deps_def demo_action_def)

theorem uploads_retried_exactly_witness:
  "fst (upload_chunk_with_retry client_demo demo_action 1 0 [7] (demo_client [Inl ''reset'', Inr (demo_answer 503 []), Inr (demo_answer 204 [])])) = Inr ()
   \<and> length (sent (snd (upload_chunk_with_retry client_demo demo_action 1 0 [7]
        (demo_client [Inl ''reset'', Inr (demo_answer 503 []), Inr (demo_answer 204 [])])))) = 3"
proof -
  let ?w = "demo_client [Inl ''reset'', Inr (demo_answer 503 []), Inr (demo_answer 204 [])]"
  have u: "child_url client_demo (ta_href demo_action) [cl_uuid_text client_demo 1, ''chunks'', show_nat (unat (0::u32))] = Inr (''h/uchunks'' @ show_nat 0)"
    "child_url client_demo (ta_href demo_action) [cl_uuid_text client_demo 1, ''finalize''] = Inr ''h/ufinalize''"
    by (simp_all add: child_url_def)
  from uploads_retried_exactly [OF u, of "[7]" ?w] show ?thesis
    by (simp add: retried_def accepted_def tries_def again_def Let_def numeral_3_eq_3 scripted_def demo_client_def demo_answer_def
        is_success_def retryable_status_def)
qed

theorem chunks_fetched_verified_witness:
  "fst (read_or_fetch_chunk client_demo demo_action 0 \<lparr>cd_id = digest_fill 9, cd_offset = 0, cd_length = 32\<rparr>
      (demo_client [Inr (demo_answer 503 []), Inr (demo_answer 200 (replicate 32 9))])) = Inr (replicate 32 9)
   \<and> valid_chunk client_demo (replicate 32 9) \<lparr>cd_id = digest_fill 9, cd_offset = 0, cd_length = 32\<rparr>"
proof -
  let ?d = "\<lparr>cd_id = digest_fill 9, cd_offset = 0, cd_length = 32\<rparr>"
  let ?r = "read_or_fetch_chunk client_demo demo_action 0 ?d (demo_client [Inr (demo_answer 503 []), Inr (demo_answer 200 (replicate 32 9))])"
  have "valid_chunk client_demo (replicate 32 9) ?d" by (simp add: valid_chunk_def)
  have "fst ?r = Inr (replicate 32 9)"
    by (simp add: read_or_fetch_chunk_def Let_def fs_read_def fs_next_def fetch_chunk_def child_url_def andthen_def of_result_def
        send_def wait_after_def sleep_def set_world_def ret_def guard_err_def fs_plain_def fs_persist_noclobber_def numeral_3_eq_3 scripted_def demo_client_def demo_answer_def
        is_success_def retryable_status_def valid_chunk_def)
  then have "?r = (Inr (replicate 32 9), snd ?r)" by (metis prod.collapse)
  from chunks_fetched_verified [OF this] show ?thesis using \<open>fst ?r = _\<close> by blast
qed

end
