(* ===== verification/UploadPool.thy ===== *)
theory UploadPool
  imports Pool Client
begin

text \<open>
  \<open>HttpBackend::upload\<close> of \<open>crates/git-lfs-delta-client/src/backend.rs\<close>: the sequential preparation, the scope with one producer and
  \<open>chunk_concurrency\<close> workers over a bounded channel, and the finalization.  A step of the pool is one channel operation or one
  completed chunk upload; the threads interleave freely, and a worker's requests meet the network in any state.  The
  theorems show that every schedule ends, that a run without error has uploaded every missing chunk exactly once, and
  what an upload that reports success has done.
\<close>

section \<open>The pool\<close>

type_synonym job = "u32 \<times> bytes"

datatype producer = Producing | Sending job | Checking | Finished

record upload_pool =
  stream :: chunk_stream
  position :: nat
  producer :: producer
  producer_error :: "backend_error option"
  jobs :: "job list"
  crew :: "(job, unit) worker list"
  failures :: "backend_error list"
  delivered :: "job list"

definition start_pool :: "'n client_deps \<Rightarrow> nat \<Rightarrow> reader \<Rightarrow> upload_pool" where
  "start_pool D concurrency src = \<lparr>stream = new_stream D src beta_v1, position = 0, producer = Producing, producer_error = None,
     jobs = [], crew = replicate concurrency Idle, failures = [], delivered = []\<rparr>"

definition stop :: "backend_error \<Rightarrow> upload_pool \<Rightarrow> upload_pool" where
  "stop e p = p\<lparr>producer_error := Some e, producer := Finished\<rparr>"

text \<open>The head of the loop over the enumerated chunks.\<close>

definition produce_job :: "'n client_deps \<Rightarrow> u32 list \<Rightarrow> upload_pool \<Rightarrow> upload_pool" where
  "produce_job D missing p = (case next_chunk D (stream p) of
       (None, s) \<Rightarrow> p\<lparr>stream := s, producer := Finished\<rparr>
     | (Some (Inl e), s) \<Rightarrow> stop (failure (core_error_to_string e)) (p\<lparr>stream := s\<rparr>)
     | (Some (Inr c), s) \<Rightarrow>
         (case u32_try_from (position p) of
            None \<Rightarrow> stop (failure ''object has too many chunks'') (p\<lparr>stream := s\<rparr>)
          | Some index \<Rightarrow>
              p\<lparr>stream := s, position := position p + 1,
                producer := (if index \<in> set missing then Sending (index, chunk_data c) else Checking)\<rparr>))"

definition worker_stopped :: backend_error where
  "worker_stopped = failure ''chunk upload worker stopped''"

text \<open>\<open>errors.try_recv()\<close> after each chunk.\<close>

definition check_failures :: "upload_pool \<Rightarrow> upload_pool" where
  "check_failures p = (case failures p of
       [] \<Rightarrow> p\<lparr>producer := Producing\<rparr>
     | e # rest \<Rightarrow> stop e (p\<lparr>failures := rest\<rparr>))"

definition finish_job :: "nat \<Rightarrow> job \<Rightarrow> backend_error + unit \<Rightarrow> upload_pool \<Rightarrow> upload_pool" where
  "finish_job i job r p = (case r of
       Inr _ \<Rightarrow> p\<lparr>crew := (crew p)[i := Idle], delivered := delivered p @ [job]\<rparr>
     | Inl e \<Rightarrow> p\<lparr>crew := (crew p)[i := Gone], failures := failures p @ [e]\<rparr>)"

text \<open>Sending blocks while the channel is full and fails when every receiver is gone; receiving ends when the channel is
  empty and the producer has dropped its end.\<close>

inductive upload_step ::
  "'n client_deps \<Rightarrow> transfer_action \<Rightarrow> begin_upload_response \<Rightarrow> nat \<Rightarrow> upload_pool \<Rightarrow> upload_pool \<Rightarrow> bool"
  for D :: "'n client_deps" and act :: transfer_action and plan :: begin_upload_response and concurrency :: nat where
  produces: "producer p = Producing \<Longrightarrow> upload_step D act plan concurrency p (produce_job D (missing_chunk_indexes plan) p)"
| sends: "producer p = Sending job \<Longrightarrow> length (jobs p) < concurrency \<Longrightarrow> \<not> all_gone (crew p) \<Longrightarrow>
    upload_step D act plan concurrency p (p\<lparr>jobs := jobs p @ [job], producer := Checking\<rparr>)"
| cannot_send: "producer p = Sending job \<Longrightarrow> all_gone (crew p) \<Longrightarrow> upload_step D act plan concurrency p (stop worker_stopped p)"
| checks: "producer p = Checking \<Longrightarrow> upload_step D act plan concurrency p (check_failures p)"
| takes: "i < length (crew p) \<Longrightarrow> crew p ! i = Idle \<Longrightarrow> jobs p = job # rest \<Longrightarrow>
    upload_step D act plan concurrency p (p\<lparr>jobs := rest, crew := (crew p)[i := Busy job]\<rparr>)"
| finishes: "i < length (crew p) \<Longrightarrow> crew p ! i = Busy (index, data) \<Longrightarrow>
    upload_chunk_with_retry D act (resp_upload_id plan) index data w = (r, w') \<Longrightarrow>
    upload_step D act plan concurrency p (finish_job i (index, data) r p)"
| leaves: "i < length (crew p) \<Longrightarrow> crew p ! i = Idle \<Longrightarrow> jobs p = [] \<Longrightarrow> producer p = Finished \<Longrightarrow>
    upload_step D act plan concurrency p (p\<lparr>crew := (crew p)[i := Gone]\<rparr>)"

definition joined :: "upload_pool \<Rightarrow> bool" where
  "joined p \<longleftrightarrow> producer p = Finished \<and> all_gone (crew p)"

text \<open>\<open>producer_error.or_else(|| errors.try_recv().ok())\<close>.\<close>

definition pool_error :: "upload_pool \<Rightarrow> backend_error option" where
  "pool_error p = (case producer_error p of Some e \<Rightarrow> Some e | None \<Rightarrow> (case failures p of [] \<Rightarrow> None | e # _ \<Rightarrow> Some e))"

section \<open>Every schedule ends\<close>

fun producer_weight :: "producer \<Rightarrow> nat" where
  "producer_weight Producing = 1"
| "producer_weight (Sending _) = 6"
| "producer_weight Checking = 2"
| "producer_weight Finished = 0"

definition upload_weight :: "upload_pool \<Rightarrow> nat" where
  "upload_weight p = 6 * length (inner (stream p)) + producer_weight (producer p) + 3 * length (jobs p)
     + sum_list (map worker_weight (crew p))"

lemma worker_weight_update:
  "i < length ws \<Longrightarrow> sum_list (map worker_weight (ws[i := x])) + worker_weight (ws ! i) = sum_list (map worker_weight ws) + worker_weight x"
  by (rule sum_list_update_nat)

lemma next_chunk_end: "next_chunk D s = (None, s') \<Longrightarrow> s' = s"
  by (auto simp: next_chunk_def Let_def split: list.splits sum.splits option.splits)

lemma produce_job_decreases: "producer p = Producing \<Longrightarrow> upload_weight (produce_job D missing p) < upload_weight p"
  using next_chunk_decreases [of D "stream p"]
  by (auto simp: produce_job_def stop_def upload_weight_def split: prod.splits option.splits sum.splits dest!: next_chunk_end)

lemma upload_step_decreases: "upload_step D act plan n p q \<Longrightarrow> upload_weight q < upload_weight p"
proof (induction rule: upload_step.induct)
  case (produces p)
  then show ?case by (rule produce_job_decreases)
next
  case (takes i p job rest)
  then show ?case using worker_weight_update [of i "crew p" "Busy job"] by (simp add: upload_weight_def)
next
  case (finishes i p index data w r w')
  then show ?case
    using worker_weight_update [of i "crew p" Idle] worker_weight_update [of i "crew p" Gone]
    by (auto simp: upload_weight_def finish_job_def split: sum.splits)
next
  case (leaves i p)
  then show ?case using worker_weight_update [of i "crew p" Gone] by (simp add: upload_weight_def)
qed (auto simp: upload_weight_def stop_def check_failures_def split: list.splits)

lemma upload_step_crew: "upload_step D act plan n p q \<Longrightarrow> length (crew q) = length (crew p)"
  by (induction rule: upload_step.induct)
    (auto simp: produce_job_def stop_def check_failures_def finish_job_def split: prod.splits option.splits sum.splits list.splits)

section \<open>The sequential reference\<close>

text \<open>The jobs a run without concurrency would send: the missing chunks of the stream in order, or the first error.\<close>

function wanted :: "'n client_deps \<Rightarrow> u32 list \<Rightarrow> nat \<Rightarrow> chunk_stream \<Rightarrow> backend_error + job list" where
  "wanted D missing k s = (case next_chunk D s of
       (None, _) \<Rightarrow> Inr []
     | (Some (Inl e), _) \<Rightarrow> Inl (failure (core_error_to_string e))
     | (Some (Inr c), s') \<Rightarrow>
         (case u32_try_from k of
            None \<Rightarrow> Inl (failure ''object has too many chunks'')
          | Some index \<Rightarrow> res_bind (wanted D missing (k + 1) s') (\<lambda>rest.
              Inr (if index \<in> set missing then (index, chunk_data c) # rest else rest))))"
  by pat_completeness auto
termination
  by (relation "measure (\<lambda>(D, missing, k, s). length (inner s))") (auto dest: next_chunk_decreases [OF sym])

declare wanted.simps [simp del]

definition upload_failed :: "'n client_deps \<Rightarrow> transfer_action \<Rightarrow> begin_upload_response \<Rightarrow> backend_error \<Rightarrow> bool" where
  "upload_failed D act plan e \<longleftrightarrow> (\<exists>index data w w'. upload_chunk_with_retry D act (resp_upload_id plan) index data w = (Inl e, w'))"

fun offered :: "producer \<Rightarrow> job multiset" where
  "offered (Sending job) = {#job#}"
| "offered _ = {#}"

definition under_way :: "upload_pool \<Rightarrow> job multiset" where
  "under_way p = mset (delivered p) + sum_list (map held (crew p)) + mset (jobs p) + offered (producer p)"

text \<open>Nothing is lost without an error.\<close>

definition accounted :: "'n client_deps \<Rightarrow> u32 list \<Rightarrow> chunk_stream \<Rightarrow> upload_pool \<Rightarrow> bool" where
  "accounted D missing s0 p \<longleftrightarrow> (producer_error p = None \<longrightarrow>
     (\<exists>pre. wanted D missing 0 s0 = res_bind (wanted D missing (position p) (stream p)) (\<lambda>rest. Inr (pre @ rest))
        \<and> (failures p = [] \<longrightarrow> mset pre = under_way p))
     \<and> (producer p = Finished \<longrightarrow> wanted D missing (position p) (stream p) = Inr [])
     \<and> (failures p = [] \<and> Gone \<in> set (crew p) \<longrightarrow> producer p = Finished \<and> jobs p = []))"

text \<open>Every error has a cause.\<close>

definition caused :: "'n client_deps \<Rightarrow> transfer_action \<Rightarrow> begin_upload_response \<Rightarrow> chunk_stream \<Rightarrow> upload_pool \<Rightarrow> bool" where
  "caused D act plan s0 p \<longleftrightarrow>
     (\<forall>e \<in> set (failures p). upload_failed D act plan e)
     \<and> (\<forall>e. producer_error p = Some e \<longrightarrow> producer p = Finished
          \<and> (wanted D (missing_chunk_indexes plan) 0 s0 = Inl e \<or> upload_failed D act plan e
             \<or> e = worker_stopped \<and> (\<exists>e'. upload_failed D act plan e')))"

definition upload_inv ::
  "'n client_deps \<Rightarrow> transfer_action \<Rightarrow> begin_upload_response \<Rightarrow> nat \<Rightarrow> chunk_stream \<Rightarrow> upload_pool \<Rightarrow> bool" where
  "upload_inv D act plan n s0 p \<longleftrightarrow> 0 < n \<and> length (crew p) = n \<and> Reporting () \<notin> set (crew p)
     \<and> accounted D (missing_chunk_indexes plan) s0 p \<and> caused D act plan s0 p"

lemma present_worker:
  assumes "\<not> all_gone (crew p)" "Reporting () \<notin> set (crew p)"
  shows "(\<exists>i job. i < length (crew p) \<and> crew p ! i = Busy job) \<or> (\<exists>i. i < length (crew p) \<and> crew p ! i = Idle)"
proof -
  obtain x where "x \<in> set (crew p)" "x \<noteq> Gone" using assms(1) by (auto simp: all_gone_def)
  then obtain i where i: "i < length (crew p)" "crew p ! i \<noteq> Gone" by (auto simp: in_set_conv_nth)
  moreover have "crew p ! i \<noteq> Reporting ()" using assms(2) i(1) nth_mem by metis
  ultimately show ?thesis by (cases "crew p ! i") auto
qed

lemma upload_progress:
  assumes n: "0 < n" "Reporting () \<notin> set (crew p)" and "\<not> joined p"
  shows "\<exists>q. upload_step D act plan n p q"
proof (cases "all_gone (crew p)")
  case True
  then show ?thesis
    using assms by (cases "producer p") (auto simp: joined_def intro: upload_step.intros)
next
  case False
  have busy: ?thesis if b: "i < length (crew p)" "crew p ! i = Busy job" for i job
  proof -
    obtain index data where job: "job = (index, data)" by (cases job)
    obtain r w' where "upload_chunk_with_retry D act (resp_upload_id plan) index data undefined = (r, w')"
      by (cases "upload_chunk_with_retry D act (resp_upload_id plan) index data undefined")
    from finishes [OF b(1) b(2) [unfolded job] this] show ?thesis by blast
  qed
  have idle: ?thesis if "i < length (crew p)" "crew p ! i = Idle" for i
  proof (cases "jobs p")
    case (Cons job rest)
    then show ?thesis using takes [OF that Cons] by blast
  next
    case Nil
    then show ?thesis
      using that n False sends [of p _ n D act plan] by (cases "producer p") (fastforce intro: upload_step.intros)+
  qed
  show ?thesis using present_worker [OF False n(2)] busy idle by blast
qed

section \<open>The invariant holds\<close>

lemma held_update:
  "i < length ws \<Longrightarrow> sum_list (map held (ws[i := x])) + held (ws ! i) = sum_list (map held ws) + held x"
  by (rule sum_list_update_mset)

lemma accountedD:
  assumes "accounted D missing s0 p" "producer_error p = None"
  obtains pre where "wanted D missing 0 s0 = res_bind (wanted D missing (position p) (stream p)) (\<lambda>rest. Inr (pre @ rest))"
    "failures p = [] \<Longrightarrow> mset pre = under_way p"
  using assms unfolding accounted_def by blast

lemma produce_job_accounted:
  assumes acc: "accounted D missing s0 p" and running: "producer p = Producing" "producer_error p = None"
  shows "accounted D missing s0 (produce_job D missing p)"
proof -
  from accountedD [OF acc running(2)] obtain pre where
    pre: "wanted D missing 0 s0 = res_bind (wanted D missing (position p) (stream p)) (\<lambda>rest. Inr (pre @ rest))"
    "failures p = [] \<Longrightarrow> mset pre = under_way p" by blast
  have gone: "failures p = [] \<Longrightarrow> Gone \<notin> set (crew p)" using acc running by (auto simp: accounted_def)
  obtain r s where r: "next_chunk D (stream p) = (r, s)" by (cases "next_chunk D (stream p)")
  show ?thesis
  proof (cases "\<exists>c index. r = Some (Inr c) \<and> u32_try_from (position p) = Some index")
    case False
    then show ?thesis
      using r running pre gone acc next_chunk_end [of D "stream p" s] wanted.simps [of D missing "position p" "stream p"]
      by (auto simp: produce_job_def stop_def accounted_def under_way_def split: option.splits sum.splits)
  next
    case True
    then obtain c index where c: "r = Some (Inr c)" "u32_try_from (position p) = Some index" by blast
    let ?new = "if index \<in> set missing then [(index, chunk_data c)] else []"
    have w: "wanted D missing (position p) (stream p) = res_bind (wanted D missing (position p + 1) s) (\<lambda>rest. Inr (?new @ rest))"
      using wanted.simps [of D missing "position p" "stream p"] r c by simp
    have q: "produce_job D missing p = p\<lparr>stream := s, position := position p + 1,
        producer := (if index \<in> set missing then Sending (index, chunk_data c) else Checking)\<rparr>"
      using r c by (simp add: produce_job_def)
    have "wanted D missing 0 s0 = res_bind (wanted D missing (position p + 1) s) (\<lambda>rest. Inr ((pre @ ?new) @ rest))"
      unfolding pre(1) w by (cases "wanted D missing (position p + 1) s") simp_all
    moreover have "failures p = [] \<Longrightarrow> mset (pre @ ?new) = under_way (produce_job D missing p)"
      using pre(2) running unfolding q under_way_def by simp
    ultimately show ?thesis using gone unfolding accounted_def q by (intro impI conjI exI [of _ "pre @ ?new"]) (auto split: if_splits)
  qed
qed

lemma upload_step_accounted:
  assumes "upload_step D act plan n p q" "accounted D (missing_chunk_indexes plan) s0 p" "caused D act plan s0 p"
  shows "accounted D (missing_chunk_indexes plan) s0 q"
  using assms
proof (induction rule: upload_step.induct)
  case (produces p)
  then show ?case by (intro produce_job_accounted) (auto simp: caused_def)
next
  case (sends p job)
  then have "under_way (p\<lparr>jobs := jobs p @ [job], producer := Checking\<rparr>) = under_way p" by (simp add: under_way_def)
  then show ?case using sends unfolding accounted_def by auto
next
  case (checks p)
  then show ?case by (auto simp: accounted_def check_failures_def stop_def under_way_def split: list.splits)
next
  case (takes i p job rest)
  then have "under_way (p\<lparr>jobs := rest, crew := (crew p)[i := Busy job]\<rparr>) = under_way p"
    using held_update [of i "crew p" "Busy job"] by (simp add: under_way_def)
  then show ?case using takes unfolding accounted_def by (auto dest: in_set_update)
next
  case (finishes i p index data w r w')
  have "under_way (finish_job i (index, data) (Inr ()) p) = under_way p"
    using finishes held_update [of i "crew p" Idle] by (simp add: under_way_def finish_job_def)
  then show ?case using finishes unfolding accounted_def by (cases r) (auto simp: finish_job_def dest: in_set_update)
next
  case (leaves i p)
  then have "under_way (p\<lparr>crew := (crew p)[i := Gone]\<rparr>) = under_way p"
    using held_update [of i "crew p" Gone] by (simp add: under_way_def)
  then show ?case using leaves unfolding accounted_def by auto
qed (simp add: accounted_def stop_def)

lemma produce_job_caused:
  assumes "caused D act plan s0 p" "accounted D (missing_chunk_indexes plan) s0 p" "producer p = Producing"
  shows "caused D act plan s0 (produce_job D (missing_chunk_indexes plan) p)"
proof -
  let ?m = "missing_chunk_indexes plan"
  have none: "producer_error p = None" using assms(1,3) by (cases "producer_error p") (auto simp: caused_def)
  from accountedD [OF assms(2) none] obtain pre where
    pre: "wanted D ?m 0 s0 = res_bind (wanted D ?m (position p) (stream p)) (\<lambda>rest. Inr (pre @ rest))" by blast
  then have "wanted D ?m (position p) (stream p) = Inl e \<Longrightarrow> wanted D ?m 0 s0 = Inl e" for e by simp
  then show ?thesis
    using assms(1) none wanted.simps [of D ?m "position p" "stream p"]
    by (auto simp: caused_def produce_job_def stop_def split: prod.splits option.splits sum.splits)
qed

lemma upload_step_caused:
  assumes "upload_step D act plan n p q" "caused D act plan s0 p" "accounted D (missing_chunk_indexes plan) s0 p" "0 < length (crew p)"
  shows "caused D act plan s0 q"
  using assms
proof (induction rule: upload_step.induct)
  case (produces p)
  then show ?case by (intro produce_job_caused)
next
  case (cannot_send p job)
  then have "producer_error p = None" by (cases "producer_error p") (auto simp: caused_def)
  moreover have "Gone \<in> set (crew p)" using cannot_send by (cases "crew p") (auto simp: all_gone_def)
  ultimately have "failures p \<noteq> []" using cannot_send by (auto simp: accounted_def)
  then have "\<exists>e. upload_failed D act plan e" using cannot_send by (cases "failures p") (auto simp: caused_def)
  then show ?case using cannot_send by (auto simp: caused_def stop_def)
next
  case (checks p)
  then show ?case by (cases "failures p") (auto simp: caused_def check_failures_def stop_def)
next
  case (finishes i p index data w r w')
  then show ?case by (cases r) (auto simp: caused_def finish_job_def upload_failed_def)
qed (auto simp: caused_def)

lemma upload_step_reporting: "upload_step D act plan n p q \<Longrightarrow> Reporting () \<notin> set (crew p) \<Longrightarrow> Reporting () \<notin> set (crew q)"
  by (induction rule: upload_step.induct)
    (auto simp: produce_job_def stop_def check_failures_def finish_job_def split: prod.splits option.splits sum.splits list.splits dest: in_set_update)

lemma upload_inv_start: "0 < n \<Longrightarrow> upload_inv D act plan n (new_stream D src beta_v1) (start_pool D n src)"
proof -
  have "wanted D m 0 s = res_bind (wanted D m 0 s) (\<lambda>rest. Inr ([] @ rest))" for m s
    by (cases "wanted D m 0 s") simp_all
  then show "0 < n \<Longrightarrow> ?thesis"
    using sum_list_none [of "replicate n Idle" held]
    by (auto simp: upload_inv_def start_pool_def accounted_def caused_def under_way_def simp del: map_replicate intro!: exI [of _ "[]"])
qed

interpretation uploader: worker_pool "upload_step D act plan n" "upload_inv D act plan n s0" joined upload_weight
proof
  fix p q
  assume inv: "upload_inv D act plan n s0 p"
  show "\<not> joined p \<Longrightarrow> \<exists>q. upload_step D act plan n p q" using upload_progress [of n p D act plan] inv by (simp add: upload_inv_def)
  assume step: "upload_step D act plan n p q"
  show "upload_weight q < upload_weight p" by (rule upload_step_decreases [OF step])
  show "upload_inv D act plan n s0 q"
    using inv upload_step_crew [OF step] upload_step_accounted [OF step] upload_step_caused [OF step] upload_step_reporting [OF step]
    by (simp add: upload_inv_def)
qed

lemma joined_outcome:
  assumes "upload_inv D act plan n s0 p" "joined p"
  shows "case pool_error p of
      None \<Rightarrow> \<exists>all. wanted D (missing_chunk_indexes plan) 0 s0 = Inr all \<and> mset (delivered p) = mset all
    | Some e \<Rightarrow> wanted D (missing_chunk_indexes plan) 0 s0 = Inl e \<or> (\<exists>e'. upload_failed D act plan e' \<and> (e = e' \<or> e = worker_stopped))"
proof (cases "pool_error p")
  case None
  then have ok: "producer_error p = None" "failures p = []" by (auto simp: pool_error_def split: option.splits list.splits)
  have gone: "Gone \<in> set (crew p)" using assms by (cases "crew p") (auto simp: upload_inv_def joined_def all_gone_def)
  have acc: "accounted D (missing_chunk_indexes plan) s0 p" using assms by (simp add: upload_inv_def)
  from accountedD [OF acc ok(1)] obtain pre where
    pre: "wanted D (missing_chunk_indexes plan) 0 s0 = res_bind (wanted D (missing_chunk_indexes plan) (position p) (stream p)) (\<lambda>rest. Inr (pre @ rest))"
    "failures p = [] \<Longrightarrow> mset pre = under_way p" by blast
  have "wanted D (missing_chunk_indexes plan) (position p) (stream p) = Inr []" "jobs p = []"
    using acc ok gone assms(2) by (auto simp: accounted_def joined_def)
  then have "wanted D (missing_chunk_indexes plan) 0 s0 = Inr pre \<and> mset (delivered p) = mset pre"
    using pre ok(2) assms(2) all_gone_empty [of "crew p"] by (simp add: under_way_def joined_def)
  then show ?thesis using None by auto
next
  case (Some e)
  then show ?thesis
    using assms(1) by (auto simp: pool_error_def upload_inv_def caused_def split: option.splits list.splits)
qed

text \<open>
  Claim C30: the upload pool is correct under every schedule.  However the producer and the workers interleave and whatever the
  network answers, no run is longer than \<open>6c + n + 1\<close> steps for \<open>c\<close> items of the chunker and \<open>n\<close> workers, no run gets stuck before
  the producer and all workers have ended, and then either no error is reported and the missing chunks of the source have all
  been uploaded, each exactly once, or the reported error is the producer's own, that of a failed chunk upload, or the notice
  that the workers stopped, which only failed uploads cause.
\<close>

theorem upload_pool_correct:
  assumes n: "0 < n"
  shows "(\<forall>k p. (upload_step D act plan n ^^ k) (start_pool D n src) p \<longrightarrow>
        k \<le> 6 * length (inner (new_stream D src beta_v1)) + n + 1)
    \<and> (\<forall>p. (upload_step D act plan n)\<^sup>*\<^sup>* (start_pool D n src) p \<longrightarrow> (\<exists>q. (upload_step D act plan n)\<^sup>*\<^sup>* p q \<and> joined q))
    \<and> (\<forall>p. (upload_step D act plan n)\<^sup>*\<^sup>* (start_pool D n src) p \<and> joined p \<longrightarrow>
        (case pool_error p of
           None \<Rightarrow> \<exists>all. wanted D (missing_chunk_indexes plan) 0 (new_stream D src beta_v1) = Inr all \<and> mset (delivered p) = mset all
         | Some e \<Rightarrow> wanted D (missing_chunk_indexes plan) 0 (new_stream D src beta_v1) = Inl e
             \<or> (\<exists>e'. upload_failed D act plan e' \<and> (e = e' \<or> e = worker_stopped))))"
proof -
  note start = upload_inv_start [OF n, where D = D and act = act and plan = plan and src = src]
  have weight: "upload_weight (start_pool D n src) = 6 * length (inner (new_stream D src beta_v1)) + n + 1"
    by (simp add: upload_weight_def start_pool_def sum_list_replicate)
  show ?thesis
    using uploader.every_schedule_ends [OF start] uploader.reachable_inv [OF _ start] joined_outcome unfolding weight by blast
qed

section \<open>The whole upload\<close>

definition open_source :: "'n client_deps \<Rightarrow> string \<Rightarrow> ('n, reader) step" where
  "open_source D msg w = (case sources w of
       [] \<Rightarrow> (Inl (failure (msg @ '': '' @ cl_not_found D)), w)
     | Inl e # rest \<Rightarrow> (Inl (failure (msg @ '': '' @ e)), w\<lparr>sources := rest\<rparr>)
     | Inr src # rest \<Rightarrow> (Inr src, w\<lparr>sources := rest\<rparr>))"

text \<open>Everything before the worker threads.\<close>

definition prepare_upload ::
  "'n client_deps \<Rightarrow> upload_request \<Rightarrow> ('n, transfer_action \<times> begin_upload_response \<times> reader) step" where
  "prepare_upload D rq =
     andthen (of_result (action_of (up_action rq))) (\<lambda>act.
     andthen (open_source D ''could not open upload source'') (\<lambda>src.
     andthen (of_result (map_err (\<lambda>e. failure (core_error_to_string e)) (finish D (new_stream D src beta_v1)))) (\<lambda>manifest.
     andthen (guard_err (object_oid manifest \<noteq> up_oid rq \<or> object_size manifest \<noteq> up_size rq)
        (failure ''upload source does not match the Git LFS OID and size'')) (\<lambda>_.
     andthen (begin_upload D act \<lparr>req_protocol_version = 1, req_manifest = manifest\<rparr>) (\<lambda>plan.
     andthen (guard_err (resp_protocol_version plan \<noteq> 1) (failure ''server selected an unsupported CDC protocol version'')) (\<lambda>_.
     andthen (guard_err (\<exists>i \<in> set (missing_chunk_indexes plan). length (chunks manifest) \<le> unat i)
        (failure ''server upload plan contains a chunk index outside the manifest'')) (\<lambda>_.
     andthen (open_source D ''could not reopen upload source'') (\<lambda>again.
     andthen (guard_err (card (set (missing_chunk_indexes plan)) \<noteq> length (missing_chunk_indexes plan))
        (failure ''server upload plan contains duplicate chunk indexes'')) (\<lambda>_.
     ret (act, plan, again))))))))))"

text \<open>\<open>uploads D n rq w r js w'\<close>: a run of \<open>upload\<close> from \<open>w\<close> with \<open>n\<close> workers may return \<open>r\<close> in \<open>w'\<close>, having uploaded the chunks \<open>js\<close>.  The
  network state that the workers leave behind is open.\<close>

inductive uploads ::
  "'n client_deps \<Rightarrow> nat \<Rightarrow> upload_request \<Rightarrow> 'n client \<Rightarrow> backend_error + u64 \<Rightarrow> job list \<Rightarrow> 'n client \<Rightarrow> bool"
  for D :: "'n client_deps" and n :: nat and rq :: upload_request and w :: "'n client" where
  not_prepared: "prepare_upload D rq w = (Inl e, w1) \<Longrightarrow> uploads D n rq w (Inl e) [] w1"
| not_delivered: "prepare_upload D rq w = (Inr (act, plan, src), w1) \<Longrightarrow>
    (upload_step D act plan n)\<^sup>*\<^sup>* (start_pool D n src) p \<Longrightarrow> joined p \<Longrightarrow> pool_error p = Some e \<Longrightarrow>
    uploads D n rq w (Inl e) (delivered p) w2"
| finalized: "prepare_upload D rq w = (Inr (act, plan, src), w1) \<Longrightarrow>
    (upload_step D act plan n)\<^sup>*\<^sup>* (start_pool D n src) p \<Longrightarrow> joined p \<Longrightarrow> pool_error p = None \<Longrightarrow>
    finalize_upload D act (resp_upload_id plan) w2 = (Inr (), w3) \<Longrightarrow> uploads D n rq w (Inr (up_size rq)) (delivered p) w3"
| not_finalized: "prepare_upload D rq w = (Inr (act, plan, src), w1) \<Longrightarrow>
    (upload_step D act plan n)\<^sup>*\<^sup>* (start_pool D n src) p \<Longrightarrow> joined p \<Longrightarrow> pool_error p = None \<Longrightarrow>
    finalize_upload D act (resp_upload_id plan) w2 = (Inl e, w3) \<Longrightarrow> uploads D n rq w (Inl e) (delivered p) w3"

inductive_cases uploads_okE: "uploads D n rq w (Inr sz) js w'"

lemma wanted_stream:
  "wanted D missing k s = Inr all \<Longrightarrow> \<exists>cs t. stream_chunks D s = Inr (cs, t) \<and> (cs = [] \<or> k + length cs \<le> 2 ^ 32)
     \<and> all = map (\<lambda>j. (of_nat j, chunk_data (cs ! (j - k)))) (filter (\<lambda>j. of_nat j \<in> set missing) [k..<k + length cs])"
proof (induction D missing k s arbitrary: all rule: wanted.induct)
  case (1 D missing k s)
  note w = 1(2) [unfolded wanted.simps [of D missing k s]] and st = stream_chunks.simps [of D s]
  obtain r s' where r: "next_chunk D s = (r, s')" by (cases "next_chunk D s")
  show ?case
  proof (cases r)
    case None
    then show ?thesis using w st r by auto
  next
    case (Some x)
    then obtain c i rest where c: "x = Inr c" "u32_try_from k = Some i" "wanted D missing (k + 1) s' = Inr rest"
      "all = (if i \<in> set missing then (i, chunk_data c) # rest else rest)"
      using w r by (auto simp: ok_iff split: sum.splits option.splits)
    from 1(1) [OF r [symmetric] Some c(1,2,3)] obtain cs t where
      cs: "stream_chunks D s' = Inr (cs, t)" "cs = [] \<or> k + 1 + length cs \<le> 2 ^ 32"
      "rest = map (\<lambda>j. (of_nat j, chunk_data (cs ! (j - (k + 1))))) (filter (\<lambda>j. of_nat j \<in> set missing) [k + 1..<k + 1 + length cs])"
      by blast
    have i: "i = of_nat k" "k < 2 ^ 32" using c(2) by (auto simp: u32_try_from_def split: if_splits)
    have "map (\<lambda>j. (of_nat j, chunk_data (cs ! (j - (k + 1))))) (filter (\<lambda>j. of_nat j \<in> set missing) [k + 1..<k + 1 + length cs])
      = map (\<lambda>j. (of_nat j, chunk_data ((c # cs) ! (j - k)))) (filter (\<lambda>j. of_nat j \<in> set missing) [k + 1..<k + 1 + length cs])"
      by (rule map_cong) (auto simp: nth_Cons' Suc_diff_le)
    moreover have "[k..<k + length (c # cs)] = k # [k + 1..<k + 1 + length cs]" by (simp add: upt_rec)
    ultimately show ?thesis
      using st r Some c cs i by (intro exI [of _ "c # cs"] exI [of _ t]) auto
  qed
qed

lemma missing_jobs:
  assumes "distinct missing" "\<forall>i \<in> set missing. unat i < length cs" "cs = [] \<or> length cs \<le> 2 ^ 32"
  shows "mset (map (\<lambda>j. (of_nat j :: u32, chunk_data (cs ! j))) (filter (\<lambda>j. of_nat j \<in> set missing) [0..<length cs]))
    = mset (map (\<lambda>i. (i, chunk_data (cs ! unat i))) missing)" (is "mset ?l = mset ?r")
proof -
  have len: "j < length cs \<Longrightarrow> unat (of_nat j :: u32) = j" for j using assms(3) by (auto simp: unat_of_nat)
  have "inj_on (\<lambda>j. (of_nat j :: u32, chunk_data (cs ! j))) {0..<length cs}" by (rule inj_onI) (auto dest!: arg_cong [of _ _ unat] simp: len)
  then have d1: "distinct ?l" by (auto simp: distinct_map intro: inj_on_subset)
  have d2: "distinct ?r" using assms(1) by (auto simp: distinct_map intro: inj_onI)
  have "set ?l = set ?r"
  proof (intro set_eqI iffI)
    fix x assume "x \<in> set ?r"
    then obtain i where i: "i \<in> set missing" "x = (i, chunk_data (cs ! unat i))" by auto
    then have "x = (of_nat (unat i), chunk_data (cs ! unat i))" "unat i < length cs" using assms(2) by auto
    then show "x \<in> set ?l" using i by (auto intro: image_eqI [where x = "unat i"])
  qed (auto simp: len)
  then show ?thesis using set_eq_iff_mset_eq_distinct [OF d1 d2] by blast
qed

lemma begin_from_sources [keeps_intros]: "keeps (\<lambda>w. sources w = x) (begin_from D act rq n k)"
proof (induction k arbitrary: n)
  case (Suc k)
  have "keeps (\<lambda>w. sources w = x) (send D c)" "keeps (\<lambda>w. sources w = x) (sleep ms)" for c ms
    by (auto simp: keeps_def send_def sleep_def set_world_def split: prod.split)
  then show ?case by (auto intro!: keeps_intros Suc.IH split: sum.split)
qed (simp add: keeps_fail)

lemma open_source_ok [run_ok]:
  "open_source D msg w = (Inr src, w') \<longleftrightarrow> (\<exists>rest. sources w = Inr src # rest \<and> w' = w\<lparr>sources := rest\<rparr>)"
  by (auto simp: open_source_def split: list.splits sum.splits)

lemma prepare_ok:
  assumes "prepare_upload D rq w = (Inr (act, plan, src), w')"
  obtains src1 rest m wa wb where
    "up_action rq = Some act" "sources w = Inr src1 # Inr src # rest" "finish D (new_stream D src1 beta_v1) = Inr m"
    "object_oid m = up_oid rq" "object_size m = up_size rq"
    "begin_upload D act \<lparr>req_protocol_version = 1, req_manifest = m\<rparr> wa = (Inr plan, wb)"
    "\<forall>i \<in> set (missing_chunk_indexes plan). unat i < length (chunks m)" "distinct (missing_chunk_indexes plan)"
proof -
  from assms obtain m src1 rest wb where run:
    "up_action rq = Some act" "sources w = Inr src1 # rest" "finish D (new_stream D src1 beta_v1) = Inr m"
    "object_oid m = up_oid rq" "object_size m = up_size rq"
    "begin_upload D act \<lparr>req_protocol_version = 1, req_manifest = m\<rparr> (w\<lparr>sources := rest\<rparr>) = (Inr plan, wb)"
    "\<forall>i \<in> set (missing_chunk_indexes plan). unat i < length (chunks m)"
    "card (set (missing_chunk_indexes plan)) = length (missing_chunk_indexes plan)" "\<exists>r. sources wb = Inr src # r"
    by (auto simp: prepare_upload_def run_ok ok_iff action_of_def ok_or_def not_le split: option.splits)
  have "sources wb = rest" using keepsD [OF begin_from_sources _ run(6) [unfolded begin_upload_def], of rest] by simp
  then obtain rest' where "sources w = Inr src1 # Inr src # rest'" using run(2,9) by auto
  from that [OF run(1) this run(3,4,5,6,7) card_distinct [OF run(8)]] show thesis .
qed

text \<open>
  Claim C29: what a reported upload has done.  If \<open>upload\<close> returns success for a source that stayed the same, then the
  source has the announced identity and size, the server accepted its manifest and finalized that session, and exactly the chunks the
  server asked for were uploaded, each once and with the bytes the manifest describes, under every schedule of the workers.
\<close>

theorem upload_success:
  assumes run: "uploads D n rq w (Inr sz) js w'" and n: "0 < n"
    and content: "sources w = [Inr (Reader content None), Inr (Reader content None)]"
    and cdc: "cdc_ok D content" and len: "length content \<le> 100 * 1024 ^ 3"
  shows "sz = up_size rq \<and> sha256 D content = up_oid rq \<and> length content = unat (up_size rq)
    \<and> (\<exists>act plan m (cs :: chunk list) wa wb wc wd. up_action rq = Some act
        \<and> begin_upload D act \<lparr>req_protocol_version = 1, req_manifest = m\<rparr> wa = (Inr plan, wb)
        \<and> finalize_upload D act (resp_upload_id plan) wc = (Inr (), wd)
        \<and> concat (map chunk_data cs) = content \<and> map descriptor cs = chunks m
        \<and> mset js = mset (map (\<lambda>i. (i, chunk_data (cs ! unat i))) (missing_chunk_indexes plan))
        \<and> (\<forall>(i, b) \<in> set js. valid_chunk D b (chunks m ! unat i)))"
proof -
  let ?s = "new_stream D (Reader content None) beta_v1"
  from run obtain act plan src w1 p w2 w3 where r:
    "prepare_upload D rq w = (Inr (act, plan, src), w1)" "(upload_step D act plan n)\<^sup>*\<^sup>* (start_pool D n src) p" "joined p"
    "pool_error p = None" "finalize_upload D act (resp_upload_id plan) w2 = (Inr (), w3)" "js = delivered p" "sz = up_size rq"
    by (rule uploads_okE) blast
  obtain src1 rest m wa wb where prep:
    "up_action rq = Some act" "sources w = Inr src1 # Inr src # rest" "finish D (new_stream D src1 beta_v1) = Inr m"
    "object_oid m = up_oid rq" "object_size m = up_size rq"
    "begin_upload D act \<lparr>req_protocol_version = 1, req_manifest = m\<rparr> wa = (Inr plan, wb)"
    "\<forall>i \<in> set (missing_chunk_indexes plan). unat i < length (chunks m)" "distinct (missing_chunk_indexes plan)"
    by (rule prepare_ok [OF r(1)])
  have src: "src1 = Reader content None" "src = Reader content None" using prep(2) content by auto
  from source_manifest [OF cdc len] prep(3) src(1) obtain cs t where cs:
    "stream_chunks D ?s = Inr (cs, t)" "object_oid m = sha256 D content" "unat (object_size m) = length content"
    "concat (map chunk_data cs) = content" "map descriptor cs = chunks m"
    "\<forall>c \<in> set cs. cd_id (descriptor c) = blake3 D (chunk_data c) \<and> chunk_len (descriptor c) = length (chunk_data c)"
    by auto
  from joined_outcome [OF uploader.reachable_inv [OF r(2) upload_inv_start [OF n]] r(3)] r(4) src(2) obtain all where
    all: "wanted D (missing_chunk_indexes plan) 0 ?s = Inr all" "mset js = mset all"
    unfolding r(6) by auto
  have ln: "length cs = length (chunks m)" using cs(5) by (metis length_map)
  from wanted_stream [OF all(1)] cs(1) have "cs = [] \<or> length cs \<le> 2 ^ 32"
    "all = map (\<lambda>j. (of_nat j, chunk_data (cs ! j))) (filter (\<lambda>j. of_nat j \<in> set (missing_chunk_indexes plan)) [0..<length cs])"
    by auto
  with missing_jobs [OF prep(8), of cs] prep(7) all(2) ln
  have js: "mset js = mset (map (\<lambda>i. (i, chunk_data (cs ! unat i))) (missing_chunk_indexes plan))" by simp
  have valid: "\<forall>(i, b) \<in> set js. valid_chunk D b (chunks m ! unat i)"
  proof
    fix x assume "x \<in> set js"
    then obtain i where i: "i \<in> set (missing_chunk_indexes plan)" "x = (i, chunk_data (cs ! unat i))"
      using mset_eq_setD [OF js] by auto
    then have l: "unat i < length cs" using prep(7) ln by simp
    then have "chunks m ! unat i = descriptor (cs ! unat i)" using cs(5) by (metis nth_map)
    then show "case x of (i, b) \<Rightarrow> valid_chunk D b (chunks m ! unat i)" using i cs(6) nth_mem [OF l] by (simp add: valid_chunk_def)
  qed
  have "sz = up_size rq \<and> sha256 D content = up_oid rq \<and> length content = unat (up_size rq)"
    using r(7) cs(2,3) prep(4,5) by simp
  then show ?thesis using prep(1,6) r(5) cs(4,5) js valid by blast
qed

section \<open>Witnesses\<close>

definition demo_request :: upload_request where
  "demo_request = \<lparr>up_oid = digest_fill 9, up_size = 32, up_path = ''f'', up_action = Some demo_action\<rparr>"

definition demo_plan :: begin_upload_response where
  "demo_plan = \<lparr>resp_protocol_version = 1, resp_upload_id = 1, missing_chunk_indexes = [0], resp_expires_at = []\<rparr>"

definition demo_source :: reader where
  "demo_source = Reader (replicate 32 9) None"

lemma demo_stream: "inner (new_stream (client_over f) demo_source beta_v1) = [Inr \<lparr>cc_offset = 0, cc_length = 32, cc_data = replicate 32 9\<rparr>]"
  by (simp add: new_stream_def demo_source_def split: prod.split)

theorem upload_pool_correct_witness:
  "(\<nexists>p. (upload_step client_demo demo_action demo_plan 2 ^^ 10) (start_pool client_demo 2 demo_source) p)
   \<and> (\<exists>q. (upload_step client_demo demo_action demo_plan 2)\<^sup>*\<^sup>* (start_pool client_demo 2 demo_source) q \<and> joined q)"
  using upload_pool_correct [of 2 client_demo demo_action demo_plan demo_source] unfolding demo_stream by fastforce

text \<open>A run with one worker that uploads the only chunk.\<close>

definition demo_pool :: "producer \<Rightarrow> job list \<Rightarrow> (job, unit) worker \<Rightarrow> job list \<Rightarrow> upload_pool" where
  "demo_pool pr js x ds = \<lparr>stream = snd (next_chunk ref_core_deps (new_stream ref_core_deps demo_source beta_v1)), position = 1, producer = pr,
     producer_error = None, jobs = js, crew = [x], failures = [], delivered = ds\<rparr>"

lemma demo_stream_over: "new_stream (client_over f) s p = new_stream ref_core_deps s p"
  by (simp add: new_stream_def)

lemmas demo_pool_simps = demo_pool_def next_chunk_def u32_try_from_def Let_def demo_stream [unfolded demo_stream_over] demo_stream_over

lemma demo_upload_steps:
  fixes j defines "j \<equiv> (0 :: u32, replicate 32 9 :: bytes)"
  assumes put: "\<And>c. hc_method c = Put \<Longrightarrow> f c n = (Inr a, n')" "is_success (ha_status a)"
  shows "upload_step (client_over f) demo_action demo_plan 1 (start_pool (client_over f) 1 demo_source) (demo_pool (Sending j) [] Idle [])"
    and "upload_step (client_over f) demo_action demo_plan 1 (demo_pool (Sending j) [] Idle []) (demo_pool Checking [j] Idle [])"
    and "upload_step (client_over f) demo_action demo_plan 1 (demo_pool Checking [j] Idle []) (demo_pool Producing [j] Idle [])"
    and "upload_step (client_over f) demo_action demo_plan 1 (demo_pool Producing [j] Idle []) (demo_pool Producing [] (Busy j) [])"
    and "upload_step (client_over f) demo_action demo_plan 1 (demo_pool Producing [] (Busy j) []) (demo_pool Producing [] Idle [j])"
    and "upload_step (client_over f) demo_action demo_plan 1 (demo_pool Producing [] Idle [j]) (demo_pool Finished [] Idle [j])"
    and "upload_step (client_over f) demo_action demo_plan 1 (demo_pool Finished [] Idle [j]) (demo_pool Finished [] Gone [j])"
  using produces [of "start_pool (client_over f) 1 demo_source" "client_over f" demo_action demo_plan 1]
  subgoal by (simp add: demo_pool_simps produce_job_def start_pool_def demo_plan_def j_def)
  subgoal using sends [of "demo_pool (Sending j) [] Idle []" j 1] by (simp add: demo_pool_def all_gone_def)
  subgoal using checks [of "demo_pool Checking [j] Idle []"] by (simp add: demo_pool_def check_failures_def)
  subgoal using takes [of 0 "demo_pool Producing [j] Idle []" j "[]"] by (simp add: demo_pool_def)
  subgoal
  proof -
    have "upload_chunk_with_retry (client_over f) demo_action (resp_upload_id demo_plan) 0 (replicate 32 9) (demo_client n)
      = (Inr (), snd (upload_chunk_with_retry (client_over f) demo_action (resp_upload_id demo_plan) 0 (replicate 32 9) (demo_client n)))"
      using put
      by (simp add: upload_chunk_with_retry_def child_url_def andthen_def of_result_def numeral_3_eq_3 send_def demo_client_def ret_def authorized_def)
    from finishes [OF _ _ this, of 0 "demo_pool Producing [] (Busy j) []"] show ?thesis by (simp add: demo_pool_def finish_job_def j_def)
  qed
  subgoal using produces [of "demo_pool Producing [] Idle [j]" "client_over f" demo_action demo_plan 1]
    by (simp add: demo_pool_simps produce_job_def)
  subgoal using leaves [of 0 "demo_pool Finished [] Idle [j]"] by (simp add: demo_pool_def)
  done

definition demo_sender :: "'n \<Rightarrow> 'n client" where
  "demo_sender n = (demo_client n)\<lparr>sources := [Inr demo_source, Inr demo_source]\<rparr>"

lemma demo_finish: "finish (client_over f) (new_stream (client_over f) demo_source beta_v1) =
    Inr \<lparr>version = V1, profile = FastCdcV1, object_oid = digest_fill 9, object_size = 32,
      chunks = [\<lparr>cd_id = digest_fill 9, cd_offset = 0, cd_length = 32\<rparr>]\<rparr>"
proof -
  let ?s = "new_stream (client_over f) demo_source beta_v1"
  have "finish (client_over f) ?s = Inr (completed_manifest (client_over f) (?s\<lparr>inner := [], object_hasher := object_hasher ?s @ replicate 32 9,
      stream_object_size := stream_object_size ?s + 32, descriptors := descriptors ?s @ [\<lparr>cd_id = digest_fill 9, cd_offset = 0, cd_length = 32\<rparr>]\<rparr>))"
    using stream_chunks_all [of ?s "[\<lparr>cc_offset = 0, cc_length = 32, cc_data = replicate 32 9\<rparr>]" "client_over f"]
    by (simp add: finish_def demo_stream describe_def)
  then show ?thesis
    by (simp add: completed_manifest_def new_stream_def beta_v1_def ref_digest_deps_def digest_fill_def split: prod.split)
qed

lemma demo_prepare:
  assumes "\<And>c. hc_method c = Post \<Longrightarrow> hc_body c \<noteq> NoBody \<Longrightarrow> f c n = (Inr (demo_answer 200 [0]), n')"
  shows "prepare_upload (client_over f) demo_request (demo_sender n)
    = (Inr (demo_action, demo_plan, demo_source), snd (prepare_upload (client_over f) demo_request (demo_sender n)))"
  using assms
  by (simp add: prepare_upload_def action_of_def ok_or_def demo_request_def open_source_def demo_sender_def demo_client_def demo_finish guard_err_def
      andthen_def of_result_def ret_def begin_upload_def numeral_3_eq_3 send_def demo_answer_def is_success_def demo_plan_def authorized_def)

text \<open>The run over a network that accepts the plan, the chunk and, in state \<open>n2\<close>, the finalization.\<close>

lemma demo_uploads_over:
  assumes plan: "\<And>c. hc_method c = Post \<Longrightarrow> hc_body c \<noteq> NoBody \<Longrightarrow> f c n = (Inr (demo_answer 200 [0]), n')"
    and put: "\<And>c. hc_method c = Put \<Longrightarrow> f c n1 = (Inr a, n1')" "is_success (ha_status a)"
    and fin: "\<And>c. hc_method c = Post \<Longrightarrow> hc_body c = NoBody \<Longrightarrow> f c n2 = (Inr a', n3)" "is_success (ha_status a')"
  shows "\<exists>w'. uploads (client_over f) 1 demo_request (demo_sender n) (Inr 32) [(0, replicate 32 9)] w' \<and> net w' = n3"
proof -
  let ?D = "client_over f" and ?j = "(0 :: u32, replicate 32 9 :: bytes)"
  have steps: "(upload_step ?D demo_action demo_plan 1)\<^sup>*\<^sup>* (start_pool ?D 1 demo_source) (demo_pool Finished [] Gone [?j])"
    by (meson demo_upload_steps [where f = f and n = n1 and a = a and n' = n1', OF put] r_into_rtranclp rtranclp_trans)
  have "\<exists>w'. finalize_upload ?D demo_action (resp_upload_id demo_plan) (demo_client n2) = (Inr (), w') \<and> net w' = n3"
    using fin by (simp add: finalize_upload_def child_url_def andthen_def of_result_def numeral_3_eq_3 send_def demo_client_def ret_def authorized_def)
  then obtain w' where w': "finalize_upload ?D demo_action (resp_upload_id demo_plan) (demo_client n2) = (Inr (), w')" "net w' = n3" by blast
  from finalized [OF demo_prepare [where f = f and n = n and n' = n', OF plan] steps _ _ w'(1)] w'(2) show ?thesis
    by (auto simp: demo_pool_def joined_def all_gone_def pool_error_def demo_request_def)
qed

lemma demo_uploads: "\<exists>w'. uploads client_demo 1 demo_request (demo_sender [Inr (demo_answer 200 [0])]) (Inr 32) [(0, replicate 32 9)] w'"
  using demo_uploads_over [of scripted "[Inr (demo_answer 200 [0])]" "[]" "[Inr (demo_answer 204 [])]" "demo_answer 204 []" "[]"
      "[Inr (demo_answer 204 [])]" "demo_answer 204 []" "[]"]
  by (auto simp: scripted_def demo_answer_def is_success_def)

theorem upload_success_witness:
  "(\<exists>w'. uploads client_demo 1 demo_request (demo_sender [Inr (demo_answer 200 [0])]) (Inr 32) [(0, replicate 32 9)] w')
   \<and> sha256 client_demo (replicate 32 9) = up_oid demo_request \<and> length (replicate 32 (9 :: byte)) = unat (up_size demo_request)"
proof -
  have "cdc_ok client_demo (replicate 32 9)" using cdc_ok_ref [of "replicate 32 9"] by (simp add: cdc_ok_def)
  then show ?thesis
    using demo_uploads upload_success [where D = client_demo and n = 1 and rq = demo_request and w = "demo_sender [Inr (demo_answer 200 [0])]"
        and content = "replicate 32 9"]
    by (fastforce simp: demo_sender_def demo_source_def)
qed

end
