(* ===== verification/DownloadPool.thy ===== *)
theory DownloadPool
  imports Pool Client "HOL-Library.AList"
begin

text \<open>
  \<open>HttpBackend::download\<close> of \<open>crates/git-lfs-delta-client/src/backend.rs\<close>: the manifest request, the scope in which \<open>chunk_concurrency\<close>
  workers fetch chunks out of order while the coordinator writes them in order, and the final checks.  Both channels
  are bounded; the receiving end of the result channel outlives the scope, so a worker that reports after a failure
  must find room.  The theorems show that this never blocks, that every schedule ends, that the reconstructed file is the
  in-order concatenation of verified chunks, and what a reported download guarantees.
\<close>

section \<open>The pool\<close>

type_synonym fetch_job = "nat \<times> chunk_descriptor"
type_synonym fetch_result = "nat \<times> (backend_error + bytes)"

text \<open>The program points of the coordinator: the first loop, \<open>recv\<close>, the inner loop, its \<open>send\<close>, and the end of the closure.\<close>

datatype coordinator = Filling | Receiving | Writing | Refilling | Ended "backend_error option"

record download_pool =
  next_scheduled :: nat
  next_write :: nat
  coordinator :: coordinator
  pending :: "(nat \<times> bytes) list"
  hashed :: bytes
  temporary :: bytes
  work :: "fetch_job list"
  results :: "fetch_result list"
  fetchers :: "(fetch_job, fetch_result) worker list"

definition start_download :: "nat \<Rightarrow> download_pool" where
  "start_download concurrency = \<lparr>next_scheduled = 0, next_write = 0, coordinator = Filling, pending = [], hashed = [], temporary = [],
     work = [], results = [], fetchers = replicate concurrency Idle\<rparr>"

definition download_stopped :: backend_error where
  "download_stopped = failure ''chunk download worker stopped''"

text \<open>A send that finds room.\<close>

definition schedule :: "chunk_descriptor list \<Rightarrow> download_pool \<Rightarrow> download_pool" where
  "schedule cs p = p\<lparr>work := work p @ [(next_scheduled p, cs ! next_scheduled p)], next_scheduled := next_scheduled p + 1\<rparr>"

definition receive :: "fetch_result \<Rightarrow> download_pool \<Rightarrow> download_pool" where
  "receive x p = (case snd x of
       Inl e \<Rightarrow> p\<lparr>coordinator := Ended (Some e)\<rparr>
     | Inr bytes \<Rightarrow> p\<lparr>pending := AList.update (fst x) bytes (pending p), coordinator := Writing\<rparr>)"

definition write_next :: "chunk_descriptor list \<Rightarrow> bytes \<Rightarrow> download_pool \<Rightarrow> download_pool" where
  "write_next cs bytes p = p\<lparr>pending := AList.delete (next_write p) (pending p), hashed := hashed p @ bytes,
     temporary := temporary p @ bytes, next_write := next_write p + 1,
     coordinator := (if next_scheduled p < length cs then Refilling else Writing)\<rparr>"

definition write_failed :: "string \<Rightarrow> backend_error" where
  "write_failed e = failure (''could not reconstruct download: '' @ e)"

inductive download_step ::
  "'n client_deps \<Rightarrow> transfer_action \<Rightarrow> chunk_descriptor list \<Rightarrow> nat \<Rightarrow> download_pool \<Rightarrow> download_pool \<Rightarrow> bool"
  for D :: "'n client_deps" and act :: transfer_action and cs :: "chunk_descriptor list" and n :: nat where
  fills: "coordinator p = Filling \<Longrightarrow> next_scheduled p < length cs \<Longrightarrow> next_scheduled p < n \<Longrightarrow>
    length (work p) < n \<Longrightarrow> \<not> all_gone (fetchers p) \<Longrightarrow> download_step D act cs n p (schedule cs p)"
| cannot_fill: "coordinator p = Filling \<Longrightarrow> next_scheduled p < length cs \<Longrightarrow> next_scheduled p < n \<Longrightarrow>
    all_gone (fetchers p) \<Longrightarrow> download_step D act cs n p (p\<lparr>coordinator := Ended (Some download_stopped)\<rparr>)"
| filled: "coordinator p = Filling \<Longrightarrow> \<not> (next_scheduled p < length cs \<and> next_scheduled p < n) \<Longrightarrow>
    download_step D act cs n p (p\<lparr>coordinator := Receiving\<rparr>)"
| receives: "coordinator p = Receiving \<Longrightarrow> next_write p < length cs \<Longrightarrow> results p = x # rest \<Longrightarrow>
    download_step D act cs n p (receive x (p\<lparr>results := rest\<rparr>))"
| cannot_receive: "coordinator p = Receiving \<Longrightarrow> next_write p < length cs \<Longrightarrow> results p = [] \<Longrightarrow> all_gone (fetchers p) \<Longrightarrow>
    download_step D act cs n p (p\<lparr>coordinator := Ended (Some download_stopped)\<rparr>)"
| completed: "coordinator p = Receiving \<Longrightarrow> \<not> next_write p < length cs \<Longrightarrow>
    download_step D act cs n p (p\<lparr>coordinator := Ended None\<rparr>)"
| writes: "coordinator p = Writing \<Longrightarrow> map_of (pending p) (next_write p) = Some bytes \<Longrightarrow>
    download_step D act cs n p (write_next cs bytes p)"
| cannot_write: "coordinator p = Writing \<Longrightarrow> map_of (pending p) (next_write p) = Some bytes \<Longrightarrow>
    download_step D act cs n p (p\<lparr>pending := AList.delete (next_write p) (pending p), hashed := hashed p @ bytes,
      coordinator := Ended (Some (write_failed e))\<rparr>)"
| drained: "coordinator p = Writing \<Longrightarrow> map_of (pending p) (next_write p) = None \<Longrightarrow>
    download_step D act cs n p (p\<lparr>coordinator := Receiving\<rparr>)"
| refills: "coordinator p = Refilling \<Longrightarrow> length (work p) < n \<Longrightarrow> \<not> all_gone (fetchers p) \<Longrightarrow>
    download_step D act cs n p ((schedule cs p)\<lparr>coordinator := Writing\<rparr>)"
| cannot_refill: "coordinator p = Refilling \<Longrightarrow> all_gone (fetchers p) \<Longrightarrow>
    download_step D act cs n p (p\<lparr>coordinator := Ended (Some download_stopped)\<rparr>)"
| takes: "i < length (fetchers p) \<Longrightarrow> fetchers p ! i = Idle \<Longrightarrow> work p = job # rest \<Longrightarrow>
    download_step D act cs n p (p\<lparr>work := rest, fetchers := (fetchers p)[i := Busy job]\<rparr>)"
| fetches: "i < length (fetchers p) \<Longrightarrow> fetchers p ! i = Busy (index, d) \<Longrightarrow> read_or_fetch_chunk D act index d w = (r, w') \<Longrightarrow>
    download_step D act cs n p (p\<lparr>fetchers := (fetchers p)[i := Reporting (index, r)]\<rparr>)"
| reports: "i < length (fetchers p) \<Longrightarrow> fetchers p ! i = Reporting x \<Longrightarrow> length (results p) < n \<Longrightarrow>
    download_step D act cs n p (p\<lparr>results := results p @ [x], fetchers := (fetchers p)[i := Idle]\<rparr>)"
| leaves: "i < length (fetchers p) \<Longrightarrow> fetchers p ! i = Idle \<Longrightarrow> work p = [] \<Longrightarrow> coordinator p = Ended x \<Longrightarrow>
    download_step D act cs n p (p\<lparr>fetchers := (fetchers p)[i := Gone]\<rparr>)"

definition download_joined :: "download_pool \<Rightarrow> bool" where
  "download_joined p \<longleftrightarrow> (\<exists>x. coordinator p = Ended x) \<and> all_gone (fetchers p)"

section \<open>The invariant\<close>

text \<open>The indexes that are scheduled and not yet received.\<close>

fun occupied :: "(fetch_job, fetch_result) worker \<Rightarrow> nat multiset" where
  "occupied (Busy j) = {#fst j#}"
| "occupied (Reporting x) = {#fst x#}"
| "occupied _ = {#}"

definition outstanding :: "download_pool \<Rightarrow> nat multiset" where
  "outstanding p = mset (map fst (work p)) + sum_list (map occupied (fetchers p)) + mset (map fst (results p))"

text \<open>Every scheduled index is in exactly one place until an error ends the coordinator.\<close>

definition placed :: "download_pool \<Rightarrow> bool" where
  "placed p \<longleftrightarrow> mset [0..<next_scheduled p] = mset [0..<next_write p] + mset (map fst (pending p)) + outstanding p"

text \<open>How far scheduling may run ahead of writing.\<close>

fun window :: "nat \<Rightarrow> nat \<Rightarrow> download_pool \<Rightarrow> coordinator \<Rightarrow> bool" where
  "window m n p Filling = (next_write p = 0 \<and> pending p = [] \<and> next_scheduled p \<le> m \<and> next_scheduled p \<le> n)"
| "window m n p Receiving = (next_scheduled p = min m (next_write p + n) \<and> next_write p \<notin> fst ` set (pending p))"
| "window m n p Writing = (next_scheduled p = min m (next_write p + n))"
| "window m n p Refilling = (next_scheduled p < m \<and> next_scheduled p + 1 = next_write p + n)"
| "window m n p (Ended x) = (x = None \<longrightarrow> next_write p = m)"

text \<open>The flow part of the invariant: where the indexes are and how many are under way.\<close>

definition flows :: "nat \<Rightarrow> nat \<Rightarrow> download_pool \<Rightarrow> bool" where
  "flows m n p \<longleftrightarrow> ((\<exists>e. coordinator p = Ended (Some e)) \<or> placed p) \<and> size (outstanding p) \<le> n \<and> window m n p (coordinator p)"

definition fetch_failed :: "'n client_deps \<Rightarrow> transfer_action \<Rightarrow> backend_error \<Rightarrow> bool" where
  "fetch_failed D act e \<longleftrightarrow> (\<exists>i d w w'. read_or_fetch_chunk D act i d w = (Inl e, w'))"

text \<open>What may travel in the channels.\<close>

definition good_result :: "'n client_deps \<Rightarrow> transfer_action \<Rightarrow> chunk_descriptor list \<Rightarrow> fetch_result \<Rightarrow> bool" where
  "good_result D act cs x \<longleftrightarrow> (case snd x of Inl e \<Rightarrow> fetch_failed D act e | Inr b \<Rightarrow> valid_chunk D b (cs ! fst x))"

fun good_worker :: "'n client_deps \<Rightarrow> transfer_action \<Rightarrow> chunk_descriptor list \<Rightarrow> (fetch_job, fetch_result) worker \<Rightarrow> bool" where
  "good_worker D act cs (Busy j) = (snd j = cs ! fst j)"
| "good_worker D act cs (Reporting x) = good_result D act cs x"
| "good_worker D act cs _ = True"

definition sound :: "'n client_deps \<Rightarrow> transfer_action \<Rightarrow> chunk_descriptor list \<Rightarrow> download_pool \<Rightarrow> bool" where
  "sound D act cs p \<longleftrightarrow> (\<forall>j \<in> set (work p). snd j = cs ! fst j) \<and> (\<forall>x \<in> set (fetchers p). good_worker D act cs x)
     \<and> (\<forall>x \<in> set (results p). good_result D act cs x) \<and> (\<forall>(i, b) \<in> set (pending p). valid_chunk D b (cs ! i))
     \<and> (\<exists>bs. length bs = next_write p \<and> temporary p = concat bs \<and> (\<forall>j < length bs. valid_chunk D (bs ! j) (cs ! j)))
     \<and> ((\<exists>e. coordinator p = Ended (Some e)) \<or> hashed p = temporary p)
     \<and> (\<forall>e. coordinator p = Ended (Some e) \<longrightarrow> fetch_failed D act e \<or> (\<exists>s. e = write_failed s))"

definition download_inv :: "'n client_deps \<Rightarrow> transfer_action \<Rightarrow> chunk_descriptor list \<Rightarrow> nat \<Rightarrow> download_pool \<Rightarrow> bool" where
  "download_inv D act cs n p \<longleftrightarrow> 0 < n \<and> length (fetchers p) = n
     \<and> (Gone \<in> set (fetchers p) \<longrightarrow> (\<exists>x. coordinator p = Ended x))
     \<and> flows (length cs) n p \<and> sound D act cs p"

section \<open>Bookkeeping\<close>

lemma occupied_update:
  "i < length ws \<Longrightarrow> sum_list (map occupied (ws[i := x])) + occupied (ws ! i) = sum_list (map occupied ws) + occupied x"
  by (rule sum_list_update_mset)

lemma occupied_moves:
  assumes "i < length ws" "occupied (ws ! i) = {#}"
  shows "sum_list (map occupied (ws[i := x])) = sum_list (map occupied ws) + occupied x"
  using occupied_update [OF assms(1), of x] assms(2) by simp

text \<open>Only scheduling adds and only receiving removes.\<close>

lemma outstanding_schedule [simp]: "outstanding (schedule cs p) = add_mset (next_scheduled p) (outstanding p)"
  by (simp add: outstanding_def schedule_def)

lemma outstanding_receive: "results p = x # rest \<Longrightarrow> outstanding p = add_mset (fst x) (outstanding (receive x (p\<lparr>results := rest\<rparr>)))"
  by (auto simp: outstanding_def receive_def split: sum.split)

lemma outstanding_worker:
  assumes "i < length (fetchers p)"
  shows "fetchers p ! i = Idle \<Longrightarrow> work p = job # rest \<Longrightarrow> outstanding (p\<lparr>work := rest, fetchers := (fetchers p)[i := Busy job]\<rparr>) = outstanding p"
    and "fetchers p ! i = Busy (k, d) \<Longrightarrow> outstanding (p\<lparr>fetchers := (fetchers p)[i := Reporting (k, r)]\<rparr>) = outstanding p"
    and "fetchers p ! i = Reporting y \<Longrightarrow> outstanding (p\<lparr>results := results p @ [y], fetchers := (fetchers p)[i := Idle]\<rparr>) = outstanding p"
    and "fetchers p ! i = Idle \<Longrightarrow> outstanding (p\<lparr>fetchers := (fetchers p)[i := Gone]\<rparr>) = outstanding p"
  using occupied_update [OF assms, of "Busy job"] occupied_update [OF assms, of "Reporting (k, r)"]
    occupied_update [OF assms, of Idle] occupied_update [OF assms, of Gone]
  by (simp_all add: outstanding_def)

lemma outstanding_coordinator [simp]:
  "outstanding (p\<lparr>coordinator := c\<rparr>) = outstanding p" "outstanding (write_next cs b p) = outstanding p"
  "outstanding (p\<lparr>pending := l, hashed := h\<rparr>) = outstanding p"
  by (simp_all add: outstanding_def write_next_def)

lemma placed_coordinator [simp]: "placed (p\<lparr>coordinator := c\<rparr>) \<longleftrightarrow> placed p"
  by (simp add: placed_def)

lemma placed_size: "placed p \<Longrightarrow> next_scheduled p = next_write p + length (pending p) + size (outstanding p)"
  by (drule placed_def [THEN iffD1, THEN arg_cong [where f = size]]) simp

lemma placed_once: "placed p \<Longrightarrow> count (mset [0..<next_write p] + mset (map fst (pending p)) + outstanding p) i \<le> 1"
  unfolding placed_def by (metis distinct_count_atmost_1 distinct_upt less_or_eq_imp_le order_refl zero_le_one)

lemma placed_receive:
  assumes "placed p" "results p = x # rest" "snd x = Inr b"
  shows "placed (receive x (p\<lparr>results := rest\<rparr>))"
proof -
  have "count (mset (map fst (pending p))) (fst x) = 0"
    using placed_once [OF assms(1), of "fst x"] outstanding_receive [OF assms(2)] by simp
  then have "fst x \<notin> set (map fst (pending p))" by (metis count_mset_0_iff)
  then have "map fst (AList.update (fst x) b (pending p)) = map fst (pending p) @ [fst x]" by (simp add: update_keys)
  then show ?thesis
    using assms outstanding_receive [OF assms(2)] unfolding placed_def by (simp add: receive_def)
qed

lemma mset_delete:
  "distinct (map fst al) \<Longrightarrow> k \<in> fst ` set al \<Longrightarrow> mset (map fst al) = add_mset k (mset (map fst (AList.delete k al)))"
  by (induction al) (auto simp: delete_id image_iff)

lemma placed_write:
  assumes "placed p" "map_of (pending p) (next_write p) = Some b"
  shows "placed (write_next cs b p)"
proof -
  have "count (mset (map fst (pending p))) i \<le> 1" for i using placed_once [OF assms(1), of i] by simp
  then have "distinct (map fst (pending p))"
    by (metis count_mset_0_iff distinct_count_atmost_1 le_antisym less_one linorder_not_less)
  moreover have "next_write p \<in> fst ` set (pending p)" using map_of_SomeD [OF assms(2)] by force
  ultimately have "mset (map fst (pending p)) = add_mset (next_write p) (mset (map fst (AList.delete (next_write p) (pending p))))"
    by (rule mset_delete)
  then show ?thesis using assms(1) by (simp add: placed_def write_next_def outstanding_def)
qed

lemma placed_schedule: "placed p \<Longrightarrow> placed (schedule cs p)"
  by (simp add: placed_def outstanding_schedule del: mset_upt) (simp add: schedule_def del: mset_upt)

lemma flows_frame:
  assumes "flows m n p" "next_scheduled q = next_scheduled p" "next_write q = next_write p" "coordinator q = coordinator p"
    "pending q = pending p" "outstanding q = outstanding p"
  shows "flows m n q"
  using assms by (cases "coordinator p") (auto simp: flows_def placed_def)

lemma download_step_flows:
  assumes "download_step D act cs n p q" "flows (length cs) n p"
  shows "flows (length cs) n q"
  using assms
proof (induction rule: download_step.induct)
  case (fills p)
  then show ?case using placed_schedule [of p cs] placed_size [of p] by (simp add: flows_def) (simp add: schedule_def)
next
  case (receives p x rest)
  then show ?case
    using placed_receive [OF _ receives(3)] outstanding_receive [OF receives(3)]
    by (cases "snd x") (simp_all add: flows_def, simp_all add: receive_def)
next
  case (completed p)
  then have "placed p" "window (length cs) n p Receiving" by (simp_all add: flows_def)
  then show ?case using completed placed_size [of p] by (simp add: flows_def)
next
  case (writes p bytes)
  then show ?case using placed_write [OF _ writes(2)] by (auto simp: flows_def) (auto simp: write_next_def)
next
  case (drained p)
  then show ?case by (auto simp: flows_def placed_def map_of_eq_None_iff)
next
  case (refills p)
  have "placed ((schedule cs p)\<lparr>coordinator := Writing\<rparr>)" using refills placed_schedule [of p cs] by (simp add: flows_def placed_def)
  then show ?case using refills placed_size [of p] by (simp add: flows_def) (simp add: schedule_def)
next
  case (takes i p job rest)
  then show ?case by (intro flows_frame [OF takes(4)]) (simp_all add: outstanding_worker)
next
  case (fetches i p index d w r w')
  then show ?case by (intro flows_frame [OF fetches(4)]) (simp_all add: outstanding_worker)
next
  case (reports i p x)
  then show ?case by (intro flows_frame [OF reports(4)]) (simp_all add: outstanding_worker)
next
  case (leaves i p x)
  then show ?case by (intro flows_frame [OF leaves(5)]) (simp_all add: outstanding_worker)
qed (auto simp: flows_def placed_def)

lemma download_step_fetchers:
  "download_step D act cs n p q \<Longrightarrow> length (fetchers q) = length (fetchers p)"
  by (induction rule: download_step.induct) (auto simp: schedule_def receive_def write_next_def split: sum.split)

lemma download_step_gone:
  assumes "download_step D act cs n p q" "Gone \<in> set (fetchers p) \<longrightarrow> (\<exists>x. coordinator p = Ended x)"
  shows "Gone \<in> set (fetchers q) \<longrightarrow> (\<exists>x. coordinator q = Ended x)"
  using assms
  by (induction rule: download_step.induct) (auto simp: schedule_def receive_def write_next_def split: sum.split dest!: in_set_update)

section \<open>Soundness of the data\<close>

text \<open>Nobody stops before the coordinator.\<close>

lemma not_all_gone:
  assumes "Gone \<in> set (fetchers p) \<longrightarrow> (\<exists>x. coordinator p = Ended x)" "0 < length (fetchers p)" "\<nexists>x. coordinator p = Ended x"
  shows "\<not> all_gone (fetchers p)"
  using assms by (cases "fetchers p") (auto simp: all_gone_def)

lemma set_delete: "x \<in> set (AList.delete k al) \<Longrightarrow> x \<in> set al"
  by (auto simp: AList.delete_eq)

lemma set_update_alist: "x \<in> set (AList.update k v al) \<Longrightarrow> x = (k, v) \<or> x \<in> set al"
  by (induction al) (auto split: if_splits)

lemma sound_write:
  assumes "sound D act cs p" "map_of (pending p) (next_write p) = Some b" "\<nexists>x. coordinator p = Ended x"
  shows "sound D act cs (write_next cs b p)"
proof -
  from assms(1) obtain bs where bs: "length bs = next_write p" "temporary p = concat bs" "\<forall>j < length bs. valid_chunk D (bs ! j) (cs ! j)"
    unfolding sound_def by blast
  have "valid_chunk D b (cs ! next_write p)" using assms(1) map_of_SomeD [OF assms(2)] unfolding sound_def by blast
  then have "\<exists>bs'. length bs' = next_write p + 1 \<and> temporary p @ b = concat bs' \<and> (\<forall>j < length bs'. valid_chunk D (bs' ! j) (cs ! j))"
    using bs by (intro exI [of _ "bs @ [b]"]) (auto simp: nth_append less_Suc_eq)
  then show ?thesis using assms(1,3) unfolding sound_def write_next_def by (auto dest: set_delete)
qed

lemma sound_receive:
  assumes "sound D act cs p" "results p = x # rest" "\<nexists>y. coordinator p = Ended y"
  shows "sound D act cs (receive x (p\<lparr>results := rest\<rparr>))"
proof -
  have x: "good_result D act cs x" using assms(1,2) by (simp add: sound_def)
  show ?thesis
  proof (cases "snd x")
    case (Inl e)
    then show ?thesis using assms x by (auto simp: sound_def receive_def good_result_def)
  next
    case (Inr b)
    then have "valid_chunk D b (cs ! fst x)" using x by (simp add: good_result_def)
    then have "\<forall>(i, c) \<in> set (AList.update (fst x) b (pending p)). valid_chunk D c (cs ! i)"
      using assms(1) by (auto simp: sound_def dest!: set_update_alist)
    then show ?thesis using assms Inr by (auto simp: sound_def receive_def)
  qed
qed

lemma good_fetch:
  assumes "good_worker D act cs (Busy (i, d))" "read_or_fetch_chunk D act i d w = (r, w')"
  shows "good_result D act cs (i, r)"
  using assms read_or_fetch_run [OF assms(2)] by (cases r) (auto simp: good_result_def fetch_failed_def)

lemma sound_worker: "sound D act cs p \<Longrightarrow> i < length (fetchers p) \<Longrightarrow> good_worker D act cs (fetchers p ! i)"
  unfolding sound_def using nth_mem by blast

lemma download_step_sound:
  assumes "download_step D act cs n p q" "sound D act cs p" "Gone \<in> set (fetchers p) \<longrightarrow> (\<exists>x. coordinator p = Ended x)" "0 < length (fetchers p)"
  shows "sound D act cs q"
  using assms
proof (induction rule: download_step.induct)
  case (receives p x rest)
  then show ?case by (intro sound_receive) auto
next
  case (writes p bytes)
  then show ?case by (intro sound_write) auto
next
  case (fetches i p index d w r w')
  then have "good_worker D act cs (Busy (index, d))" using sound_worker [of D act cs p i] by simp
  then have "good_result D act cs (index, r)" by (rule good_fetch [OF _ fetches(3)])
  then show ?case using fetches(4) by (auto simp: sound_def dest!: in_set_update)
next
  case (reports i p x)
  then have "good_worker D act cs (Reporting x)" using sound_worker [of D act cs p i] by simp
  then show ?case using reports(4) by (auto simp: sound_def dest!: in_set_update)
next
  case (takes i p job rest)
  then show ?case by (auto simp: sound_def dest!: in_set_update)
next
  case (leaves i p x)
  then show ?case by (auto simp: sound_def dest!: in_set_update)
next
  case (cannot_write p bytes e)
  then show ?case by (auto simp: sound_def dest: set_delete)
next
  case (cannot_fill p)
  then show ?case using not_all_gone [of p] by simp
next
  case (cannot_receive p)
  then show ?case using not_all_gone [of p] by simp
next
  case (cannot_refill p)
  then show ?case using not_all_gone [of p] by simp
qed (auto simp: sound_def schedule_def)

section \<open>Every schedule ends\<close>

fun fetcher_weight :: "(fetch_job, fetch_result) worker \<Rightarrow> nat" where
  "fetcher_weight Idle = 1"
| "fetcher_weight (Busy _) = 6"
| "fetcher_weight (Reporting _) = 5"
| "fetcher_weight Gone = 0"

fun coordinator_weight :: "coordinator \<Rightarrow> nat" where
  "coordinator_weight Filling = 2"
| "coordinator_weight Receiving = 1"
| "coordinator_weight Writing = 2"
| "coordinator_weight Refilling = 2"
| "coordinator_weight (Ended _) = 0"

definition download_weight :: "chunk_descriptor list \<Rightarrow> download_pool \<Rightarrow> nat" where
  "download_weight cs p = 7 * (length cs - next_scheduled p) + coordinator_weight (coordinator p) + length (pending p)
     + 6 * length (work p) + 3 * length (results p) + sum_list (map fetcher_weight (fetchers p))"

lemma fetcher_weight_update:
  "i < length ws \<Longrightarrow> sum_list (map fetcher_weight (ws[i := x])) + fetcher_weight (ws ! i) = sum_list (map fetcher_weight ws) + fetcher_weight x"
  by (rule sum_list_update_nat)

lemma length_update_alist: "length (AList.update k v al) \<le> Suc (length al)"
  by (induction al) auto

lemma length_delete_alist: "map_of al k = Some v \<Longrightarrow> length (AList.delete k al) < length al"
  by (auto simp: AList.delete_eq dest!: map_of_SomeD intro: length_filter_less)

lemma length_delete_alist_le: "length (AList.delete k al) \<le> length al"
  by (simp add: AList.delete_eq)

lemma download_step_decreases:
  assumes "download_step D act cs n p q" "window (length cs) n p (coordinator p)"
  shows "download_weight cs q < download_weight cs p"
  using assms
proof (induction rule: download_step.induct)
  case (receives p x rest)
  then show ?case
    using length_update_alist [of "fst x" "projr (snd x)" "pending p"]
    by (cases "snd x") (auto simp: download_weight_def receive_def)
next
  case (writes p bytes)
  then show ?case using length_delete_alist [OF writes(2)] by (auto simp: download_weight_def write_next_def)
next
  case (cannot_write p bytes e)
  then show ?case using length_delete_alist [OF cannot_write(2)] by (auto simp: download_weight_def)
next
  case (takes i p job rest)
  then show ?case using fetcher_weight_update [of i "fetchers p" "Busy job"] by (simp add: download_weight_def)
next
  case (fetches i p index d w r w')
  then show ?case using fetcher_weight_update [of i "fetchers p" "Reporting (index, r)"] by (simp add: download_weight_def)
next
  case (reports i p x)
  then show ?case using fetcher_weight_update [of i "fetchers p" Idle] by (simp add: download_weight_def)
next
  case (leaves i p x)
  then show ?case using fetcher_weight_update [of i "fetchers p" Gone] by (simp add: download_weight_def)
qed (auto simp: download_weight_def schedule_def)

lemma outstanding_empty:
  assumes "placed p" "coordinator p = Receiving" "window m n p (coordinator p)" "next_write p < m" "0 < n"
  shows "outstanding p \<noteq> {#}"
proof
  assume "outstanding p = {#}"
  then have s: "set [0..<next_scheduled p] = set [0..<next_write p] \<union> fst ` set (pending p)"
    using assms(1) [unfolded placed_def, THEN arg_cong [where f = set_mset]] by simp
  have "next_write p < next_scheduled p" using assms by simp
  then have "next_write p \<in> set [0..<next_scheduled p]" by simp
  then show False using assms(2,3) unfolding s by auto
qed

lemma reporting_room:
  assumes "size (outstanding p) \<le> n" "i < length (fetchers p)" "fetchers p ! i = Reporting x"
  shows "length (results p) < n"
proof -
  have "sum_list (map occupied (fetchers p)) = add_mset (fst x) (sum_list (map occupied ((fetchers p)[i := Idle])))"
    using occupied_update [OF assms(2), of Idle] assms(3) by simp
  then show ?thesis using assms(1) by (simp add: outstanding_def)
qed

lemma coordinator_moves:
  assumes p: "work p = []" "\<not> all_gone (fetchers p)" "0 < n" "\<nexists>x. coordinator p = Ended x"
    and r: "coordinator p = Receiving \<Longrightarrow> next_write p < length cs \<Longrightarrow> results p \<noteq> []"
  shows "\<exists>q. download_step D act cs n p q"
proof (cases "coordinator p")
  case Filling
  show ?thesis
  proof (cases "next_scheduled p < length cs \<and> next_scheduled p < n")
    case True
    then show ?thesis using fills [OF Filling _ _ _ p(2), of cs n D act] p(1,3) by auto
  next
    case False
    then show ?thesis using filled [OF Filling, of cs n D act] by blast
  qed
next
  case Receiving
  show ?thesis
  proof (cases "next_write p < length cs")
    case True
    then obtain x rest where "results p = x # rest" using r [OF Receiving] by (cases "results p") auto
    then show ?thesis using receives [OF Receiving True, of x rest D act n] by blast
  next
    case False
    then show ?thesis using completed [OF Receiving, of cs D act n] by blast
  qed
next
  case Writing
  then show ?thesis using writes [OF Writing, of _ D act cs n] drained [OF Writing, of D act cs n] by blast
next
  case Refilling
  then show ?thesis using refills [OF Refilling _ p(2), of n D act cs] p(1,3) by auto
qed (use p(4) in blast)

lemma download_progress:
  assumes inv: "download_inv D act cs n p" and "\<not> download_joined p"
  shows "\<exists>q. download_step D act cs n p q"
proof -
  note i = inv [unfolded download_inv_def flows_def]
  have busy: ?thesis if b: "k < length (fetchers p)" "fetchers p ! k = Busy job" for k job
  proof -
    obtain index d where job: "job = (index, d)" by (cases job)
    obtain r w' where "read_or_fetch_chunk D act index d undefined = (r, w')" by (cases "read_or_fetch_chunk D act index d undefined")
    from fetches [OF b(1) b(2) [unfolded job] this] show ?thesis by blast
  qed
  have reporting: ?thesis if "k < length (fetchers p)" "fetchers p ! k = Reporting x" for k x
    using reports [OF that reporting_room [OF _ that]] i by blast
  have idle: ?thesis if w: "\<forall>x \<in> set (fetchers p). x = Idle \<or> x = Gone" "k < length (fetchers p)" "fetchers p ! k = Idle" for k
  proof (cases "work p")
    case (Cons job rest)
    then show ?thesis using takes [OF w(2,3) Cons] by blast
  next
    case Nil
    have results: "outstanding p = mset (map fst (results p))"
      using w(1) Nil by (auto simp: outstanding_def intro!: sum_list_none)
    show ?thesis
    proof (cases "\<exists>x. coordinator p = Ended x")
      case True
      then show ?thesis using leaves [OF w(2,3) Nil] by blast
    next
      case False
      then have p: "placed p" "\<not> all_gone (fetchers p)" "0 < n" using i not_all_gone [of p] by auto
      then have "results p \<noteq> []" if "coordinator p = Receiving" "next_write p < length cs"
        using outstanding_empty [of p "length cs" n] i that results by auto
      then show ?thesis
        using coordinator_moves [OF Nil p(2,3) False] by blast
    qed
  qed
  show ?thesis
  proof (cases "\<forall>x \<in> set (fetchers p). x = Idle \<or> x = Gone")
    case True
    show ?thesis
    proof (cases "all_gone (fetchers p)")
      case False
      then obtain k where "k < length (fetchers p)" "fetchers p ! k = Idle" using True by (metis all_gone_def in_set_conv_nth)
      then show ?thesis using idle [OF True] by blast
    next
      case gone: True
      then have "\<exists>x. coordinator p = Ended x" using i not_all_gone [of p] by auto
      then show ?thesis using assms(2) gone by (simp add: download_joined_def)
    qed
  next
    case False
    then obtain k where k: "k < length (fetchers p)" "fetchers p ! k \<noteq> Idle" "fetchers p ! k \<noteq> Gone" by (auto simp: in_set_conv_nth)
    then show ?thesis using busy reporting by (cases "fetchers p ! k") auto
  qed
qed

lemma download_inv_start: "0 < n \<Longrightarrow> download_inv D act cs n (start_download n)"
proof -
  have "sum_list (map occupied (replicate n Idle)) = {#}" by (rule sum_list_none) simp
  then show "0 < n \<Longrightarrow> ?thesis"
    by (auto simp: download_inv_def start_download_def flows_def placed_def outstanding_def sound_def simp del: map_replicate)
qed

interpretation downloader: worker_pool "download_step D act cs n" "download_inv D act cs n" download_joined "download_weight cs"
proof
  fix p q
  assume inv: "download_inv D act cs n p"
  show "\<not> download_joined p \<Longrightarrow> \<exists>q. download_step D act cs n p q" by (rule download_progress [OF inv])
  assume step: "download_step D act cs n p q"
  show "download_weight cs q < download_weight cs p"
    using download_step_decreases [OF step] inv by (simp add: download_inv_def flows_def)
  show "download_inv D act cs n q"
    using inv download_step_fetchers [OF step] download_step_gone [OF step] download_step_flows [OF step] download_step_sound [OF step]
    unfolding download_inv_def by metis
qed

lemma download_outcome:
  assumes "download_inv D act cs n p"
  shows "coordinator p = Ended None \<Longrightarrow> hashed p = temporary p \<and> (\<exists>bs. list_all2 (valid_chunk D) bs cs \<and> temporary p = concat bs)"
    and "coordinator p = Ended (Some e) \<Longrightarrow> fetch_failed D act e \<or> (\<exists>s. e = write_failed s)"
proof -
  have s: "sound D act cs p" using assms by (simp add: download_inv_def)
  then show "coordinator p = Ended (Some e) \<Longrightarrow> fetch_failed D act e \<or> (\<exists>s. e = write_failed s)" unfolding sound_def by blast
  assume ended: "coordinator p = Ended None"
  obtain bs where bs: "length bs = next_write p" "temporary p = concat bs" "\<forall>j < length bs. valid_chunk D (bs ! j) (cs ! j)"
    using s unfolding sound_def by blast
  have "next_write p = length cs" using assms ended by (simp add: download_inv_def flows_def)
  then show "hashed p = temporary p \<and> (\<exists>bs. list_all2 (valid_chunk D) bs cs \<and> temporary p = concat bs)"
    using s bs ended by (auto simp: sound_def list_all2_conv_all_nth)
qed

text \<open>
  Claim C34: the download pool is correct under every schedule.  However the coordinator and the workers interleave and whatever the
  cache and the network do, no run is longer than \<open>7c + n + 2\<close> steps for \<open>c\<close> chunks and \<open>n\<close> workers, and no run gets stuck, in
  particular no worker waits for ever to report to a coordinator that has failed.  When all have ended without error the
  temporary file, and what was hashed, is the concatenation in manifest order of chunks of the described length and identity; an error is that of a
  failed chunk fetch or of writing the file, so the notice that the workers stopped is never the cause.
\<close>

theorem download_pool_correct:
  assumes n: "0 < n"
  shows "(\<forall>k p. (download_step D act cs n ^^ k) (start_download n) p \<longrightarrow> k \<le> 7 * length cs + n + 2)
    \<and> (\<forall>p. (download_step D act cs n)\<^sup>*\<^sup>* (start_download n) p \<longrightarrow> (\<exists>q. (download_step D act cs n)\<^sup>*\<^sup>* p q \<and> download_joined q))
    \<and> (\<forall>p. (download_step D act cs n)\<^sup>*\<^sup>* (start_download n) p \<longrightarrow>
        (coordinator p = Ended None \<longrightarrow> hashed p = temporary p \<and> (\<exists>bs. list_all2 (valid_chunk D) bs cs \<and> temporary p = concat bs))
        \<and> (\<forall>e. coordinator p = Ended (Some e) \<longrightarrow> fetch_failed D act e \<or> (\<exists>s. e = write_failed s)))"
proof -
  note start = download_inv_start [OF n, of D act cs]
  have weight: "download_weight cs (start_download n) = 7 * length cs + n + 2"
    by (simp add: download_weight_def start_download_def sum_list_replicate)
  show ?thesis
    using downloader.every_schedule_ends [OF start] downloader.reachable_inv [OF _ start] download_outcome [of D act cs n]
    unfolding weight by blast
qed

section \<open>The whole download\<close>

text \<open>\<open>Response::error_for_status\<close>.\<close>

definition error_for_status :: "'n client_deps \<Rightarrow> string \<Rightarrow> http_answer \<Rightarrow> string + http_answer" where
  "error_for_status D url a = (if 400 \<le> ha_status a \<and> ha_status a < 600 then Inl (cl_status_error D (ha_status a) url) else Inr a)"

text \<open>Everything before the worker threads; the manifest request is not retried.\<close>

definition prepare_download :: "'n client_deps \<Rightarrow> download_request \<Rightarrow> ('n, transfer_action \<times> object_manifest) step" where
  "prepare_download D rq =
     andthen (of_result (action_of (down_action rq))) (\<lambda>act.
     andthen (send D (authorized Get (ta_href act) NoBody act)) (\<lambda>r.
     andthen (of_result (map_err (\<lambda>e. failure (''could not fetch CDC manifest: '' @ e)) (res_bind r (error_for_status D (ta_href act))))) (\<lambda>a.
     andthen (of_result (map_err (\<lambda>e. failure (''invalid CDC manifest: '' @ e)) (res_bind (ha_body a) (cl_manifest_json D)))) (\<lambda>manifest.
     andthen (of_result (map_err (\<lambda>e. failure (''invalid CDC manifest: '' @ manifest_error_to_string e)) (validate manifest))) (\<lambda>_.
     andthen (guard_err (object_oid manifest \<noteq> down_oid rq \<or> object_size manifest \<noteq> down_size rq)
        (failure ''server manifest does not match the requested Git LFS object'')) (\<lambda>_.
     andthen (fs_plain ''could not create cache root'') (\<lambda>_.
     andthen (fs_plain ''could not create download file'') (\<lambda>_.
     ret (act, manifest)))))))))"

text \<open>\<open>downloads D n rq w r content\<close>: a run of \<open>download\<close> may return \<open>r\<close> with \<open>content\<close> in its temporary file, whose path is chosen by the
  operating system.\<close>

inductive downloads ::
  "'n client_deps \<Rightarrow> nat \<Rightarrow> download_request \<Rightarrow> 'n client \<Rightarrow> backend_error + download_result \<Rightarrow> bytes \<Rightarrow> bool"
  for D :: "'n client_deps" and n :: nat and rq :: download_request and w :: "'n client" where
  not_prepared: "prepare_download D rq w = (Inl e, w1) \<Longrightarrow> downloads D n rq w (Inl e) []"
| not_fetched: "prepare_download D rq w = (Inr (act, m), w1) \<Longrightarrow>
    (download_step D act (chunks m) n)\<^sup>*\<^sup>* (start_download n) p \<Longrightarrow> download_joined p \<Longrightarrow> coordinator p = Ended (Some e) \<Longrightarrow>
    downloads D n rq w (Inl e) (temporary p)"
| mismatch: "prepare_download D rq w = (Inr (act, m), w1) \<Longrightarrow>
    (download_step D act (chunks m) n)\<^sup>*\<^sup>* (start_download n) p \<Longrightarrow> download_joined p \<Longrightarrow> coordinator p = Ended None \<Longrightarrow>
    as_bytes (sha256 D (hashed p)) \<noteq> as_bytes (down_oid rq) \<Longrightarrow>
    downloads D n rq w (Inl (failure ''reconstructed download failed SHA-256 validation'')) (temporary p)"
| kept: "prepare_download D rq w = (Inr (act, m), w1) \<Longrightarrow>
    (download_step D act (chunks m) n)\<^sup>*\<^sup>* (start_download n) p \<Longrightarrow> download_joined p \<Longrightarrow> coordinator p = Ended None \<Longrightarrow>
    as_bytes (sha256 D (hashed p)) = as_bytes (down_oid rq) \<Longrightarrow>
    downloads D n rq w (Inr \<lparr>result_path = path, bytes_transferred = down_size rq\<rparr>) (temporary p)"
| not_kept: "prepare_download D rq w = (Inr (act, m), w1) \<Longrightarrow>
    (download_step D act (chunks m) n)\<^sup>*\<^sup>* (start_download n) p \<Longrightarrow> download_joined p \<Longrightarrow> coordinator p = Ended None \<Longrightarrow>
    as_bytes (sha256 D (hashed p)) = as_bytes (down_oid rq) \<Longrightarrow>
    downloads D n rq w (Inl (failure (''could not retain completed download: '' @ e))) (temporary p)"

inductive_cases downloads_okE: "downloads D n rq w (Inr res) content"

lemma prepare_download_ok:
  assumes "prepare_download D rq w = (Inr (act, m), w')"
  shows "validate m = Inr () \<and> object_oid m = down_oid rq \<and> object_size m = down_size rq \<and> down_action rq = Some act"
  using assms by (auto simp: prepare_download_def run_ok ok_iff action_of_def ok_or_def split: option.splits)

lemma valid_chunks_length: "list_all2 (valid_chunk D) bs cs \<Longrightarrow> length (concat bs) = sum_list (map chunk_len cs)"
  by (induction rule: list_all2_induct) (simp_all add: valid_chunk_def)

lemma downloaded_content:
  assumes run: "downloads D n rq w (Inr res) content" and n: "0 < n"
  shows "sha256 D content = down_oid rq \<and> length content = unat (down_size rq) \<and> bytes_transferred res = down_size rq
    \<and> (\<exists>m bs. validate m = Inr () \<and> object_oid m = down_oid rq \<and> list_all2 (valid_chunk D) bs (chunks m) \<and> content = concat bs)"
proof -
  from run obtain act m w1 p path where r:
    "prepare_download D rq w = (Inr (act, m), w1)" "(download_step D act (chunks m) n)\<^sup>*\<^sup>* (start_download n) p"
    "coordinator p = Ended None" "as_bytes (sha256 D (hashed p)) = as_bytes (down_oid rq)" "content = temporary p"
    "res = \<lparr>result_path = path, bytes_transferred = down_size rq\<rparr>"
    by (rule downloads_okE) blast
  note m = prepare_download_ok [OF r(1)]
  from download_outcome(1) [OF downloader.reachable_inv [OF r(2) download_inv_start [OF n]] r(3)] obtain bs where
    bs: "hashed p = content" "list_all2 (valid_chunk D) bs (chunks m)" "content = concat bs" unfolding r(5) by blast
  have "length content = unat (down_size rq)"
    using valid_chunks_length [OF bs(2)] bs(3) m by (simp add: validate_iff_well_formed well_formed_def)
  moreover have "sha256 D content = down_oid rq" using r(4) bs(1) by (simp add: as_bytes_inject)
  ultimately show ?thesis using bs m r(6) by auto
qed

text \<open>
  Claim C33: what a reported download guarantees.  If \<open>download\<close> returns a file, then its content has the requested SHA-256
  identity and exactly the requested size, and it is the concatenation of chunks with the identities of a valid manifest,
  whatever the server, the network, the cache and the schedule of the workers did.
\<close>

theorem download_success:
  assumes run: "downloads D n rq w (Inr res) content" and n: "0 < n"
  shows "sha256 D content = down_oid rq \<and> length content = unat (down_size rq) \<and> bytes_transferred res = down_size rq
    \<and> (\<exists>m bs. validate m = Inr () \<and> object_oid m = down_oid rq \<and> list_all2 (valid_chunk D) bs (chunks m) \<and> content = concat bs)"
  using run n by (rule downloaded_content)

section \<open>Witnesses\<close>

definition demo_chunk :: chunk_descriptor where
  "demo_chunk = \<lparr>cd_id = digest_fill 9, cd_offset = 0, cd_length = 32\<rparr>"

theorem download_pool_correct_witness:
  "(\<nexists>p. (download_step client_demo demo_action [demo_chunk] 2 ^^ 12) (start_download 2) p)
   \<and> (\<exists>q. (download_step client_demo demo_action [demo_chunk] 2)\<^sup>*\<^sup>* (start_download 2) q \<and> download_joined q)"
  using download_pool_correct [of 2 client_demo demo_action "[demo_chunk]"] by fastforce

text \<open>A run with one worker that fetches the only chunk from the network.\<close>

definition demo_fetch :: "coordinator \<Rightarrow> fetch_job list \<Rightarrow> (fetch_job, fetch_result) worker \<Rightarrow> fetch_result list \<Rightarrow> (nat \<times> bytes) list \<Rightarrow> bytes \<Rightarrow> download_pool" where
  "demo_fetch c js x rs ps b = \<lparr>next_scheduled = 1, next_write = (if b = [] then 0 else 1), coordinator = c, pending = ps, hashed = b, temporary = b,
     work = js, results = rs, fetchers = [x]\<rparr>"

lemma demo_download_steps:
  fixes b :: bytes defines "b \<equiv> replicate 32 9"
  assumes get: "\<And>c. hc_method c = Get \<Longrightarrow> f c n = (Inr (demo_answer 200 (replicate 32 9)), n')"
  shows "download_step (client_over f) demo_action [demo_chunk] 1 (start_download 1) (demo_fetch Filling [(0, demo_chunk)] Idle [] [] [])"
    and "download_step (client_over f) demo_action [demo_chunk] 1 (demo_fetch Filling [(0, demo_chunk)] Idle [] [] []) (demo_fetch Receiving [(0, demo_chunk)] Idle [] [] [])"
    and "download_step (client_over f) demo_action [demo_chunk] 1 (demo_fetch Receiving [(0, demo_chunk)] Idle [] [] []) (demo_fetch Receiving [] (Busy (0, demo_chunk)) [] [] [])"
    and "download_step (client_over f) demo_action [demo_chunk] 1 (demo_fetch Receiving [] (Busy (0, demo_chunk)) [] [] []) (demo_fetch Receiving [] (Reporting (0, Inr b)) [] [] [])"
    and "download_step (client_over f) demo_action [demo_chunk] 1 (demo_fetch Receiving [] (Reporting (0, Inr b)) [] [] []) (demo_fetch Receiving [] Idle [(0, Inr b)] [] [])"
    and "download_step (client_over f) demo_action [demo_chunk] 1 (demo_fetch Receiving [] Idle [(0, Inr b)] [] []) (demo_fetch Writing [] Idle [] [(0, b)] [])"
    and "download_step (client_over f) demo_action [demo_chunk] 1 (demo_fetch Writing [] Idle [] [(0, b)] []) (demo_fetch Writing [] Idle [] [] b)"
    and "download_step (client_over f) demo_action [demo_chunk] 1 (demo_fetch Writing [] Idle [] [] b) (demo_fetch Receiving [] Idle [] [] b)"
    and "download_step (client_over f) demo_action [demo_chunk] 1 (demo_fetch Receiving [] Idle [] [] b) (demo_fetch (Ended None) [] Idle [] [] b)"
    and "download_step (client_over f) demo_action [demo_chunk] 1 (demo_fetch (Ended None) [] Idle [] [] b) (demo_fetch (Ended None) [] Gone [] [] b)"
  subgoal using fills [of "start_download 1" "[demo_chunk]" 1] by (simp add: demo_fetch_def schedule_def start_download_def all_gone_def)
  subgoal using filled [of "demo_fetch Filling [(0, demo_chunk)] Idle [] [] []" "[demo_chunk]"] by (simp add: demo_fetch_def)
  subgoal using takes [of 0 "demo_fetch Receiving [(0, demo_chunk)] Idle [] [] []" "(0, demo_chunk)" "[]"] by (simp add: demo_fetch_def)
  subgoal
  proof -
    let ?w = "demo_client n"
    have "fst (read_or_fetch_chunk (client_over f) demo_action 0 demo_chunk ?w) = Inr b"
      using get by (simp add: b_def demo_chunk_def read_or_fetch_chunk_def Let_def fs_read_def fs_next_def fetch_chunk_def child_url_def andthen_def of_result_def
        send_def ret_def guard_err_def fs_plain_def fs_persist_noclobber_def numeral_3_eq_3 authorized_def demo_client_def demo_answer_def
        is_success_def valid_chunk_def)
    then have "read_or_fetch_chunk (client_over f) demo_action 0 demo_chunk ?w = (Inr b, snd (read_or_fetch_chunk (client_over f) demo_action 0 demo_chunk ?w))"
      by (metis prod.collapse)
    from fetches [OF _ _ this, of 0 "demo_fetch Receiving [] (Busy (0, demo_chunk)) [] [] []"] show ?thesis by (simp add: demo_fetch_def)
  qed
  subgoal using reports [of 0 "demo_fetch Receiving [] (Reporting (0, Inr b)) [] [] []" "(0, Inr b)" 1] by (simp add: demo_fetch_def)
  subgoal using receives [of "demo_fetch Receiving [] Idle [(0, Inr b)] [] []" "[demo_chunk]" "(0, Inr b)" "[]"] by (simp add: demo_fetch_def receive_def)
  subgoal using writes [of "demo_fetch Writing [] Idle [] [(0, b)] []" b "client_over f" demo_action "[demo_chunk]" 1] by (simp add: demo_fetch_def write_next_def b_def)
  subgoal using drained [of "demo_fetch Writing [] Idle [] [] b"] by (simp add: demo_fetch_def b_def)
  subgoal using completed [of "demo_fetch Receiving [] Idle [] [] b" "[demo_chunk]"] by (simp add: demo_fetch_def b_def)
  subgoal using leaves [of 0 "demo_fetch (Ended None) [] Idle [] [] b" None] by (simp add: demo_fetch_def b_def)
  done

definition demo_download :: download_request where
  "demo_download = \<lparr>down_oid = digest_fill 9, down_size = 32, down_action = Some demo_action\<rparr>"

lemma demo_described: "finish ref_core_deps (new_stream ref_core_deps (Reader (replicate 32 9) None) beta_v1) =
    Inr \<lparr>version = V1, profile = FastCdcV1, object_oid = digest_fill 9, object_size = 32, chunks = [demo_chunk]\<rparr>"
proof -
  let ?s = "new_stream ref_core_deps (Reader (replicate 32 9) None) beta_v1"
  have i: "inner ?s = [Inr \<lparr>cc_offset = 0, cc_length = 32, cc_data = replicate 32 9\<rparr>]" by (simp add: new_stream_def split: prod.split)
  have "finish ref_core_deps ?s = Inr (completed_manifest ref_core_deps (?s\<lparr>inner := [], object_hasher := object_hasher ?s @ replicate 32 9,
      stream_object_size := stream_object_size ?s + 32, descriptors := descriptors ?s @ [demo_chunk]\<rparr>))"
    using stream_chunks_all [of ?s "[\<lparr>cc_offset = 0, cc_length = 32, cc_data = replicate 32 9\<rparr>]" ref_core_deps]
    by (simp add: finish_def i describe_def demo_chunk_def)
  then show ?thesis
    by (simp add: completed_manifest_def new_stream_def beta_v1_def ref_digest_deps_def digest_fill_def split: prod.split)
qed

lemma demo_prepare_download:
  fixes m defines "m \<equiv> \<lparr>version = V1, profile = FastCdcV1, object_oid = digest_fill 9, object_size = 32, chunks = [demo_chunk]\<rparr>"
  assumes get: "\<And>c. hc_method c = Get \<Longrightarrow> f c n = (Inr (demo_answer 200 (replicate 32 9)), n')"
  shows "fst (prepare_download (client_over f) demo_download (demo_client n)) = Inr (demo_action, m)"
proof -
  have "validate m = Inr ()"
    by (simp add: m_def validate_iff_well_formed well_formed_def demo_chunk_def chunk_ok_def)
  then show ?thesis using get
    by (simp add: prepare_download_def action_of_def ok_or_def demo_download_def andthen_def of_result_def send_def authorized_def demo_client_def demo_answer_def
        error_for_status_def demo_described m_def [symmetric] guard_err_def fs_plain_def fs_next_def ret_def) (simp add: m_def)
qed

lemma demo_downloads_over:
  assumes get: "\<And>c. hc_method c = Get \<Longrightarrow> f c n = (Inr (demo_answer 200 (replicate 32 9)), n')"
  shows "downloads (client_over f) 1 demo_download (demo_client n)
     (Inr \<lparr>result_path = ''t'', bytes_transferred = 32\<rparr>) (replicate 32 9)"
proof -
  let ?w = "demo_client n" and ?b = "replicate 32 9 :: bytes"
  let ?m = "\<lparr>version = V1, profile = FastCdcV1, object_oid = digest_fill 9, object_size = 32, chunks = [demo_chunk]\<rparr>"
  have p: "prepare_download (client_over f) demo_download ?w = (Inr (demo_action, ?m), snd (prepare_download (client_over f) demo_download ?w))"
    using demo_prepare_download [where f = f and n = n and n' = n', OF get] by (metis prod.collapse)
  have "(download_step (client_over f) demo_action [demo_chunk] 1)\<^sup>*\<^sup>* (start_download 1) (demo_fetch (Ended None) [] Gone [] [] ?b)"
    by (meson demo_download_steps [where f = f and n = n and n' = n', OF get] r_into_rtranclp rtranclp_trans)
  then have steps: "(download_step (client_over f) demo_action (chunks ?m) 1)\<^sup>*\<^sup>* (start_download 1) (demo_fetch (Ended None) [] Gone [] [] ?b)"
    unfolding object_manifest.select_convs .
  from kept [OF p steps, of "''t''"] show ?thesis
    by (simp add: demo_fetch_def download_joined_def all_gone_def demo_download_def ref_digest_deps_def digest_fill_def)
qed

lemma demo_downloads:
  "downloads client_demo 1 demo_download (demo_client [Inr (demo_answer 200 (replicate 32 9))])
     (Inr \<lparr>result_path = ''t'', bytes_transferred = 32\<rparr>) (replicate 32 9)"
  by (rule demo_downloads_over) (simp add: scripted_def)

theorem download_success_witness:
  "sha256 client_demo (replicate 32 9) = down_oid demo_download \<and> length (replicate 32 (9 :: byte)) = unat (down_size demo_download)
   \<and> downloads client_demo 1 demo_download (demo_client [Inr (demo_answer 200 (replicate 32 9))])
       (Inr \<lparr>result_path = ''t'', bytes_transferred = 32\<rparr>) (replicate 32 9)"
  using download_success [OF demo_downloads] demo_downloads by simp

end
