(* ===== verification/EndToEnd.thy ===== *)
theory EndToEnd
  imports Refinement UploadPool DownloadPool "HOL-Library.Sublist"
begin

text \<open>
  Client and server together.  The service runs: its history is the list of the states it has passed through, each the result of a call it served or of a change
  of its environment.  The connection between client and server is what the HTTP, routing and JSON libraries provide: every state of the network
  carries the history so far, and a successful answer to a call of the client means that, after the call was sent, the service served the request that the router
  extracts from it and added the resulting state to this history.  The theorems follow an object through the whole system: what the client reports as uploaded
  was published in a state of this history.
\<close>

section \<open>Finalized sessions\<close>

text \<open>The objects that finalized upload sessions are about.\<close>

definition finalized_keys :: "'j database \<Rightarrow> (uuid \<times> bytes) set" where
  "finalized_keys d = session_key ` {s \<in> set (upload_sessions d). ses_state s = Finalized}"

lemma finalized_keys_sessions: "upload_sessions d' = upload_sessions d \<Longrightarrow> finalized_keys d' = finalized_keys d"
  by (simp add: finalized_keys_def)

text \<open>Only publication finalizes sessions.\<close>

lemma finalized_statements [simp, intro!]:
  "st_keeps (\<lambda>d. finalized_keys d \<subseteq> K) (expire_sessions_of r oid)" "st_keeps (\<lambda>d. finalized_keys d \<subseteq> K) (upsert_open_session i r oid n j)"
  "st_keeps (\<lambda>d. finalized_keys d \<subseteq> K) (upsert_chunk r c n)" "st_keeps (\<lambda>d. finalized_keys d \<subseteq> K) (insert_session_chunk u r c)"
  "st_keeps (\<lambda>d. finalized_keys d \<subseteq> K) (insert_lock D i r p sub)" "st_keeps (\<lambda>d. finalized_keys d \<subseteq> K) (delete_lock D i r)"
  "st_keeps (\<lambda>d. finalized_keys d \<subseteq> K) (insert_repository i ow nm)" "st_keeps (\<lambda>d. finalized_keys d \<subseteq> K) (upsert_grant r sub wr ad)"
  "st_keeps (\<lambda>d. finalized_keys d \<subseteq> K) (insert_epoch e r f)" "st_keeps (\<lambda>d. finalized_keys d \<subseteq> K) (insert_reachable e oid)"
  "st_keeps (\<lambda>d. finalized_keys d \<subseteq> K) (complete_epoch e)" "st_keeps (\<lambda>d. finalized_keys d \<subseteq> K) (insert_tombstone r oid g)"
  "st_keeps (\<lambda>d. finalized_keys d \<subseteq> K) (enqueue_if_unreferenced r c)" "st_keeps (\<lambda>d. finalized_keys d \<subseteq> K) (enqueue_abandoned r g)"
  "st_keeps (\<lambda>d. finalized_keys d \<subseteq> K) (delete_queue_entry r c)" "st_keeps (\<lambda>d. finalized_keys d \<subseteq> K) (delete_stale_sessions r g)"
  "st_keeps (\<lambda>d. finalized_keys d \<subseteq> K) (expire_sessions r)" "st_keeps (\<lambda>d. finalized_keys d \<subseteq> K) (delete_object r oid)"
  "st_keeps (\<lambda>d. finalized_keys d \<subseteq> K) (delete_chunk_row r c)" "st_keeps (\<lambda>d. finalized_keys d \<subseteq> K) (add_references k r c)"
  by (rule st_keepsI; fastforce simp: finalized_keys_def session_key_def gc_writes expire_sessions_of_def upsert_open_session_def upsert_chunk_def
      insert_session_chunk_def insert_lock_def delete_lock_def insert_repository_def upsert_grant_def expire_sessions_def delete_object_def
      delete_chunk_row_def add_references_def ok_iff Let_def split: if_splits option.splits)+

lemma finalized_gc [keeps_intros]:
  "keeps (holds (\<lambda>d. finalized_keys d \<subseteq> K)) (collect_one r)" "keeps (holds (\<lambda>d. finalized_keys d \<subseteq> K)) (drain_chunk_queue D r)"
  unfolding collect_one_def collect_body_def release_chunk_def drain_chunk_queue_def drain_one_def drain_body_def
  by (auto intro!: keeps_intros transaction_keeps keeps_ok_keeps)

lemma finalized_collect [keeps_intros]: "keeps (holds (\<lambda>d. finalized_keys d \<subseteq> K)) (collect_loop n r k)"
  by (induction n arbitrary: k) (auto intro!: keeps_intros)

lemma admin_finalizes_nothing:
  assumes "c \<noteq> Migrate"
  shows "keeps (holds (\<lambda>d. finalized_keys d \<subseteq> K)) (admin D M scan n c)"
proof -
  have "keeps (holds (\<lambda>d. finalized_keys d \<subseteq> K)) (submit_snapshot sn e)" "keeps (holds (\<lambda>d. finalized_keys d \<subseteq> K)) (stage r g)"
    "keeps (holds (\<lambda>d. finalized_keys d \<subseteq> K)) (collect_due D n r)" "keeps (holds (\<lambda>d. finalized_keys d \<subseteq> K)) (reclaim_expired_uploads D r g)" for sn e r g
    unfolding submit_snapshot_def stage_def collect_due_def reclaim_expired_uploads_def
    by (auto intro!: keeps_intros transaction_keeps keeps_ok_keeps)
  then have "keeps (holds (\<lambda>d. finalized_keys d \<subseteq> K)) (run_command D scan n c)"
    by (cases c) (auto intro!: keeps_intros split: prod.split option.split)
  then show ?thesis using assms unfolding admin_def run_schema_command_def by (auto intro!: keeps_intros)
qed

lemma reads_finalize_nothing:
  assumes "\<not> is_upload rq"
  shows "keeps (holds (\<lambda>d. finalized_keys d \<subseteq> K)) (serve D A rq)"
proof -
  have "keeps (holds (\<lambda>d. finalized_keys d \<subseteq> K)) (create_lock D A ow rp hs p i)" "keeps (holds (\<lambda>d. finalized_keys d \<subseteq> K)) (unlock D A ow rp i hs f)"
    for ow rp hs p i f
    unfolding create_lock_def unlock_def by (auto intro!: keeps_intros split: prod.split)
  then show ?thesis using assms unfolding serve_def by (cases rq) (auto intro!: keeps_intros)
qed

text \<open>In a quiet world every newly finalized session has its object.\<close>

definition recording :: "('s, 'j) server_deps \<Rightarrow> (uuid \<times> bytes) set \<Rightarrow> ('s, 'j) world \<Rightarrow> bool" where
  "recording D K w \<longleftrightarrow> quiet w \<and> catalog_ok D (db w) \<and> finalized_keys (db w) \<subseteq> K \<union> object_keys (db w)"

lemma recordingI:
  assumes "keeps (holds (catalog_ok D)) m" "\<And>P. keeps (stable P) m" "\<And>K. keeps (holds (\<lambda>d. finalized_keys d \<subseteq> K)) m"
    "\<And>S. keeps (holds (\<lambda>d. S \<subseteq> set (objects d))) m"
  shows "keeps (recording D K) m"
proof (rule keepsI)
  fix w r w' assume h: "recording D K w" and run: "m w = (r, w')"
  then have q: "quiet w" and h': "catalog_ok D (db w)" "finalized_keys (db w) \<subseteq> K \<union> object_keys (db w)" by (auto simp: recording_def)
  have "quiet w'" by (rule keepsD [OF keeps_quiet [OF assms(2)] q run])
  moreover have "catalog_ok D (db w')"
    using keeps_holdsD [OF assms(1) _ run] h' q by (simp add: holds_def quiet_stable)
  moreover have "finalized_keys (db w') \<subseteq> K \<union> object_keys (db w)"
    using keeps_holdsD [OF assms(3) _ run] h' q by (simp add: holds_def quiet_stable)
  moreover have "set (objects (db w)) \<subseteq> set (objects (db w'))"
    using keeps_holdsD [OF assms(4) [of "set (objects (db w))"] _ run] q by (simp add: holds_def quiet_stable)
  ultimately show "recording D K w'" by (auto simp: recording_def object_keys_def)
qed

lemma recording_local:
  assumes "\<And>P. keeps (holds P) m" "\<And>P. keeps (stable P) m"
  shows "keeps (recording D K) m"
  by (rule recordingI [OF assms(1) assms(2) assms(1) assms(1)])

lemma recording_frame [simp]: "recording D K (w\<lparr>metrics := f\<rparr>) = recording D K w"
  by (simp add: recording_def)

lemma published_recorded:
  assumes "published D r u m d d'" "schema_ok d" "finalized_keys d \<subseteq> K \<union> object_keys d"
  shows "finalized_keys d' \<subseteq> K \<union> object_keys d'"
proof
  fix k assume "k \<in> finalized_keys d'"
  then obtain s' where s': "s' \<in> set (upload_sessions d')" "ses_state s' = Finalized" "k = session_key s'"
    by (auto simp: finalized_keys_def)
  from assms(1) obtain s0 where p: "s0 \<in> set (upload_sessions d)" "session_matches u r (as_bytes (object_oid m)) s0"
    "upload_sessions d' = map (\<lambda>s. if ses_id s = u then s\<lparr>ses_state := Finalized\<rparr> else s) (upload_sessions d)"
    "(r, as_bytes (object_oid m)) \<in> object_keys d'" "set (objects d) \<subseteq> set (objects d')" using publishedD [OF assms(1)] by blast
  from s'(1) p(3) obtain s where s: "s \<in> set (upload_sessions d)" "s' = (if ses_id s = u then s\<lparr>ses_state := Finalized\<rparr> else s)" by auto
  show "k \<in> K \<union> object_keys d'"
  proof (cases "ses_id s = u")
    case True
    then have "s = s0" using session_id_unique [OF assms(2) s(1) p(1)] p(2) by (simp add: session_matches_def)
    then show ?thesis using s'(3) s(2) p(2,4) True by (simp add: session_matches_def session_key_def)
  next
    case False
    then have "k \<in> finalized_keys d" using s s' by (auto simp: finalized_keys_def)
    then show ?thesis using assms(3) p(5) by (auto simp: object_keys_def)
  qed
qed

lemma publish_recording:
  assumes "json_roundtrip D"
  shows "keeps (recording D K) (publish_manifest D r u m)"
proof (rule keepsI)
  fix w x w' assume h: "recording D K w" and run: "publish_manifest D r u m w = (x, w')"
  then have q: "quiet w" and c: "catalog_ok D (db w)" and f: "finalized_keys (db w) \<subseteq> K \<union> object_keys (db w)" by (auto simp: recording_def)
  have "keeps quiet (publish_manifest D r u m)" by (rule keeps_quiet) (intro keeps_intros assms)
  then have "quiet w'" using q run by (rule keepsD)
  moreover have "catalog_ok D (db w')"
  proof -
    have "keeps (holds (catalog_ok D)) (publish_manifest D r u m)" by (intro keeps_intros assms)
    from keeps_holdsD [OF this _ run] q c show ?thesis by (simp add: holds_def quiet_stable)
  qed
  moreover have "finalized_keys (db w') \<subseteq> K \<union> object_keys (db w')"
    using publish_manifest_outcome [OF assms q run, THEN conjunct1] published_recorded [OF _ catalog_okD(1) [OF c] f] f by metis
  ultimately show "recording D K w'" by (simp add: recording_def)
qed

lemma sessions_recording:
  assumes "json_roundtrip D"
  shows "keeps (recording D K) (ensure_upload_session D i r m)" "keeps (recording D K) (register_and_store_chunk D r u c b)"
proof -
  have "keeps (holds (\<lambda>d. finalized_keys d \<subseteq> K')) (ensure_upload_session D i r m)"
    "keeps (holds (\<lambda>d. finalized_keys d \<subseteq> K')) (register_and_store_chunk D r u c b)" for K'
    unfolding ensure_upload_session_def register_and_store_chunk_def by (auto intro!: keeps_intros transaction_keeps keeps_ok_keeps split: prod.split)
  then show "keeps (recording D K) (ensure_upload_session D i r m)" "keeps (recording D K) (register_and_store_chunk D r u c b)"
    by (auto intro!: recordingI keeps_intros assms)
qed

lemma local_recording:
  "keeps (recording D K) (authenticate D' A hs ow rp a)" "keeps (recording D K) (repository_id ow rp)" "keeps (recording D K) acquire_permit"
  "keeps (recording D K) file_io" "keeps (recording D K) join_blocking" "keeps (recording D K) (reopen_staged b)" "keeps (recording D K) (bump f)"
  "keeps (recording D K) (load_open_upload D' r oid u)" "keeps (recording D K) (load_finalizable_upload D' r oid u)"
  "keeps (recording D K) (on_store op)"
  by (rule recording_local, rule keeps_intros, rule keeps_intros)+

lemma uploads_recording:
  assumes "json_roundtrip D" "is_upload rq"
  shows "keeps (recording D K) (serve D A rq)"
proof -
  note parts = publish_recording [OF assms(1)] sessions_recording [OF assms(1)] local_recording
  have others: "keeps (recording D K) (upload_basic D A ow rp oid hs body i)" "keeps (recording D K) (finalize_cdc D A ow rp oid u hs)"
    "keeps (recording D K) (upload_cdc_chunk D A ow rp oid u k hs b)" for ow rp oid hs body i u k b
    unfolding upload_basic_def finalize_cdc_def upload_cdc_chunk_def read_all_def read_chunk_def
    by (intro keeps_intros parts | clarsimp split del: if_split)+
  have "keeps (recording D K) (begin_cdc D A ow rp oid hs brq i)" for ow rp oid hs brq i
  proof (rule recordingI)
    show "keeps (holds (\<lambda>d. finalized_keys d \<subseteq> K')) (begin_cdc D A ow rp oid hs brq i)" "keeps (holds (\<lambda>d. S \<subseteq> set (objects d))) (begin_cdc D A ow rp oid hs brq i)"
      for K' S
      unfolding begin_cdc_def by (auto intro!: keeps_intros transaction_keeps keeps_ok_keeps split: prod.split)
  qed (auto intro!: keeps_intros assms)
  then show ?thesis using assms(2) others unfolding serve_def by (cases rq) (auto intro!: record_http_metrics_keeps answer_keeps)
qed

lemma object_key_mapped:
  assumes "upload_ok D contents U w" "k \<in> object_keys (db w)"
  shows "\<exists>v. object_map D contents w k = Some v \<and> as_bytes (sha256 D v) = snd k"
proof -
  have sys: "system_ok D contents w" using assms(1) by (simp add: upload_ok_def)
  then have s: "schema_ok (db w)" by (auto simp: system_ok_def catalog_ok_def)
  from assms(2) obtain o' where o: "o' \<in> set (objects (db w))" "object_key o' = k" by (auto simp: object_keys_def)
  then obtain v where v: "object_content D contents (store w) o' = Some v"
    using available_content sys by (fastforce simp: system_ok_def)
  then have "object_map D contents w k = Some v" using o object_map_some [OF s] by blast
  then show ?thesis using added_entries_verified [OF sys] by blast
qed

section \<open>Runs of the service\<close>

text \<open>The states of a run from \<open>w0\<close>, in order: the service performs a call, or its environment prepares other delays and failures.\<close>

inductive deployment_run :: "('s, 'j) deployment \<Rightarrow> bytes set \<Rightarrow> ('s, 'j) world \<Rightarrow> ('s, 'j) world list \<Rightarrow> bool"
  for S U w0 where
  begins: "deployment_run S U w0 [w0]"
| performs: "deployment_run S U w0 ws \<Longrightarrow> bodies_in (deps S) U c \<Longrightarrow> c \<noteq> Command Migrate \<Longrightarrow>
    deployment_run S U w0 (ws @ [perform S c (last ws)])"
| changes: "deployment_run S U w0 ws \<Longrightarrow> db w' = db (last ws) \<Longrightarrow> store w' = store (last ws) \<Longrightarrow> quiet w' \<Longrightarrow>
    deployment_run S U w0 (ws @ [w'])"

lemma deployment_run_reaches:
  "deployment_run S U w0 ws \<Longrightarrow> ws \<noteq> [] \<and> (\<forall>w \<in> set ws. reaches S (bodies_in (deps S) U) quiet w0 w)"
  by (induction rule: deployment_run.induct) (auto intro: reaches.intros)

text \<open>A call finalizes only sessions whose objects it publishes.\<close>

lemma call_records:
  assumes "json_roundtrip (deps S)" "upload_ok (deps S) contents U w" "c \<noteq> Command Migrate" "k \<in> finalized_keys (db (perform S c w))"
  shows "k \<in> finalized_keys (db w) \<union> object_keys (db (perform S c w))"
proof (cases "\<exists>rq. c = Http rq \<and> is_upload rq")
  case True
  then obtain rq where rq: "c = Http rq" "is_upload rq" by blast
  have "recording (deps S) (finalized_keys (db w)) w" using assms(2) by (simp add: recording_def upload_ok_def system_ok_def)
  from keepsD [OF uploads_recording [OF assms(1) rq(2), of _ "app S"] this surjective_pairing]
  show ?thesis using assms(4) rq(1) by (auto simp: recording_def)
next
  case False
  let ?P = "\<lambda>d. finalized_keys d \<subseteq> finalized_keys (db w)"
  have h: "holds ?P w" using assms(2) by (simp add: holds_def quiet_stable upload_ok_def system_ok_def)
  have "holds ?P (perform S c w)"
  proof (cases c)
    case (Http rq)
    then show ?thesis using False keepsD [OF reads_finalize_nothing h surjective_pairing] by auto
  next
    case (Command ac)
    then show ?thesis using assms(3) keepsD [OF admin_finalizes_nothing h surjective_pairing] by auto
  qed
  then show ?thesis using assms(4) by (auto simp: holds_def)
qed

text \<open>A finalized session is the trace of a publication: its object was published in some state of the run.\<close>

lemma finalized_were_published:
  assumes "deployment_run S U w0 ws"
    and "object_store (deps S) contents" "json_roundtrip (deps S)" "inj_on (blake3 (deps S)) U" "cdc_reports_errors (deps S)"
    and "upload_ok (deps S) contents U w0" "finalized_keys (db w0) \<subseteq> object_keys (db w0)"
    and "w \<in> set ws" "k \<in> finalized_keys (db w)"
  shows "\<exists>w1 \<in> set ws. k \<in> object_keys (db w1)"
  using assms(1,8,9)
proof (induction arbitrary: w)
  case begins
  then show ?case using assms(7) by auto
next
  case (performs ws c)
  have last: "last ws \<in> set ws" using deployment_run_reaches [OF performs(1)] by simp
  have "upload_ok (deps S) contents U (last ws)"
    using reaches_upload_ok [OF _ assms(2-6)] deployment_run_reaches [OF performs(1)] last by blast
  from call_records [OF assms(3) this performs(3)] show ?case
    using performs.IH last performs.prems by fastforce
next
  case (changes ws w')
  have "last ws \<in> set ws" using deployment_run_reaches [OF changes(1)] by simp
  then show ?case using changes.IH changes(2) changes.prems by fastforce
qed

section \<open>Uploads arrive\<close>

text \<open>The connection: \<open>extract\<close> is what the router makes of a call of the client, \<open>history\<close> the run of the service so far.  While a call is under way the service
  goes on, with this call or without it; when the answer is a success, the service has served the request without an error since the call was sent.
  Nothing else is assumed of answers that report a failure, of lost calls, of lost answers, or of what other clients do meanwhile.\<close>

definition connected ::
  "'n client_deps \<Rightarrow> (http_call \<Rightarrow> request option) \<Rightarrow> ('s, 'j) deployment \<Rightarrow> bytes set \<Rightarrow> ('s, 'j) world \<Rightarrow> ('n \<Rightarrow> ('s, 'j) world list) \<Rightarrow> bool" where
  "connected C extract S U w0 history \<longleftrightarrow> (\<forall>n. deployment_run S U w0 (history n))
     \<and> (\<forall>c n x n'. cl_send C c n = (x, n') \<longrightarrow> (\<exists>since. history n' = history n @ since
         \<and> (\<forall>rq a. extract c = Some rq \<longrightarrow> x = Inr a \<longrightarrow> is_success (ha_status a) \<longrightarrow>
              (\<exists>before w after r. since = before @ w # after \<and> serve (deps S) (app S) rq (last (history n @ before)) = (Inr r, w)))))"

lemma finalize_from_answered:
  "finalize_from C act url attempt k w = (Inr (), w') \<Longrightarrow>
     \<exists>n a. cl_send C (authorized Post url NoBody act) n = (Inr a, net w') \<and> is_success (ha_status a)"
proof (induction k arbitrary: attempt w)
  case 0
  then show ?case by (simp add: fail_def)
next
  case (Suc k)
  obtain r n' where s: "cl_send C (authorized Post url NoBody act) (net w) = (r, n')" by (cases "cl_send C (authorized Post url NoBody act) (net w)")
  show ?case
    using Suc.prems s
    by (auto simp: andthen_def send_def sleep_def set_world_def fail_def ret_ok split: sum.splits if_splits dest!: Suc.IH)
qed

lemma serve_ok:
  assumes "serve D A rq w = (Inr r, w')"
  obtains w1 w2 where "route D A rq w1 = (Inr r, w2)" "db w1 = db w" "store w1 = store w" "db_script w1 = db_script w" "db w' = db w2"
  using assms by (auto simp: serve_def record_http_metrics_def Let_def split: prod.splits sum.splits)

lemma served_finalization:
  assumes "object_store D contents" "json_roundtrip D" "upload_ok D contents U w" "parse_oid D oid_text = Inr oid"
    and "serve D A (FinalizeCdc owner repository oid_text u headers) w = (Inr r, w')"
  shows "\<exists>row \<in> set (repositories (db w)). repo_owner row = owner \<and> repo_name row = repository
    \<and> (repo_id row, as_bytes oid) \<in> finalized_keys (db w')"
proof -
  from assms(5) obtain w1 w2 where run: "route D A (FinalizeCdc owner repository oid_text u headers) w1 = (Inr r, w2)"
    and w1: "db w1 = db w" "db_script w1 = db_script w" and w2: "db w' = db w2" by (rule serve_ok)
  have q: "quiet w1" "catalog_ok D (db w1)" using assms(3) w1 by (auto simp: upload_ok_def system_ok_def quiet_def)
  from run obtain st where "finalize_cdc D A owner repository oid_text u headers w1 = (Inr st, w2)"
    by (auto simp: answer_def andthen_ok ret_ok)
  from finalize_cdc_outcome [OF assms(1,2) q this] assms(4) obtain rid s m row where
    s: "s \<in> set (upload_sessions (db w1))" "session_matches u rid (as_bytes oid) s" "object_oid m = oid"
    and row: "row \<in> set (repositories (db w1))" "repo_id row = rid" "repo_owner row = owner" "repo_name row = repository"
    and out: "if ses_state s = Finalized then db w2 = db w1 else published D rid u m (db w1) (db w2)" by (auto split: if_splits)
  have key: "session_key s = (rid, as_bytes oid)" "ses_id s = u" using s(2) by (auto simp: session_matches_def session_key_def)
  have "s\<lparr>ses_state := Finalized\<rparr> \<in> set (upload_sessions (db w2))"
  proof (cases "ses_state s = Finalized")
    case True
    then have "s\<lparr>ses_state := Finalized\<rparr> = s" by (cases s) simp
    then show ?thesis using out s(1) True by metis
  next
    case False
    then have "upload_sessions (db w2) = map (\<lambda>s. if ses_id s = u then s\<lparr>ses_state := Finalized\<rparr> else s) (upload_sessions (db w1))"
      using out publishedD(2) by auto
    then show ?thesis using s(1) key(2) by (auto intro!: image_eqI [of _ _ s])
  qed
  then have "(rid, as_bytes oid) \<in> finalized_keys (db w2)"
    using key(1) by (auto simp: finalized_keys_def session_key_def intro!: image_eqI [of _ _ "s\<lparr>ses_state := Finalized\<rparr>"])
  then show ?thesis using row w1(1) w2 by auto
qed


text \<open>In the states \<open>ws\<close> the repository has held the object: a row of the repository, and a state that maps the object to content with this identity.\<close>

definition published_in ::
  "('s, 'j) deployment \<Rightarrow> ('s \<Rightarrow> string \<Rightarrow> bytes option) \<Rightarrow> ('s, 'j) world list \<Rightarrow> string \<Rightarrow> string \<Rightarrow> object_oid \<Rightarrow> bool" where
  "published_in S contents ws owner repository oid \<longleftrightarrow>
     (\<exists>w1 \<in> set ws. \<exists>row \<in> set (repositories (db w1)). repo_owner row = owner \<and> repo_name row = repository
        \<and> (\<exists>w2 \<in> set ws. \<exists>v. object_map (deps S) contents w2 (repo_id row, as_bytes oid) = Some v \<and> sha256 (deps S) v = oid))"

lemma published_in_later: "published_in S contents ws owner repository oid \<Longrightarrow> prefix ws ws' \<Longrightarrow> published_in S contents ws' owner repository oid"
  using set_mono_prefix [of ws ws'] unfolding published_in_def by blast

text \<open>The action of an upload request leads to the finalization endpoint of its object in the repository.\<close>

definition leads_to_finalization ::
  "'n client_deps \<Rightarrow> (http_call \<Rightarrow> request option) \<Rightarrow> ('s, 'j) deployment \<Rightarrow> string \<Rightarrow> string \<Rightarrow> upload_request \<Rightarrow> bool" where
  "leads_to_finalization C extract S owner repository rq \<longleftrightarrow>
     (\<forall>act u url. up_action rq = Some act \<longrightarrow> child_url C (ta_href act) [cl_uuid_text C u, ''finalize''] = Inr url \<longrightarrow>
        (\<exists>u' hs oid_text. extract (authorized Post url NoBody act) = Some (FinalizeCdc owner repository oid_text u' hs)
           \<and> parse_oid (deps S) oid_text = Inr (up_oid rq)))"

text \<open>What the client reports as uploaded has been published, however calls and answers are lost, delayed and repeated.\<close>

lemma reported_upload_was_published:
  assumes run: "uploads C n rq w (Inr sz) js w'" and net: "connected C extract S U w0 history"
    and endpoint: "leads_to_finalization C extract S owner repository rq"
    and libraries: "object_store (deps S) contents" "json_roundtrip (deps S)" "inj_on (blake3 (deps S)) U" "cdc_reports_errors (deps S)"
    and start: "upload_ok (deps S) contents U w0" "finalized_keys (db w0) \<subseteq> object_keys (db w0)"
  shows "published_in S contents (history (net w')) owner repository (up_oid rq)"
proof -
  from run obtain act plan src wp w2 where prep: "prepare_upload C rq w = (Inr (act, plan, src), wp)"
    and fin: "finalize_upload C act (resp_upload_id plan) w2 = (Inr (), w')" by (rule uploads_okE) blast
  have act: "up_action rq = Some act" by (rule prepare_ok [OF prep])
  from fin obtain url n1 a where url: "child_url C (ta_href act) [cl_uuid_text C (resp_upload_id plan), ''finalize''] = Inr url"
    and a: "cl_send C (authorized Post url NoBody act) n1 = (Inr a, net w')" "is_success (ha_status a)"
    by (auto simp: finalize_upload_def run_ok ok_iff dest!: finalize_from_answered)
  from endpoint act url obtain u hs oid_text where x: "extract (authorized Post url NoBody act) = Some (FinalizeCdc owner repository oid_text u hs)"
    and oid: "parse_oid (deps S) oid_text = Inr (up_oid rq)" unfolding leads_to_finalization_def by blast
  let ?ws = "history (net w')"
  have runs: "deployment_run S U w0 (history m)" for m using net by (simp add: connected_def)
  note r = runs [of "net w'"] and nonempty = deployment_run_reaches [OF runs, THEN conjunct1]
  from net a x obtain before after w1 w1' r' where split: "?ws = history n1 @ before @ w1' # after" "w1 = last (history n1 @ before)"
    and served: "serve (deps S) (app S) (FinalizeCdc owner repository oid_text u hs) w1 = (Inr r', w1')"
    unfolding connected_def by (metis append.assoc)
  have here: "w1 \<in> set ?ws" "w1' \<in> set ?ws" using split nonempty [of n1] last_in_set [of "history n1 @ before"] by auto
  note inv = reaches_upload_ok [OF _ libraries start(1)] and states = deployment_run_reaches [OF r, THEN conjunct2]
  have ok: "upload_ok (deps S) contents U v" if "v \<in> set ?ws" for v using inv states that by blast
  from served_finalization [OF libraries(1,2) ok [OF here(1)] oid served] obtain row where row: "row \<in> set (repositories (db w1))"
    "repo_owner row = owner" "repo_name row = repository" "(repo_id row, as_bytes (up_oid rq)) \<in> finalized_keys (db w1')" by blast
  from finalized_were_published [OF r libraries start here(2) row(4)] obtain w4 where
    w4: "w4 \<in> set ?ws" "(repo_id row, as_bytes (up_oid rq)) \<in> object_keys (db w4)" by blast
  from object_key_mapped [OF ok [OF w4(1)] w4(2)] here(1) w4(1) row(1-3) show ?thesis
    unfolding published_in_def by (fastforce simp: as_bytes_inject)
qed

section \<open>The transfer process\<close>

text \<open>\<open>run_transfer_protocol\<close> over \<open>HttpBackend\<close>: whenever the backend returns success, a run of \<open>upload\<close> or \<open>download\<close> with \<open>n\<close> workers did so, and a
  downloaded file has the content of that run.  The network is in the state that the upload left, and the service never goes back.\<close>

definition backed_by ::
  "'n client_deps \<Rightarrow> nat \<Rightarrow> ('b \<Rightarrow> 'n client) \<Rightarrow> ('b \<Rightarrow> string \<Rightarrow> bytes option) \<Rightarrow> ('n \<Rightarrow> ('s, 'j) world list) \<Rightarrow> 'b transfer_backend \<Rightarrow> bool" where
  "backed_by C n client_of files history B \<longleftrightarrow>
     (\<forall>rq b x b'. backend_upload B rq b = (x, b') \<longrightarrow> prefix (history (net (client_of b))) (history (net (client_of b')))
        \<and> (\<forall>sz. x = Inr sz \<longrightarrow> (\<exists>js w'. uploads C n rq (client_of b) (Inr sz) js w' \<and> net (client_of b') = net w')))
     \<and> (\<forall>rq b x b'. backend_download B rq b = (x, b') \<longrightarrow> prefix (history (net (client_of b))) (history (net (client_of b')))
        \<and> (\<forall>res. x = Inr res \<longrightarrow> (\<exists>content. downloads C n rq (client_of b) (Inr res) content \<and> files b' (result_path res) = Some content)))"

lemma backed_byD:
  assumes "backed_by C n client_of files history B"
  shows "backend_upload B rq b = (x, b') \<Longrightarrow> prefix (history (net (client_of b))) (history (net (client_of b')))"
    "backend_download B drq b = (y, b') \<Longrightarrow> prefix (history (net (client_of b))) (history (net (client_of b')))"
    "backend_upload B rq b = (Inr sz, b') \<Longrightarrow> \<exists>js w'. uploads C n rq (client_of b) (Inr sz) js w' \<and> net (client_of b') = net w'"
    "backend_download B drq b = (Inr res, b') \<Longrightarrow> \<exists>content. downloads C n drq (client_of b) (Inr res) content \<and> files b' (result_path res) = Some content"
  using assms unfolding backed_by_def by simp_all

definition decoded :: "(string \<Rightarrow> string + input_message) \<Rightarrow> (string + string) list \<Rightarrow> input_message \<Rightarrow> bool" where
  "decoded decode lines m \<longleftrightarrow> (\<exists>t. Inr t \<in> set lines \<and> decode t = Inr m)"

lemma decoded_Cons: "decoded decode (line # lines) m \<longleftrightarrow> (\<exists>t. line = Inr t \<and> decode t = Inr m) \<or> decoded decode lines m"
  by (auto simp: decoded_def)

text \<open>What a completion without an error claims, for given meanings of uploads and downloads.\<close>

fun true_completion :: "(upload_request \<Rightarrow> bool) \<Rightarrow> (download_request \<Rightarrow> string \<Rightarrow> bool) \<Rightarrow> output_message \<Rightarrow> bool" where
  "true_completion up down (Complete oid None None) \<longleftrightarrow> (\<exists>rq. up rq \<and> up_oid rq = oid)"
| "true_completion up down (Complete oid (Some path) None) \<longleftrightarrow> (\<exists>rq. down rq path \<and> down_oid rq = oid)"
| "true_completion up down m \<longleftrightarrow> True"

text \<open>What the messages claim in the present state of the backend.\<close>

definition all_true :: "('b \<Rightarrow> output_message \<Rightarrow> bool) \<Rightarrow> 'b session \<Rightarrow> bool" where
  "all_true P s \<longleftrightarrow> (\<forall>m \<in> set (written s). P (backend s) m)"

lemma write_keeps_true:
  "(\<And>b. P b m) \<Longrightarrow> keeps (all_true P) (write_json_line m)"
  "P b m \<Longrightarrow> keeps (\<lambda>s. backend s = b \<and> all_true P s) (write_json_line m)"
  by (rule keepsI, frule write_json_line_run(1), drule write_json_line_run(2), auto simp: all_true_def)+

lemma call_backend_keeps_true:
  assumes "\<And>b r b' m. op b = (r, b') \<Longrightarrow> P b m \<Longrightarrow> P b' m"
    and "\<And>b r b'. op b = (r, b') \<Longrightarrow> keeps (\<lambda>s. backend s = b' \<and> all_true P s) (f r)"
  shows "keeps (all_true P) (andthen (call_backend op) f)"
proof (rule keepsI)
  fix s r s' assume i: "all_true P s" and run: "andthen (call_backend op) f s = (r, s')"
  obtain x b where x: "op (backend s) = (x, b)" by (cases "op (backend s)")
  then have f: "f x (s\<lparr>backend := b\<rparr>) = (r, s')" using run by (simp add: andthen_def call_backend_def)
  have "all_true P (s\<lparr>backend := b\<rparr>)" using i assms(1) [OF x] by (simp add: all_true_def)
  then show "all_true P s'" using keepsD [OF assms(2) [OF x] _ f] by simp
qed

text \<open>Completions stay true when \<open>up\<close> does.\<close>

abbreviation true_completions :: "('b \<Rightarrow> upload_request \<Rightarrow> bool) \<Rightarrow> (download_request \<Rightarrow> string \<Rightarrow> bool) \<Rightarrow> 'b session \<Rightarrow> bool" where
  "true_completions up down \<equiv> all_true (\<lambda>b. true_completion (up b) down)"

lemma true_completion_mono: "(\<And>rq. up rq \<Longrightarrow> up' rq) \<Longrightarrow> true_completion up down m \<Longrightarrow> true_completion up' down m"
  by (cases "(up, down, m)" rule: true_completion.cases) auto

lemma handle_upload_true:
  assumes "\<And>b x b' q. backend_upload B u b = (x, b') \<Longrightarrow> up b q \<Longrightarrow> up b' q" and "\<And>b sz b'. backend_upload B u b = (Inr sz, b') \<Longrightarrow> up b' u"
  shows "keeps (true_completions up down) (handle_upload B u)"
  unfolding handle_upload_def emit_progress_def emit_complete_def
proof (rule call_backend_keeps_true)
  show "true_completion (up b') down m" if "backend_upload B u b = (r, b')" "true_completion (up b) down m" for b r b' m
    using that assms(1) true_completion_mono by blast
  show "keeps (\<lambda>s. backend s = b' \<and> true_completions up down s) (case r of
      Inr bytes \<Rightarrow> andthen (write_json_line (Progress (up_oid u) bytes bytes)) (\<lambda>_. write_json_line (Complete (up_oid u) None None))
    | Inl e \<Rightarrow> write_json_line (Complete (up_oid u) None (Some e)))" if "backend_upload B u b = (r, b')" for b r b'
    using that assms(2) by (fastforce intro!: keeps_intros write_keeps_true(2) split: sum.split)
qed

lemma handle_download_true:
  assumes "\<And>b x b' q. backend_download B d b = (x, b') \<Longrightarrow> up b q \<Longrightarrow> up b' q"
    and "\<And>b res b'. backend_download B d b = (Inr res, b') \<Longrightarrow> down d (result_path res)"
  shows "keeps (true_completions up down) (handle_download B d)"
  unfolding handle_download_def emit_progress_def emit_complete_def
proof (rule call_backend_keeps_true)
  show "true_completion (up b') down m" if "backend_download B d b = (r, b')" "true_completion (up b) down m" for b r b' m
    using that assms(1) true_completion_mono by blast
  show "keeps (\<lambda>s. backend s = b' \<and> true_completions up down s) (case r of
      Inr x \<Rightarrow> andthen (write_json_line (Progress (down_oid d) (bytes_transferred x) (bytes_transferred x)))
        (\<lambda>_. write_json_line (Complete (down_oid d) (Some (result_path x)) None))
    | Inl e \<Rightarrow> write_json_line (Complete (down_oid d) None (Some e)))" if "backend_download B d b = (r, b')" for b r b'
    using that assms(2) by (fastforce intro!: keeps_intros write_keeps_true(2) split: sum.split)
qed

lemma run_lines_true:
  assumes later: "\<And>rq b x b' q. backend_upload B rq b = (x, b') \<Longrightarrow> up b q \<Longrightarrow> up b' q" "\<And>rq b x b' q. backend_download B rq b = (x, b') \<Longrightarrow> up b q \<Longrightarrow> up b' q"
    and "\<And>rq b sz b'. decoded decode lines (UploadMessage rq) \<Longrightarrow> backend_upload B rq b = (Inr sz, b') \<Longrightarrow> up b' rq"
    and "\<And>rq b res b'. decoded decode lines (DownloadMessage rq) \<Longrightarrow> backend_download B rq b = (Inr res, b') \<Longrightarrow> down rq (result_path res)"
  shows "keeps (true_completions up down) (run_lines decode B i lines)"
  using assms(3,4)
proof (induction lines arbitrary: i)
  case (Cons line lines)
  note IH = Cons.IH [OF Cons.prems(1) Cons.prems(2), unfolded decoded_Cons, OF disjI2 _ disjI2]
  show ?case
  proof (cases "res_bind line decode")
    case (Inl e)
    then show ?thesis by (cases line) (auto simp: keeps_def andthen_def of_result_def)
  next
    case (Inr msg)
    then obtain t where t: "line = Inr t" "decode t = Inr msg" by (auto simp: ok_iff)
    have h: "msg = UploadMessage u \<Longrightarrow> keeps (true_completions up down) (handle_upload B u)"
      "msg = DownloadMessage d \<Longrightarrow> keeps (true_completions up down) (handle_download B d)" for u d
      using t Cons.prems later by (auto intro!: handle_upload_true handle_download_true simp: decoded_Cons)
    show ?thesis
      using t h IH by (auto simp: andthen_of_result require_initialized_def intro!: keeps_intros write_keeps_true(1) split: input_message.split)
  qed
qed (auto intro!: keeps_intros)

text \<open>
  Claim C2: what the client tells Git LFS is true.  Suppose the transfer process runs over a backend whose successes come from runs of \<open>upload\<close> and
  \<open>download\<close>, connected to a service that started in a sound state and whose history the network carries; that the actions of the upload requests lead to the
  finalization endpoints of their objects; and that calls and answers may be lost, delayed and repeated, and other clients served, at will.  Then for every completion without an error
  that the process has written:
  if it reports an upload, Git LFS had asked for it and the service, in a state it has passed through by the end of the process, held the object in the repository, with all of its chunks stored and
  with content of the SHA-256 that Git LFS asked for;
  if it reports a download, Git LFS had asked for it and the named file had the requested SHA-256 and size when it was handed over.
\<close>

theorem reported_transfers_are_true:
  assumes backend: "backed_by C n client_of files history B" "0 < n" and net: "connected C extract S U w0 history"
    and endpoints: "\<And>rq. decoded decode lines (UploadMessage rq) \<Longrightarrow> leads_to_finalization C extract S owner repository rq"
    and libraries: "object_store (deps S) contents" "json_roundtrip (deps S)" "inj_on (blake3 (deps S)) U" "cdc_reports_errors (deps S)"
    and start: "upload_ok (deps S) contents U w0" "finalized_keys (db w0) \<subseteq> object_keys (db w0)"
    and run: "run_transfer_protocol decode B lines \<lparr>backend = b0, written = [], write_script = ws\<rparr> = (res, s)"
    and complete: "Complete oid path None \<in> set (written s)"
  shows "case path of
      None \<Rightarrow> (\<exists>rq. decoded decode lines (UploadMessage rq) \<and> up_oid rq = oid)
        \<and> published_in S contents (history (net (client_of (backend s)))) owner repository oid
    | Some p \<Rightarrow> \<exists>rq b content. decoded decode lines (DownloadMessage rq) \<and> down_oid rq = oid
        \<and> files b p = Some content \<and> sha256 C content = oid \<and> length content = unat (down_size rq)"
proof -
  let ?up = "\<lambda>b rq. decoded decode lines (UploadMessage rq) \<and> published_in S contents (history (net (client_of b))) owner repository (up_oid rq)"
  let ?down = "\<lambda>rq p. \<exists>b content. decoded decode lines (DownloadMessage rq) \<and> files b p = Some content
    \<and> sha256 C content = down_oid rq \<and> length content = unat (down_size rq)"
  note B = backed_byD [OF backend(1)]
  have up: "?up b' rq" if d: "decoded decode lines (UploadMessage rq)" and s: "backend_upload B rq b = (Inr sz, b')" for rq b sz b'
    using B(3) [OF s] d reported_upload_was_published [OF _ net endpoints [OF d] libraries start] by metis
  have down: "?down rq (result_path res)" if "decoded decode lines (DownloadMessage rq)" and s: "backend_download B rq b = (Inr res, b')" for rq b res b'
    using B(4) [OF s] that(1) backend(2) downloaded_content by metis
  have "keeps (true_completions ?up ?down) (run_lines decode B False lines)"
    by (rule run_lines_true) (fact up down | blast intro: published_in_later B(1,2))+
  from keepsD [OF this _ run [unfolded run_transfer_protocol_def]] have "\<forall>m \<in> set (written s). true_completion (?up (backend s)) ?down m"
    by (simp add: all_true_def)
  then show ?thesis using complete by (cases path) fastforce+
qed

section \<open>Witnesses\<close>

definition demo_route :: "http_call \<Rightarrow> request option" where
  "demo_route c = (if hc_method c = Post \<and> hc_body c = NoBody then Some (FinalizeCdc ''o'' ''r'' demo_oid_text 11 demo_headers) else None)"

text \<open>The service before the request: one more request is in flight than counted.\<close>

definition demo_before :: "(mem_store, object_manifest) world" where
  "demo_before = demo_world demo_uploading\<lparr>metrics := zero_metrics\<lparr>in_flight := - 1\<rparr>\<rparr>"

lemma demo_before_ok: "upload_ok demo_deps mem_contents {replicate 32 9} demo_before"
proof -
  have "objects demo_uploading = []" by (simp add: demo_databases)
  then show ?thesis using demo_catalog(2) by (simp add: demo_before_def upload_ok_def system_ok_def store_clean_def demo_stored quiet_def)
qed

text \<open>A network whose state is the number of requests the service has served: it hands a finalization to the service in its present state and answers with
  what the service returns.  The other calls of the client go to another host, which accepts every chunk and has the content.\<close>

definition demo_finalization :: request where
  "demo_finalization = FinalizeCdc ''o'' ''r'' demo_oid_text 11 demo_headers"

definition demo_state :: "nat \<Rightarrow> (mem_store, object_manifest) world" where
  "demo_state n = (perform demo_deployment (Http demo_finalization) ^^ n) demo_before"

definition demo_network :: "http_call \<Rightarrow> nat \<Rightarrow> (string + http_answer) \<times> nat" where
  "demo_network c n =
     (case demo_route c of
        Some rq \<Rightarrow> (case fst (serve demo_deps demo_app rq (demo_state n)) of
            Inr r \<Rightarrow> (Inr (demo_answer (response_code r) []), Suc n)
          | Inl e \<Rightarrow> (Inr (demo_answer 500 []), Suc n))
      | None \<Rightarrow> (Inr (demo_answer 200 (if hc_method c = Get then replicate 32 9 else [0])), n))"

definition demo_history :: "nat \<Rightarrow> (mem_store, object_manifest) world list" where
  "demo_history n = map demo_state [0..<Suc n]"

lemma demo_history_Suc: "demo_history (Suc n) = demo_history n @ [perform demo_deployment (Http demo_finalization) (demo_state n)]"
  "last (demo_history n) = demo_state n"
  by (simp_all add: demo_history_def demo_state_def)

lemma demo_history_run: "deployment_run demo_deployment {replicate 32 9} demo_before (demo_history n)"
proof (induction n)
  case 0
  then show ?case by (simp add: demo_history_def demo_state_def begins)
next
  case (Suc n)
  from performs [OF Suc, of "Http demo_finalization"] show ?case by (simp add: demo_history_Suc demo_finalization_def)
qed

lemma demo_connected: "connected (client_over demo_network) demo_route demo_deployment {replicate 32 9} demo_before demo_history"
  unfolding connected_def
proof (intro conjI allI impI)
  show "deployment_run demo_deployment {replicate 32 9} demo_before (demo_history n)" for n by (rule demo_history_run)
  fix c n x n' assume "cl_send (client_over demo_network) c n = (x, n')"
  then have s: "demo_network c n = (x, n')" by simp
  show "\<exists>since. demo_history n' = demo_history n @ since \<and> (\<forall>rq a. demo_route c = Some rq \<longrightarrow> x = Inr a \<longrightarrow> is_success (ha_status a) \<longrightarrow>
      (\<exists>before w after r. since = before @ w # after \<and> serve (deps demo_deployment) (app demo_deployment) rq (last (demo_history n @ before)) = (Inr r, w)))"
  proof (cases "demo_route c")
    case None
    then show ?thesis using s by (simp add: demo_network_def)
  next
    case (Some rq)
    then have rq: "rq = demo_finalization" by (auto simp: demo_route_def demo_finalization_def split: if_splits)
    obtain r w where w: "serve demo_deps demo_app rq (demo_state n) = (r, w)" by (cases "serve demo_deps demo_app rq (demo_state n)")
    then have n': "n' = Suc n" and x: "x = Inr (demo_answer (case r of Inl e \<Rightarrow> 500 | Inr y \<Rightarrow> response_code y) [])"
      using s Some by (auto simp: demo_network_def split: sum.splits)
    have "demo_history n' = demo_history n @ [w]" using w rq n' by (simp add: demo_history_Suc)
    moreover have "\<exists>y. r = Inr y" if "x = Inr a" "is_success (ha_status a)" for a
      using that x by (cases r) (auto simp: demo_answer_def is_success_def)
    ultimately show ?thesis using w Some
      by (intro exI [of _ "[w]"] conjI) (auto simp: demo_history_Suc intro!: exI [of _ "[]"])
  qed
qed

lemma demo_served: "\<exists>w'. serve demo_deps demo_app demo_finalization demo_before = (Inr (Status 204), w')"
proof -
  have w: "demo_before\<lparr>metrics := (metrics demo_before)\<lparr>in_flight := in_flight (metrics demo_before) + 1\<rparr>\<rparr> = demo_world demo_uploading"
    by (simp add: demo_before_def demo_world_def fresh_world_def zero_metrics_def)
  from demo_finalize obtain w' where "finalize_cdc demo_deps demo_app ''o'' ''r'' demo_oid_text 11 demo_headers (demo_world demo_uploading) = (Inr 204, w')" by blast
  then show ?thesis
    unfolding serve_def record_http_metrics_def w demo_finalization_def by (simp add: answer_def andthen_def ret_def Let_def)
qed

lemma demo_network_answers:
  "hc_method c = Post \<Longrightarrow> hc_body c \<noteq> NoBody \<Longrightarrow> demo_network c 0 = (Inr (demo_answer 200 [0]), 0)"
  "hc_method c = Put \<Longrightarrow> demo_network c 0 = (Inr (demo_answer 200 [0]), 0)"
  "hc_method c = Post \<Longrightarrow> hc_body c = NoBody \<Longrightarrow> demo_network c 0 = (Inr (demo_answer 204 []), 1)"
  "hc_method c = Get \<Longrightarrow> demo_network c n = (Inr (demo_answer 200 (replicate 32 9)), n)"
  using demo_served by (auto simp: demo_network_def demo_route_def demo_state_def demo_finalization_def)

text \<open>A process that uploads and then downloads an object of one chunk.\<close>

definition demo_process :: "bool transfer_backend" where
  "demo_process = \<lparr>
     backend_upload = (\<lambda>rq b. if rq = demo_request \<and> \<not> b then (Inr 32, True) else (Inl (failure ''down''), b)),
     backend_download = (\<lambda>rq b. if rq = demo_download \<and> b then (Inr \<lparr>result_path = ''t'', bytes_transferred = 32\<rparr>, b) else (Inl (failure ''down''), b))\<rparr>"

definition demo_clients :: "bool \<Rightarrow> nat client" where
  "demo_clients b = (if b then demo_client 1 else demo_sender 0)"

definition demo_files :: "bool \<Rightarrow> string \<Rightarrow> bytes option" where
  "demo_files b = [''t'' \<mapsto> replicate 32 9]"

definition demo_messages :: "string \<Rightarrow> string + input_message" where
  "demo_messages t = (if t = ''i'' then Inr (Init ''upload'' ''origin'' True 3) else if t = ''u'' then Inr (UploadMessage demo_request)
     else if t = ''d'' then Inr (DownloadMessage demo_download) else Inr Terminate)"

lemma demo_backed: "backed_by (client_over demo_network) 1 demo_clients demo_files demo_history demo_process"
proof -
  have up: "\<exists>w'. uploads (client_over demo_network) 1 demo_request (demo_sender 0) (Inr 32) [(0, replicate 32 9)] w' \<and> net w' = 1"
    using demo_uploads_over [of demo_network 0 0 0 "demo_answer 200 [0]" 0 0 "demo_answer 204 []" 1]
    by (simp add: demo_network_answers) (simp add: demo_answer_def is_success_def)
  have down: "downloads (client_over demo_network) 1 demo_download (demo_client 1) (Inr \<lparr>result_path = ''t'', bytes_transferred = 32\<rparr>) (replicate 32 9)"
    by (rule demo_downloads_over) (simp add: demo_network_answers)
  have nets: "net (demo_clients b) = (if b then 1 else 0)" for b by (simp add: demo_clients_def demo_client_def demo_sender_def)
  have grows: "prefix (demo_history 0) (demo_history 1)" using demo_history_Suc(1) [of 0] by simp
  show ?thesis
    using up down grows
    by (auto simp: backed_by_def demo_process_def demo_files_def nets split: if_splits) (auto simp: demo_clients_def intro!: exI)
qed

lemma demo_process_run:
  "run_transfer_protocol demo_messages demo_process [Inr ''i'', Inr ''u'', Inr ''d'', Inr ''q''] \<lparr>backend = False, written = [], write_script = []\<rparr>
   = (Inr (), \<lparr>backend = True, written = [Acknowledge, Progress (digest_fill 9) 32 32, Complete (digest_fill 9) None None,
        Progress (digest_fill 9) 32 32, Complete (digest_fill 9) (Some ''t'') None], write_script = []\<rparr>)"
  by (simp add: run_transfer_protocol_def demo_messages_def andthen_of_result require_initialized_def andthen_def ret_def write_json_line_def
      handle_upload_def handle_download_def call_backend_def demo_process_def emit_progress_def emit_complete_def demo_request_def demo_download_def)

theorem reported_transfers_are_true_witness:
  "published_in demo_deployment mem_contents (demo_history 1) ''o'' ''r'' (digest_fill 9)
   \<and> (\<exists>b content. demo_files b ''t'' = Some content \<and> sha256 (client_over demo_network) content = digest_fill 9)"
proof -
  let ?lines = "[Inr ''i'', Inr ''u'', Inr ''d'', Inr ''q''] :: (string + string) list"
  have keys: "finalized_keys (db demo_before) \<subseteq> object_keys (db demo_before)"
    by (auto simp: finalized_keys_def demo_before_def demo_databases demo_session_def)
  have ends: "leads_to_finalization (client_over demo_network) demo_route demo_deployment ''o'' ''r'' rq" if "decoded demo_messages ?lines (UploadMessage rq)" for rq
  proof -
    have "rq = demo_request" using that by (auto simp: decoded_def demo_messages_def split: if_splits)
    then show ?thesis by (simp add: leads_to_finalization_def demo_route_def authorized_def demo_request_def)
  qed
  have libs: "object_store (deps demo_deployment) mem_contents" "json_roundtrip (deps demo_deployment)"
    "inj_on (blake3 (deps demo_deployment)) {replicate 32 9}" "cdc_reports_errors (deps demo_deployment)"
    "upload_ok (deps demo_deployment) mem_contents {replicate 32 9} demo_before"
    using demo.object_store_axioms demo_json demo_errors demo_before_ok by simp_all
  note claim = reported_transfers_are_true [OF demo_backed zero_less_one demo_connected ends libs keys demo_process_run]
  have "net (demo_clients True) = 1" by (simp add: demo_clients_def demo_client_def)
  then show ?thesis using claim [of "digest_fill 9" None] claim [of "digest_fill 9" "Some ''t''"] by auto
qed

end
