(* ===== verification/Responses.thy ===== *)
theory Responses
  imports System
begin

text \<open>
  How results are rendered (\<open>IntoResponse for ApiError\<close> of \<open>lib.rs\<close>) and which results there are.  The theorem is the type of the service: every request
  is answered by a response of its own kind or by an error with one of the intended statuses, and an error that is the server's fault carries one of eight fixed texts, so
  that nothing about the database, the provider or the file system reaches a client.
\<close>

section \<open>Rendering of errors\<close>

record error_response =
  er_status :: nat
  er_content_type :: string
  er_message :: string

definition LFS_MEDIA_TYPE :: string where
  "LFS_MEDIA_TYPE = ''application/vnd.git-lfs+json''"

text \<open>The JSON body has the single field \<open>message\<close>.\<close>

definition into_response :: "api_error \<Rightarrow> error_response" where
  "into_response e = \<lparr>er_status = status e, er_content_type = LFS_MEDIA_TYPE, er_message = message e\<rparr>"

section \<open>Errors of the handlers\<close>

definition internal_errors :: "(nat \<times> string) list" where
  "internal_errors = [(500, ''internal service error''), (500, ''internal I/O error''), (500, ''object storage error''),
     (500, ''chunk producer failed''), (500, ''stored object failed integrity validation''), (500, ''invalid base URL''),
     (502, ''authentication provider unavailable''), (503, ''server is shutting down'')]"

definition proper :: "api_error set" where
  "proper = {e. status e \<in> {400, 401, 403, 404, 406, 409, 413, 422} \<or> (status e, message e) \<in> set internal_errors}"

lemma proper_new [simp]: "api_error_new s m \<in> proper \<longleftrightarrow> s \<in> {400, 401, 403, 404, 406, 409, 413, 422} \<or> (s, m) \<in> set internal_errors"
  by (simp add: proper_def api_error_new_def)

lemma storage_errors_proper [simp]: "storage_api_error D se \<in> proper" "missing_chunks D' se \<in> proper"
proof -
  show s: "storage_api_error D se \<in> proper" for D :: "('a, 'b) storage_deps_scheme" by (cases se) (simp_all add: internal_errors_def)
  show "missing_chunks D' se \<in> proper" using s by (auto simp: missing_chunks_def split: storage_error.split os_error.split)
qed

lemma proper_named [simp]:
  "unauthorized \<in> proper" "authentication_error t \<in> proper" "database_error e \<in> proper" "io_error u \<in> proper" "join_error u \<in> proper"
  "integrity t \<in> proper" "different_manifest \<in> proper" "object_too_large \<in> proper" "unprocessable ce \<in> proper" "lock_not_found \<in> proper"
  by (simp_all add: unauthorized_def authentication_error_def database_error_def io_error_def join_error_def integrity_def
      different_manifest_def object_too_large_def unprocessable_def lock_not_found_def internal_errors_def)

lemma create_lock_error_proper [simp]: "create_lock_error e \<in> proper"
  by (cases e) (simp_all add: create_lock_error_def)

lemma errs_in_effects [errs_intros]:
  "errs_in S (bump f)" "errs_in S instant_now" "errs_in S (get_world g)" "errs_in S (set_world h)" "errs_in proper file_io" "errs_in proper join_blocking"
  "errs_in proper acquire_permit"
  by (auto simp: errs_in_def bump_def instant_now_def get_world_def set_world_def file_io_def join_blocking_def acquire_permit_def internal_errors_def
      split: list.splits if_splits)

lemma errs_in_query_proper [errs_intros]: "errs_in proper (query_tx st)" "errs_in proper (query_pool st')"
  by (rule errs_in_query, simp)+

lemma parse_oid_proper: "parse_oid D t = Inl e \<Longrightarrow> e \<in> proper"
  by (auto simp: parse_oid_def map_err_def split: sum.splits)

lemma errs_in_conversions [errs_intros]:
  "e \<in> S \<Longrightarrow> errs_in S (of_result (ok_or e x))" "(\<And>y. f y \<in> S) \<Longrightarrow> errs_in S (of_result (map_err f r))"
  by (auto simp: errs_in_def of_result_def ok_or_def map_err_def split: option.splits sum.splits)

lemma errs_in_cases [errs_intros]:
  "(x = None \<Longrightarrow> errs_in S m) \<Longrightarrow> (\<And>y. x = Some y \<Longrightarrow> errs_in S (f y)) \<Longrightarrow> errs_in S (case x of None \<Rightarrow> m | Some y \<Rightarrow> f y)"
  "(\<And>a b. p = (a, b) \<Longrightarrow> errs_in S (g a b)) \<Longrightarrow> errs_in S (case p of (a, b) \<Rightarrow> g a b)"
  by (cases x; simp) (cases p; simp)

lemma parse_oid_errs [errs_intros]: "errs_in proper (of_result (parse_oid D t))"
  unfolding parse_oid_def by (rule errs_intros) simp

lemma retain_fresh_errs [errs_intros]: "errs_in S (retain_fresh es)"
  by (induction es) (auto intro!: errs_intros)

lemma forgejo_errs [errs_intros]: "errs_in S (set_cache es)" "errs_in S (get_user u c)" "errs_in S (get_repo u c)"
  by (simp_all add: errs_in_def set_cache_def set_world_def get_user_def get_repo_def Let_def)

lemma cache_errs [errs_intros]: "errs_in S (cache_lookup c k)" "errs_in S (cache_store ttl n k i)"
  unfolding cache_lookup_def cache_store_def by (intro errs_intros)+

lemma forgejo_answers_proper [errs_intros]: "errs_in proper (of_result (user_login r))" "errs_in proper (of_result (repo_permissions p))"
  by (auto simp: errs_in_def of_result_def user_login_def repo_permissions_def map_err_def internal_errors_def split: sum.splits if_splits)

lemma authenticate_proper [errs_intros]: "errs_in proper (authenticate D A hs ow rp a)"
  unfolding authenticate_def authenticate_forgejo_def authenticate_oidc_def ask_forgejo_def Let_def
  by (auto intro!: errs_intros simp: internal_errors_def split: authentication.split access.split)

lemma staged_errs [errs_intros]: "errs_in S (staged_reader b)"
  by (auto simp: errs_in_def staged_reader_def split: list.splits)

lemma upload_parts_proper [errs_intros]:
  "errs_in proper (repository_id ow rp)" "errs_in proper (load_open_upload D r oid u)" "errs_in proper (load_finalizable_upload D r oid u)"
  "errs_in proper (ensure_upload_session D i r m)" "errs_in proper (register_and_store_chunk D r u c b)" "errs_in proper (publish_manifest D r u m)"
  "errs_in proper (read_chunk D (storage_api_error D) r c)" "errs_in proper (read_chunk D (missing_chunks D) r c)" "errs_in proper (reopen_staged b)"
  unfolding repository_id_def load_open_upload_def load_finalizable_upload_def ensure_upload_session_def register_and_store_chunk_def publish_manifest_def
    publish_body_def link_chunk_def read_chunk_def reopen_staged_def
  by (auto intro!: errs_intros split: prod.split)

lemma upload_handlers_proper [errs_intros]:
  "errs_in proper (begin_cdc D A ow rp oid hs rq i)" "errs_in proper (upload_cdc_chunk D A ow rp oid u k hs b)" "errs_in proper (finalize_cdc D A ow rp oid u hs)"
  "errs_in proper (upload_basic D A ow rp oid hs body i)"
  unfolding begin_cdc_def upload_cdc_chunk_def finalize_cdc_def upload_basic_def read_all_def missing_step_def
  by (auto intro!: errs_intros split: prod.split)

lemma action_proper: "authorized_action D A ow rp oid t ident = Inl e \<Longrightarrow> e \<in> proper"
  by (auto simp: authorized_action_def action_url_def ok_or_def internal_errors_def split: option.splits)

lemma batch_step_proper [errs_intros]: "errs_in proper (batch_step D A ow rp op tr ident repo ob acc)"
proof -
  have "(case (op, x) of (Upload, False) \<Rightarrow> res_bind (authorized_action D A ow rp (bo_oid ob) tr ident) (\<lambda>a. Inr ([(''upload'', a)], None))
       | (Download, True) \<Rightarrow> res_bind (authorized_action D A ow rp (bo_oid ob) tr ident) (\<lambda>a. Inr ([(''download'', a)], None))
       | (Download, False) \<Rightarrow> Inr ([], Some (404, ''object not found''))
       | (Upload, True) \<Rightarrow> Inr ([], None)) = Inl e \<Longrightarrow> e \<in> proper" for x e
    by (cases op; cases x) (auto simp: res_bind_def split: sum.splits dest: action_proper)
  then show ?thesis unfolding batch_step_def by (intro errs_intros)
qed

lemma read_handlers_proper [errs_intros]:
  "errs_in proper (download_basic D A ow rp oid hs)" "errs_in proper (download_cdc_manifest D A ow rp oid hs)"
  "errs_in proper (download_cdc_chunk D A ow rp oid k hs)" "errs_in proper (batch D A ow rp hs b)" "errs_in proper (readiness D probe)"
  unfolding download_basic_def download_cdc_manifest_def download_cdc_chunk_def batch_def readiness_def load_manifest_def stage_chunks_def
  by (auto intro!: errs_intros)

lemma lock_handlers_proper [errs_intros]:
  "errs_in proper (create_lock D A ow rp hs p i)" "errs_in proper (list_locks D A ow rp q hs)" "errs_in proper (verify_locks D A ow rp hs v)"
  "errs_in proper (unlock D A ow rp i hs f)"
  unfolding create_lock_def list_locks_def verify_locks_def unlock_def load_locks_page_def Let_def
  by (auto intro!: errs_intros simp: validate_lock_path_def split: if_splits prod.split)

section \<open>Kinds of responses\<close>

text \<open>\<open>returns S m\<close>: whenever the action succeeds, its value is in \<open>S\<close>.\<close>

definition returns :: "'a set \<Rightarrow> ('w, 'e, 'a) action \<Rightarrow> bool" where
  "returns S m \<longleftrightarrow> (\<forall>w x w'. m w = (Inr x, w') \<longrightarrow> x \<in> S)"

lemma returnsD: "returns S m \<Longrightarrow> m w = (Inr x, w') \<Longrightarrow> x \<in> S"
  by (auto simp: returns_def)

lemma returns_andthen: "(\<And>x. returns S (f x)) \<Longrightarrow> returns S (andthen m f)"
  by (auto simp: returns_def andthen_def split: prod.splits sum.splits)

lemma returns_basic: "x \<in> S \<Longrightarrow> returns S (ret x)" "returns S (fail e)"
  by (auto simp: returns_def ret_def fail_def)

lemma returns_cases:
  "returns S m \<Longrightarrow> returns S m' \<Longrightarrow> returns S (if b then m else m')" "(\<And>a b. returns S (g a b)) \<Longrightarrow> returns S (case p of (a, b) \<Rightarrow> g a b)"
  by (auto split: prod.split)

lemmas returns_intros = returns_andthen returns_basic returns_cases

lemma status_handlers:
  "returns {204} (upload_basic D A ow rp oid hs body i)" "returns {204} (upload_cdc_chunk D A ow rp oid u k hs b)"
  "returns {204} (finalize_cdc D A ow rp oid u hs)" "returns {204} (readiness D probe)"
  unfolding upload_basic_def upload_cdc_chunk_def finalize_cdc_def readiness_def by (intro returns_intros; simp)+

text \<open>The response that answers a request.\<close>

fun fits :: "request \<Rightarrow> response \<Rightarrow> bool" where
  "fits (Batch ow rp hs b) r \<longleftrightarrow> (\<exists>x. r = BatchAnswer x)"
| "fits (DownloadBasic ow rp oid hs) r \<longleftrightarrow> (\<exists>x. r = ObjectBody x)"
| "fits (BeginCdc ow rp oid hs rq i) r \<longleftrightarrow> (\<exists>x. r = UploadPlan x)"
| "fits (DownloadManifest ow rp oid hs) r \<longleftrightarrow> (\<exists>x. r = ManifestBody x)"
| "fits (DownloadChunk ow rp oid k hs) r \<longleftrightarrow> (\<exists>x. r = ChunkBody x)"
| "fits (CreateLock ow rp hs p i) r \<longleftrightarrow> (\<exists>x. r = LockCreated x)"
| "fits (ListLocks ow rp q hs) r \<longleftrightarrow> (\<exists>x. r = LockPage x)"
| "fits (VerifyLocks ow rp hs v) r \<longleftrightarrow> (\<exists>x. r = LockCheck x)"
| "fits (Unlock ow rp i hs f) r \<longleftrightarrow> (\<exists>x. r = LockReleased x)"
| "fits Metrics r \<longleftrightarrow> (\<exists>x. r = MetricsText x)"
| "fits rq r \<longleftrightarrow> r = Status 204"

lemma returns_answer: "returns S m \<Longrightarrow> f ` S \<subseteq> T \<Longrightarrow> returns T (answer f m)"
  by (fastforce simp: returns_def answer_def andthen_def ret_def split: prod.splits sum.splits)

lemma returns_any: "returns UNIV m"
  by (simp add: returns_def)

lemma returns_kind: "returns {204} m \<Longrightarrow> returns {Status 204} (answer Status m)" "returns {r. \<exists>x. r = f x} (answer f m')"
  by (erule returns_answer; simp) (rule returns_answer [OF returns_any]; auto)

lemma route_replies: "returns {r. fits rq r} (route D A rq)"
  by (cases rq) (simp_all add: returns_basic returns_kind status_handlers)

lemma route_errors: "errs_in proper (route D A rq)"
  by (cases rq) (auto simp: answer_def intro!: errs_intros)

text \<open>
  Claim C7: the type of the service.  Whatever the database, the provider, the authentication service and the file system do, every request is answered
  by the response that belongs to it with a 2xx status, or by an error document in the Git LFS media type whose status is one of the intended ones; an error of
  the server (5xx) carries one of eight fixed texts.
\<close>

theorem responses_well_typed:
  assumes "serve D A rq w = (r, w')"
  shows "case r of
      Inr x \<Rightarrow> fits rq x \<and> response_code x \<in> {200, 201, 204}
    | Inl e \<Rightarrow> er_content_type (into_response e) = ''application/vnd.git-lfs+json''
        \<and> (er_status (into_response e) \<in> {400, 401, 403, 404, 406, 409, 413, 422}
           \<or> (er_status (into_response e), er_message (into_response e)) \<in> set internal_errors)"
proof -
  from assms obtain w1 w2 where run: "route D A rq w1 = (r, w2)"
    by (auto simp: serve_def record_http_metrics_def Let_def split: prod.splits)
  show ?thesis
  proof (cases r)
    case (Inl e)
    have "e \<in> proper" using errs_inD [OF route_errors run [unfolded Inl]] .
    then show ?thesis using Inl by (simp add: proper_def into_response_def LFS_MEDIA_TYPE_def)
  next
    case (Inr x)
    have "fits rq x" using returnsD [OF route_replies run [unfolded Inr]] by simp
    then show ?thesis using Inr by (cases rq) auto
  qed
qed

theorem responses_well_typed_witness:
  "\<exists>w'. serve demo_deps demo_app (DownloadChunk ''o'' ''r'' ''zz'' 0 []) (demo_world demo_published) = (Inl unauthorized, w')
     \<and> er_status (into_response unauthorized) \<in> {400, 401, 403, 404, 406, 409, 413, 422}"
proof -
  let ?rq = "DownloadChunk ''o'' ''r'' ''zz'' 0 []"
  have "fst (serve demo_deps demo_app ?rq (demo_world demo_published)) = Inl unauthorized"
    by (simp add: serve_def record_http_metrics_def answer_def download_cdc_chunk_def authenticate_def authorization_value_def acquire_permit_def
        andthen_def of_result_def ok_or_def Let_def)
  then obtain w' where run: "serve demo_deps demo_app ?rq (demo_world demo_published) = (Inl unauthorized, w')" by (metis prod.collapse)
  from responses_well_typed [OF this] run show ?thesis by (auto simp: into_response_def unauthorized_def api_error_new_def internal_errors_def)
qed

end
