(* ===== verification/Utf8.thy ===== *)
theory Utf8
  imports Prelude
begin

text \<open>
  The parts of Rust's \<open>str\<close> and \<open>env\<close> that the reachability scan, the server's entry point and the client use.  A text is the list of its UTF-8 bytes, each written as a character.
\<close>

section \<open>Operations on texts\<close>

text \<open>\<open>str::from_utf8\<close>: the well-formed byte sequences.\<close>

definition continuation :: "byte \<Rightarrow> bool" where
  "continuation b \<longleftrightarrow> 128 \<le> b \<and> b \<le> 191"

fun utf8_ok :: "bytes \<Rightarrow> bool" where
  "utf8_ok [] = True"
| "utf8_ok (a # rest) =
     (if a < 128 then utf8_ok rest
      else (case rest of
        [] \<Rightarrow> False
      | b # rest \<Rightarrow>
          if 194 \<le> a \<and> a \<le> 223 then continuation b \<and> utf8_ok rest
          else (case rest of
            [] \<Rightarrow> False
          | c # rest \<Rightarrow>
              if 224 \<le> a \<and> a \<le> 239 then
                continuation b \<and> (a = 224 \<longrightarrow> 160 \<le> b) \<and> (a = 237 \<longrightarrow> b \<le> 159) \<and> continuation c \<and> utf8_ok rest
              else (case rest of
                [] \<Rightarrow> False
              | d # rest \<Rightarrow>
                  240 \<le> a \<and> a \<le> 244 \<and> continuation b \<and> (a = 240 \<longrightarrow> 144 \<le> b) \<and> (a = 244 \<longrightarrow> b \<le> 143)
                  \<and> continuation c \<and> continuation d \<and> utf8_ok rest))))"

definition text_of :: "bytes \<Rightarrow> string" where
  "text_of bs = map (\<lambda>b. char_of (unat b)) bs"

definition newline :: char where
  "newline = CHR 0x0A"

definition strip_cr :: "string \<Rightarrow> string" where
  "strip_cr s = (if s \<noteq> [] \<and> last s = CHR 0x0D then butlast s else s)"

text \<open>\<open>str::lines\<close>: a carriage return belongs to the line end only before a line feed.\<close>

fun lines_from :: "string \<Rightarrow> string \<Rightarrow> string list" where
  "lines_from cur [] = (if cur = [] then [] else [cur])"
| "lines_from cur (c # cs) = (if c = newline then strip_cr cur # lines_from [] cs else lines_from (cur @ [c]) cs)"

definition str_lines :: "string \<Rightarrow> string list" where
  "str_lines s = lines_from [] s"

text \<open>The characters with the Unicode property \<open>White_Space\<close>, in UTF-8.  No encoding occurs inside another character, so that texts can be matched by bytes.\<close>

definition white_spaces :: "string list" where
  "white_spaces = map (\<lambda>c. [c]) [CHR '' '', CHR 0x09, CHR 0x0A, CHR 0x0B, CHR 0x0C, CHR 0x0D] @ [
    [CHR 0xC2, CHR 0x85], [CHR 0xC2, CHR 0xA0], [CHR 0xE1, CHR 0x9A, CHR 0x80], [CHR 0xE2, CHR 0x80, CHR 0x80],
    [CHR 0xE2, CHR 0x80, CHR 0x81], [CHR 0xE2, CHR 0x80, CHR 0x82], [CHR 0xE2, CHR 0x80, CHR 0x83], [CHR 0xE2, CHR 0x80, CHR 0x84],
    [CHR 0xE2, CHR 0x80, CHR 0x85], [CHR 0xE2, CHR 0x80, CHR 0x86], [CHR 0xE2, CHR 0x80, CHR 0x87], [CHR 0xE2, CHR 0x80, CHR 0x88],
    [CHR 0xE2, CHR 0x80, CHR 0x89], [CHR 0xE2, CHR 0x80, CHR 0x8A], [CHR 0xE2, CHR 0x80, CHR 0xA8], [CHR 0xE2, CHR 0x80, CHR 0xA9],
    [CHR 0xE2, CHR 0x80, CHR 0xAF], [CHR 0xE2, CHR 0x81, CHR 0x9F], [CHR 0xE3, CHR 0x80, CHR 0x80]]"

text \<open>The length of the pattern that the text begins with, zero if there is none.\<close>

definition matched :: "string list \<Rightarrow> string \<Rightarrow> nat" where
  "matched ps s = (case find (\<lambda>p. p \<noteq> [] \<and> take (length p) s = p) ps of None \<Rightarrow> 0 | Some p \<Rightarrow> length p)"

lemma matched_shorter: "matched ps s \<noteq> 0 \<Longrightarrow> length (drop (matched ps s) s) < length s"
  by (cases s) (auto simp: matched_def split: option.splits dest!: find_SomeD)

function trim_start :: "string list \<Rightarrow> string \<Rightarrow> string" where
  "trim_start ps s = (if matched ps s = 0 then s else trim_start ps (drop (matched ps s) s))"
  by pat_completeness auto
termination by (relation "measure (length \<circ> snd)") (use matched_shorter in auto)

declare trim_start.simps [simp del]

definition trim :: "string \<Rightarrow> string" where
  "trim s = rev (trim_start (map rev white_spaces) (rev (trim_start white_spaces s)))"

definition blank :: "string \<Rightarrow> bool" where
  "blank s \<longleftrightarrow> trim s = []"

fun word_of :: "string \<Rightarrow> string" where
  "word_of [] = []"
| "word_of (c # cs) = (if matched white_spaces (c # cs) \<noteq> 0 then [] else c # word_of cs)"

text \<open>\<open>split_whitespace().nth(1)\<close>.\<close>

definition second_word :: "string \<Rightarrow> string option" where
  "second_word s =
     (let t = trim_start white_spaces s; word = word_of (trim_start white_spaces (drop (length (word_of t)) t))
      in if word = [] then None else Some word)"

section \<open>Environment variables\<close>

datatype variable = NotPresent | NotUnicode string | Present string

text \<open>The \<open>Display\<close> text of the error of \<open>str::parse\<close> at 64 bits.\<close>

fun digits_error :: "nat \<Rightarrow> string \<Rightarrow> string" where
  "digits_error n [] = []"
| "digits_error n (c # cs) =
     (if \<not> (48 \<le> (of_char c :: nat) \<and> (of_char c :: nat) \<le> 57) then ''invalid digit found in string''
      else if 2 ^ 64 \<le> 10 * n + (of_char c - 48) then ''number too large to fit in target type''
      else digits_error (10 * n + (of_char c - 48)) cs)"

definition parse_error :: "string \<Rightarrow> string" where
  "parse_error s =
     (if s = [] then ''cannot parse integer from empty string''
      else if s = ''+'' then ''invalid digit found in string''
      else digits_error 0 (case s of CHR ''+'' # rest \<Rightarrow> rest | _ \<Rightarrow> s))"

section \<open>Lemmas\<close>

definition bytes_of_text :: "string \<Rightarrow> bytes" where
  "bytes_of_text s = map (\<lambda>c. of_nat (of_char c)) s"

definition ascii :: "char \<Rightarrow> bool" where
  "ascii c \<longleftrightarrow> (of_char c :: nat) < 128"

lemma text_of_bytes: "text_of (bytes_of_text s) = s"
proof -
  have "unat (of_nat (of_char c) :: byte) = (of_char c :: nat)" for c
    by (simp add: unat_of_nat)
  then show ?thesis by (simp add: text_of_def bytes_of_text_def o_def)
qed

lemma lines_from_line: "newline \<notin> set s \<Longrightarrow> lines_from cur (s @ newline # rest) = strip_cr (cur @ s) # lines_from [] rest"
  by (induction s arbitrary: cur) auto

lemma utf8_ok_ascii: "list_all ascii s \<Longrightarrow> utf8_ok (bytes_of_text s)"
  by (induction s) (auto simp: bytes_of_text_def ascii_def word_less_nat_alt unat_of_nat)

end
