(* ===== verification/Cli.thy ===== *)
theory Cli
  imports UploadPool DownloadPool Utf8
begin

text \<open>
  \<open>crates/git-lfs-delta-client/src/main.rs\<close> and \<open>HttpBackend::new\<close>: the commands of the client and the settings of its backend.  Child
  processes are a state transformer \<open>spawn\<close> on the state that Git keeps; path resolution and URL parsing are parameters; the
  cache directory is a tree of files.  The theorems show that a constructed backend always has between one and eight workers
  and that its pools can then always complete, that the \<open>Transfer\<close> command runs the driver of theory \<open>Protocol\<close> over such a backend, and that pruning removes oldest entries first and no more than necessary.
\<close>

section \<open>Settings of the backend\<close>

text \<open>\<open>environment_u64\<close> and \<open>environment_usize\<close> on a 64-bit target.\<close>

definition environment_u64 :: "(string \<Rightarrow> variable) \<Rightarrow> string \<Rightarrow> nat \<Rightarrow> backend_error + nat" where
  "environment_u64 env name fallback = (case env name of
       Present value \<Rightarrow> (case parse_u64 value of
           Some n \<Rightarrow> Inr n
         | None \<Rightarrow> Inl (failure (''invalid '' @ name @ '': '' @ parse_error value)))
     | NotPresent \<Rightarrow> Inr fallback
     | NotUnicode e \<Rightarrow> Inl (failure (''could not read '' @ name @ '': '' @ e)))"

record http_backend =
  cache_root :: string
  chunk_concurrency :: nat
  connect_timeout :: nat
  request_timeout :: nat

definition new_backend :: "(string \<Rightarrow> variable) \<Rightarrow> (nat \<Rightarrow> nat \<Rightarrow> string + unit) \<Rightarrow> string \<Rightarrow> backend_error + http_backend" where
  "new_backend env build root =
     res_bind (environment_u64 env ''GIT_LFS_DELTA_HTTP_CONNECT_TIMEOUT_SECONDS'' 10) (\<lambda>connect.
     res_bind (environment_u64 env ''GIT_LFS_DELTA_HTTP_REQUEST_TIMEOUT_SECONDS'' 300) (\<lambda>request.
     res_bind (environment_u64 env ''GIT_LFS_DELTA_CHUNK_CONCURRENCY'' 2) (\<lambda>concurrency.
     res_bind (map_err (\<lambda>e. failure (''could not create HTTP client: '' @ e)) (build connect request)) (\<lambda>_.
     Inr \<lparr>cache_root = root, chunk_concurrency = max 1 (min 8 concurrency), connect_timeout = connect, request_timeout = request\<rparr>))))"

section \<open>Cache statistics and pruning\<close>

datatype child = ChildError string | FileChild string u64 "int option" | DirChild string directory | OtherChild string
and directory = Missing | Unreadable string | Listing "child list"

record cache_entry =
  entry_path :: string
  entry_size :: u64
  entry_modified :: int

definition join_path :: "string \<Rightarrow> string \<Rightarrow> string" where
  "join_path a b = a @ ''/'' @ b"

text \<open>One directory: its files, and its directories in the order they are pushed.\<close>

fun read_children :: "string \<Rightarrow> child list \<Rightarrow> string + cache_entry list \<times> (string \<times> directory) list" where
  "read_children path [] = Inr ([], [])"
| "read_children path (c # cs) = (case c of
       ChildError e \<Rightarrow> Inl e
     | FileChild name sz modified \<Rightarrow>
         res_bind (read_children path cs) (\<lambda>(files, dirs).
           Inr (\<lparr>entry_path = join_path path name, entry_size = sz,
                 entry_modified = (case modified of None \<Rightarrow> 0 | Some t \<Rightarrow> t)\<rparr> # files, dirs))
     | DirChild name d \<Rightarrow> res_bind (read_children path cs) (\<lambda>(files, dirs). Inr (files, (join_path path name, d) # dirs))
     | OtherChild name \<Rightarrow> read_children path cs)"

fun child_weight :: "child \<Rightarrow> nat" and directory_weight :: "directory \<Rightarrow> nat" where
  "child_weight (DirChild name d) = directory_weight d"
| "child_weight _ = 0"
| "directory_weight (Listing cs) = Suc (sum_list (map child_weight cs))"
| "directory_weight _ = 1"

lemma read_children_weight:
  "read_children path cs = Inr (files, dirs) \<Longrightarrow> sum_list (map (directory_weight \<circ> snd) dirs) \<le> sum_list (map child_weight cs)"
proof (induction cs arbitrary: files dirs)
  case (Cons c cs)
  show ?case
  proof (cases c)
    case (DirChild name d)
    then obtain ds where "read_children path cs = Inr (files, ds)" "dirs = (join_path path name, d) # ds"
      using Cons.prems by (auto simp: ok_iff)
    then show ?thesis using Cons.IH [of files ds] DirChild by simp
  qed (use Cons in \<open>auto simp: ok_iff\<close>)
qed simp

text \<open>The loop of \<open>cache_entries\<close>; the head of the stack is the last element of \<open>pending\<close>.\<close>

function cache_loop :: "(string \<times> directory) list \<Rightarrow> cache_entry list \<Rightarrow> string + cache_entry list" where
  "cache_loop [] entries = Inr entries"
| "cache_loop ((path, d) # stack) entries = (case d of
       Missing \<Rightarrow> cache_loop stack entries
     | Unreadable e \<Rightarrow> Inl e
     | Listing cs \<Rightarrow> (case read_children path cs of
           Inl e \<Rightarrow> Inl e
         | Inr (files, dirs) \<Rightarrow> cache_loop (rev dirs @ stack) (entries @ files)))"
  by pat_completeness auto
termination
  by (relation "measure (\<lambda>(stack, entries). sum_list (map (directory_weight \<circ> snd) stack))")
    (auto simp: rev_map [symmetric] dest!: read_children_weight)

definition cache_entries :: "string \<Rightarrow> directory \<Rightarrow> string + cache_entry list" where
  "cache_entries root chunks_dir = cache_loop [(join_path root ''chunks'', chunks_dir)] []"

text \<open>\<open>sum\<close> wraps at 64 bits as a release build does.\<close>

definition cache_stats :: "cache_entry list \<Rightarrow> u64 \<times> u64" where
  "cache_stats entries = fold (\<lambda>e (files, bytes). (files + 1, bytes + entry_size e)) entries (0, 0)"

text \<open>Removing files: the errors of the coming removals, and the paths removed so far.\<close>

record pruning =
  removal_errors :: "string option list"
  removed_paths :: "string list"

definition remove_file :: "string \<Rightarrow> (pruning, string, unit) action" where
  "remove_file path w = (case removal_errors w of
       Some e # rest \<Rightarrow> (Inl e, w\<lparr>removal_errors := rest\<rparr>)
     | None # rest \<Rightarrow> (Inr (), w\<lparr>removal_errors := rest, removed_paths := removed_paths w @ [path]\<rparr>)
     | [] \<Rightarrow> (Inr (), w\<lparr>removed_paths := removed_paths w @ [path]\<rparr>))"

fun prune_loop :: "u64 \<Rightarrow> cache_entry list \<Rightarrow> u64 \<Rightarrow> u64 \<Rightarrow> (pruning, string, u64 \<times> u64) action" where
  "prune_loop maximum [] left removed = ret (left, removed)"
| "prune_loop maximum (e # entries) left removed =
     (if left \<le> maximum then ret (left, removed)
      else andthen (remove_file (entry_path e)) (\<lambda>_.
        prune_loop maximum entries (if entry_size e \<le> left then left - entry_size e else 0) (removed + 1)))"

text \<open>The result is what the final message reports: the number of removed files and the bytes left.\<close>

definition prune_cache :: "string \<Rightarrow> directory \<Rightarrow> u64 \<Rightarrow> (pruning, string, u64 \<times> u64) action" where
  "prune_cache root chunks_dir maximum =
     andthen (of_result (cache_entries root chunks_dir)) (\<lambda>entries.
     let sorted_entries = sort_key entry_modified entries
     in prune_loop maximum sorted_entries (sum_list (map entry_size sorted_entries)) 0)"

text \<open>The reference: all files of a readable tree.\<close>

fun child_files :: "string \<Rightarrow> child \<Rightarrow> cache_entry list" and directory_files :: "string \<Rightarrow> directory \<Rightarrow> cache_entry list" where
  "child_files path (FileChild name sz modified) =
     [\<lparr>entry_path = join_path path name, entry_size = sz, entry_modified = (case modified of None \<Rightarrow> 0 | Some t \<Rightarrow> t)\<rparr>]"
| "child_files path (DirChild name d) = directory_files (join_path path name) d"
| "child_files path _ = []"
| "directory_files path (Listing cs) = concat (map (child_files path) cs)"
| "directory_files path _ = []"

fun readable_child :: "child \<Rightarrow> bool" and readable :: "directory \<Rightarrow> bool" where
  "readable_child (ChildError e) \<longleftrightarrow> False"
| "readable_child (DirChild name d) \<longleftrightarrow> readable d"
| "readable_child _ \<longleftrightarrow> True"
| "readable (Listing cs) \<longleftrightarrow> list_all readable_child cs"
| "readable (Unreadable e) \<longleftrightarrow> False"
| "readable Missing \<longleftrightarrow> True"

lemma read_children_spec:
  "(case read_children path cs of
      Inl e \<Rightarrow> \<not> list_all readable_child cs
    | Inr (files, dirs) \<Rightarrow> list_all readable_child cs = list_all (readable \<circ> snd) dirs
        \<and> mset (concat (map (child_files path) cs)) = mset files + mset (concat (map (\<lambda>(p, d). directory_files p d) dirs)))"
proof (induction cs)
  case (Cons c cs)
  then show ?case by (cases c) (auto split: sum.splits prod.splits)
qed simp

lemma mset_rev_stack: "mset (concat (map f (rev xs @ ys))) = mset (concat (map f xs)) + mset (concat (map f ys))"
  by (induction xs arbitrary: ys) simp_all

lemma cache_loop_spec:
  "case cache_loop stack entries of
     Inl e \<Rightarrow> \<not> list_all (readable \<circ> snd) stack
   | Inr es \<Rightarrow> list_all (readable \<circ> snd) stack \<and> mset es = mset entries + mset (concat (map (\<lambda>(p, d). directory_files p d) stack))"
proof (induction stack entries rule: cache_loop.induct)
  case (2 path d stack entries)
  show ?case
  proof (cases d)
    case (Listing cs)
    show ?thesis
    proof (cases "read_children path cs")
      case (Inl e)
      then show ?thesis using Listing read_children_spec [of cs path] by simp
    next
      case (Inr fd)
      then obtain files dirs where rc: "read_children path cs = Inr (files, dirs)" by (cases fd) simp
      from 2(2) [OF Listing rc refl] show ?thesis
        using Listing rc read_children_spec [of cs path] unfolding mset_rev_stack
        by (auto split: sum.splits simp: list_all_iff)
    qed
  qed (use 2 in \<open>auto split: sum.splits\<close>)
qed simp

lemma cache_entries_exact:
  "case cache_entries root d of
     Inl e \<Rightarrow> \<not> readable d
   | Inr es \<Rightarrow> readable d \<and> mset es = mset (directory_files (join_path root ''chunks'') d)"
  using cache_loop_spec [of "[(join_path root ''chunks'', d)]" "[]"] by (simp add: cache_entries_def split: sum.splits)

definition total_size :: "cache_entry list \<Rightarrow> nat" where
  "total_size es = sum_list (map (unat \<circ> entry_size) es)"

lemma total_size_simps [simp]: "total_size [] = 0" "total_size (e # es) = unat (entry_size e) + total_size es"
  by (simp_all add: total_size_def)

lemma unat_sum_sizes: "total_size es < 2 ^ 64 \<Longrightarrow> unat (sum_list (map entry_size es)) = total_size es"
proof (induction es)
  case (Cons e es)
  then have "unat (sum_list (map entry_size es)) = total_size es" by simp
  then show ?case using Cons.prems by (simp add: unat_word_ariths)
qed simp

lemma remove_file_ok [run_ok]:
  "remove_file path w = (Inr u, w') \<Longrightarrow> removed_paths w' = removed_paths w @ [path]"
  by (auto simp: remove_file_def split: list.splits option.splits)

lemma prune_loop_run:
  assumes "prune_loop maximum es left removed w = (Inr (left', removed'), w')" "unat left = total_size es"
    "unat removed + length es < 2 ^ 64"
  shows "\<exists>gone kept. es = gone @ kept \<and> removed_paths w' = removed_paths w @ map entry_path gone
    \<and> unat left' = total_size kept \<and> unat removed' = unat removed + length gone \<and> left' \<le> maximum
    \<and> (\<forall>e rest. gone = rest @ [e] \<longrightarrow> unat maximum < total_size (e # kept))"
  using assms
proof (induction es arbitrary: left removed w)
  case Nil
  then show ?case by (auto simp: run_ok word_le_nat_alt)
next
  case (Cons e es)
  show ?case
  proof (cases "left \<le> maximum")
    case True
    then show ?thesis using Cons.prems by (intro exI [of _ "[]"] exI [of _ "e # es"]) (auto simp: run_ok)
  next
    case False
    let ?l = "left - entry_size e"
    have le: "entry_size e \<le> left" using Cons.prems(2) by (simp add: word_le_nat_alt)
    from False le Cons.prems(1) obtain w1 where w1: "remove_file (entry_path e) w = (Inr (), w1)"
      "prune_loop maximum es ?l (removed + 1) w1 = (Inr (left', removed'), w')" by (auto simp: run_ok)
    have l: "unat ?l = total_size es" using Cons.prems(2) le by (simp add: unat_sub)
    have r: "unat (removed + 1) = unat removed + 1" using Cons.prems(3) by (simp add: unat_word_ariths)
    from Cons.IH [OF w1(2) l] r Cons.prems(3) obtain gone kept where g: "es = gone @ kept" "removed_paths w' = removed_paths w1 @ map entry_path gone"
      "unat left' = total_size kept" "unat removed' = unat removed + 1 + length gone" "left' \<le> maximum"
      "\<forall>x rest. gone = rest @ [x] \<longrightarrow> unat maximum < total_size (x # kept)" by auto
    have "unat maximum < total_size (e # es)" using False Cons.prems(2) by (simp add: word_le_nat_alt)
    then have "\<forall>x rest. e # gone = rest @ [x] \<longrightarrow> unat maximum < total_size (x # kept)"
      using g(1,6) by (cases gone rule: rev_cases) (auto simp: Cons_eq_append_conv)
    then show ?thesis
      using g remove_file_ok [OF w1(1)] by (intro exI [of _ "e # gone"] exI [of _ kept]) auto
  qed
qed

text \<open>
  Claim C35: pruning is exact.  When \<open>prune_cache\<close> reports success, the files of the cache split into removed and kept ones such that no removed
  file is newer than a kept one, exactly the removed ones were deleted, the reported count and remaining size are theirs, the rest
  fits into the limit, and without the last removal it would not have.
\<close>

theorem prune_oldest_first:
  assumes run: "prune_cache root d maximum w = (Inr (left, removed), w')"
    and small: "total_size (directory_files (join_path root ''chunks'') d) < 2 ^ 64"
      "length (directory_files (join_path root ''chunks'') d) < 2 ^ 64"
  shows "\<exists>gone kept. mset (gone @ kept) = mset (directory_files (join_path root ''chunks'') d)
    \<and> (\<forall>g \<in> set gone. \<forall>k \<in> set kept. entry_modified g \<le> entry_modified k)
    \<and> removed_paths w' = removed_paths w @ map entry_path gone
    \<and> unat left = total_size kept \<and> unat removed = length gone \<and> left \<le> maximum
    \<and> (\<forall>e rest. gone = rest @ [e] \<longrightarrow> unat maximum < total_size (e # kept))"
proof -
  let ?all = "directory_files (join_path root ''chunks'') d"
  from run obtain es where es: "cache_entries root d = Inr es"
    "prune_loop maximum (sort_key entry_modified es) (sum_list (map entry_size (sort_key entry_modified es))) 0 w = (Inr (left, removed), w')"
    by (auto simp: prune_cache_def run_ok Let_def)
  let ?s = "sort_key entry_modified es"
  have m: "mset ?s = mset ?all" using cache_entries_exact [where root = root and d = d] es(1) by simp
  then have "total_size ?s = total_size ?all" "length ?s = length ?all"
    unfolding total_size_def by (metis mset_map sum_mset_sum_list, metis size_mset)
  then have "unat (sum_list (map entry_size ?s)) = total_size ?s" "unat (0 :: u64) + length ?s < 2 ^ 64"
    using unat_sum_sizes [of ?s] small by simp_all
  from prune_loop_run [OF es(2) this] obtain gone kept where g: "?s = gone @ kept" "removed_paths w' = removed_paths w @ map entry_path gone"
    "unat left = total_size kept" "unat removed = length gone" "left \<le> maximum"
    "\<forall>e rest. gone = rest @ [e] \<longrightarrow> unat maximum < total_size (e # kept)" by auto
  have "sorted (map entry_modified (gone @ kept))" unfolding g(1) [symmetric] by simp
  then have "\<forall>x \<in> set gone. \<forall>k \<in> set kept. entry_modified x \<le> entry_modified k" by (auto simp: sorted_append)
  then show ?thesis using g m by auto
qed

section \<open>Commands\<close>

datatype scope = Local | Global

datatype std_io_error = IoError bool string

text \<open>The boxed errors of \<open>main.rs\<close>; the flag of an I/O error says whether its kind is \<open>BrokenPipe\<close>, that of a protocol error whether its
  source is such an error.\<close>

datatype cli_error = CliIo std_io_error | CliMessage string | CliUrl string | CliNotUtf8 | CliBackend backend_error | CliTransfer bool protocol_error

record 'g cli_deps =
  spawn :: "string list \<Rightarrow> 'g \<Rightarrow> (std_io_error + int option \<times> bytes) \<times> 'g"
  current_exe :: "std_io_error + string"
  canonicalize :: "string \<Rightarrow> std_io_error + string"
  project_cache_dir :: "string option"
  parse_url :: "string \<Rightarrow> string + string \<times> string"
  create_dir_all :: "string \<Rightarrow> std_io_error + unit"
  probe_file :: "string \<Rightarrow> std_io_error + unit"
  debug_text :: "string \<Rightarrow> string"
  package_version :: string

text \<open>What Git keeps, the cache directory with its removals, the lines printed, the errors of the coming prints, and the state of the transfer protocol.\<close>

record ('g, 'b) cli =
  git_state :: 'g
  cache_tree :: directory
  cache_pruning :: pruning
  printed :: "string list"
  print_errors :: "std_io_error option list"
  transfer_session :: "'b session"

type_synonym ('g, 'b, 'a) command = "(('g, 'b) cli, cli_error, 'a) action"

definition write_output :: "string \<Rightarrow> ('g, 'b, unit) command" where
  "write_output line w = (case print_errors w of
       [] \<Rightarrow> (Inr (), w\<lparr>printed := printed w @ [line]\<rparr>)
     | None # rest \<Rightarrow> (Inr (), w\<lparr>printed := printed w @ [line], print_errors := rest\<rparr>)
     | Some e # rest \<Rightarrow> (Inl (CliIo e), w\<lparr>print_errors := rest\<rparr>))"

definition run_process :: "'g cli_deps \<Rightarrow> string list \<Rightarrow> ('g, 'b, int option \<times> bytes) command" where
  "run_process D cmd w = (case spawn D cmd (git_state w) of (r, g) \<Rightarrow> (map_err CliIo r, w\<lparr>git_state := g\<rparr>))"

definition require_command :: "'g cli_deps \<Rightarrow> string \<Rightarrow> string list \<Rightarrow> ('g, 'b, unit) command" where
  "require_command D program arguments = andthen (run_process D (program # arguments)) (\<lambda>(code, out).
     if code = Some 0 then ret () else fail (CliMessage (program @ '' is installed but returned a failure'')))"

definition git_config :: "'g cli_deps \<Rightarrow> string \<Rightarrow> string \<Rightarrow> string \<Rightarrow> ('g, 'b, unit) command" where
  "git_config D flag key value = andthen (run_process D [''git'', ''config'', flag, key, value]) (\<lambda>(code, out).
     if code = Some 0 then ret () else fail (CliMessage (''git config failed for '' @ key)))"

definition git_config_value :: "'g cli_deps \<Rightarrow> string \<Rightarrow> ('g, 'b, string option) command" where
  "git_config_value D key = andthen (run_process D [''git'', ''config'', ''--get'', key]) (\<lambda>(code, out).
     if code = Some 0 then (if utf8_ok out then ret (Some (trim (text_of out))) else fail CliNotUtf8)
     else if code = Some 1 then ret None
     else fail (CliMessage (''git config could not read '' @ key)))"

fun scope_flag :: "scope \<Rightarrow> string" where
  "scope_flag Local = ''--local''"
| "scope_flag Global = ''--global''"

definition path_key :: string where "path_key = ''lfs.customtransfer.cdc.path''"
definition args_key :: string where "args_key = ''lfs.customtransfer.cdc.args''"
definition concurrent_key :: string where "concurrent_key = ''lfs.customtransfer.cdc.concurrent''"

definition install :: "'g cli_deps \<Rightarrow> scope \<Rightarrow> ('g, 'b, unit) command" where
  "install D sc =
     andthen (require_command D ''git'' [''--version'']) (\<lambda>_.
     andthen (require_command D ''git-lfs'' [''version'']) (\<lambda>_.
     andthen (of_result (map_err CliIo (current_exe D))) (\<lambda>executable. let flag = scope_flag sc in
     andthen (git_config D flag path_key executable) (\<lambda>_.
     andthen (git_config D flag args_key ''transfer'') (\<lambda>_.
     andthen (git_config D flag concurrent_key ''true'') (\<lambda>_.
     write_output (''configured Git LFS Delta custom transfer agent ('' @ flag @ '')'')))))))"

definition unset_key :: "'g cli_deps \<Rightarrow> string \<Rightarrow> string \<Rightarrow> ('g, 'b, unit) command" where
  "unset_key D flag key = andthen (run_process D [''git'', ''config'', flag, ''--unset-all'', key]) (\<lambda>(code, out).
     if code \<noteq> Some 0 \<and> code \<noteq> Some 5 then fail (CliMessage (''git config could not remove '' @ key)) else ret ())"

definition uninstall :: "'g cli_deps \<Rightarrow> scope \<Rightarrow> ('g, 'b, unit) command" where
  "uninstall D sc = (let flag = scope_flag sc in
     andthen (for_each (unset_key D flag) [path_key, args_key, concurrent_key]) (\<lambda>_.
     write_output (''removed Git LFS Delta custom transfer agent ('' @ flag @ '')'')))"

definition ends_with :: "string \<Rightarrow> string \<Rightarrow> bool" where
  "ends_with s suffix \<longleftrightarrow> take (length suffix) (rev s) = rev suffix"

definition configure :: "'g cli_deps \<Rightarrow> scope \<Rightarrow> string \<Rightarrow> ('g, 'b, unit) command" where
  "configure D sc url =
     andthen (of_result (map_err CliUrl (parse_url D url))) (\<lambda>(scheme, path).
     andthen (guard_err (\<not> (scheme = ''http'' \<or> scheme = ''https'') \<or> \<not> ends_with path ''/info/lfs'')
        (CliMessage ''LFS URL must be HTTP(S) and end in /info/lfs'')) (\<lambda>_. let flag = scope_flag sc in
     andthen (git_config D flag ''lfs.url'' url) (\<lambda>_.
     write_output (''configured LFS endpoint ('' @ flag @ ''): '' @ url))))"

definition show_key :: "'g cli_deps \<Rightarrow> string \<Rightarrow> ('g, 'b, unit) command" where
  "show_key D key = andthen (run_process D [''git'', ''config'', ''--get'', key]) (\<lambda>(code, out).
     andthen (if code = Some 0 then (if utf8_ok out then ret (trim (text_of out)) else fail CliNotUtf8)
              else ret ''<unset>'') (\<lambda>value.
     write_output (key @ ''='' @ value)))"

definition status :: "'g cli_deps \<Rightarrow> ('g, 'b, unit) command" where
  "status D = for_each (show_key D) [''lfs.url'', path_key, args_key, concurrent_key]"

definition cache_root_of :: "'g cli_deps \<Rightarrow> ('g, 'b, string) command" where
  "cache_root_of D = of_result (ok_or (CliMessage ''operating system did not provide a cache directory'') (project_cache_dir D))"

fun io_text :: "std_io_error \<Rightarrow> string" where
  "io_text (IoError broken text) = text"

definition doctor :: "'g cli_deps \<Rightarrow> ('g, 'b, unit) command" where
  "doctor D =
     andthen (require_command D ''git'' [''--version'']) (\<lambda>_.
     andthen (require_command D ''git-lfs'' [''version'']) (\<lambda>_.
     andthen (of_result (map_err CliIo (res_bind (current_exe D) (canonicalize D)))) (\<lambda>executable.
     andthen (git_config_value D path_key) (\<lambda>value.
     andthen (of_result (ok_or (CliMessage ''Git LFS Delta transfer agent is not registered'') value)) (\<lambda>configured.
     andthen (of_result (map_err (\<lambda>e. CliMessage (''configured transfer path '' @ debug_text D configured @ '' is unavailable: '' @ io_text e))
        (canonicalize D configured))) (\<lambda>configured_path.
     andthen (guard_err (configured_path \<noteq> executable)
        (CliMessage (''configured transfer path '' @ configured_path @ '' does not match this executable '' @ executable @ ''; rerun install''))) (\<lambda>_.
     andthen (cache_root_of D) (\<lambda>cache.
     andthen (of_result (map_err CliIo (create_dir_all D cache))) (\<lambda>_.
     andthen (of_result (map_err CliIo (probe_file D cache))) (\<lambda>_.
     for_each write_output [''Git LFS Delta: '' @ package_version D, ''executable: '' @ executable,
       ''transfer registration: '' @ configured_path, ''Git: ok'', ''Git LFS: ok'', ''cache: '' @ cache @ '' (writable)'']))))))))))"

definition cache_stats_command :: "'g cli_deps \<Rightarrow> ('g, 'b, unit) command" where
  "cache_stats_command D =
     andthen (cache_root_of D) (\<lambda>root.
     andthen (get_world cache_tree) (\<lambda>tree.
     andthen (of_result (map_err (CliIo \<circ> IoError False) (cache_entries root tree))) (\<lambda>entries.
     case cache_stats entries of (files, bytes) \<Rightarrow>
       write_output (show_nat (unat files) @ '' chunks, '' @ show_nat (unat bytes) @ '' bytes''))))"

text \<open>\<open>prune_cache\<close> inside the process.\<close>

definition lift_pruning :: "(pruning, string, 'a) action \<Rightarrow> ('g, 'b, 'a) command" where
  "lift_pruning m w = (case m (cache_pruning w) of (r, s) \<Rightarrow> (map_err (CliIo \<circ> IoError False) r, w\<lparr>cache_pruning := s\<rparr>))"

definition cache_prune_command :: "'g cli_deps \<Rightarrow> u64 \<Rightarrow> ('g, 'b, unit) command" where
  "cache_prune_command D maximum =
     andthen (cache_root_of D) (\<lambda>root.
     andthen (get_world cache_tree) (\<lambda>tree.
     andthen (lift_pruning (prune_cache root tree maximum)) (\<lambda>(left, removed).
     write_output (''removed '' @ show_nat (unat removed) @ '' chunks; cache now uses '' @ show_nat (unat left) @ '' bytes''))))"

datatype cli_command = Transfer | Install scope | Uninstall scope | Configure string scope | Status | Doctor | CacheStats | CachePrune u64

text \<open>The \<open>Transfer\<close> command: the environment and the lines on the standard input, the JSON decoder, the operations of a constructed backend, and which
  I/O errors are broken pipes.\<close>

record 'b transfer_deps =
  transfer_environment :: "string \<Rightarrow> variable"
  transfer_http :: "nat \<Rightarrow> nat \<Rightarrow> string + unit"
  transfer_backend_of :: "http_backend \<Rightarrow> 'b transfer_backend"
  transfer_decode :: "string \<Rightarrow> string + input_message"
  transfer_input :: "(string + string) list"
  broken_pipe :: "string \<Rightarrow> bool"

definition boxed_protocol_error :: "'b transfer_deps \<Rightarrow> protocol_error \<Rightarrow> cli_error" where
  "boxed_protocol_error T e = CliTransfer (case e of ReadFailed t \<Rightarrow> broken_pipe T t | WriteFailed t \<Rightarrow> broken_pipe T t | _ \<Rightarrow> False) e"

definition lift_session :: "('b session, cli_error, 'a) action \<Rightarrow> ('g, 'b, 'a) command" where
  "lift_session m w = (case m (transfer_session w) of (r, s) \<Rightarrow> (r, w\<lparr>transfer_session := s\<rparr>))"

definition transfer_command :: "'g cli_deps \<Rightarrow> 'b transfer_deps \<Rightarrow> ('g, 'b, unit) command" where
  "transfer_command D T =
     andthen (cache_root_of D) (\<lambda>root.
     andthen (of_result (map_err CliBackend (new_backend (transfer_environment T) (transfer_http T) root))) (\<lambda>b.
     lift_session (on_err (boxed_protocol_error T) (run_transfer_protocol (transfer_decode T) (transfer_backend_of T b) (transfer_input T)))))"

text \<open>The dispatch of \<open>run\<close>.\<close>

fun run_cli :: "'g cli_deps \<Rightarrow> 'b transfer_deps \<Rightarrow> cli_command \<Rightarrow> ('g, 'b, unit) command" where
  "run_cli D T Transfer = transfer_command D T"
| "run_cli D T (Install sc) = install D sc"
| "run_cli D T (Uninstall sc) = uninstall D sc"
| "run_cli D T (Configure url sc) = configure D sc url"
| "run_cli D T Status = status D"
| "run_cli D T Doctor = doctor D"
| "run_cli D T CacheStats = cache_stats_command D"
| "run_cli D T (CachePrune maximum) = cache_prune_command D maximum"

text \<open>The exit code of \<open>main\<close>: an output pipe closed by the reader is not a failure.\<close>

fun is_broken_pipe :: "cli_error \<Rightarrow> bool" where
  "is_broken_pipe (CliIo (IoError broken text)) = broken"
| "is_broken_pipe (CliTransfer broken e) = broken"
| "is_broken_pipe _ = False"

definition exit_success :: "cli_error + 'a \<Rightarrow> bool" where
  "exit_success r = (case r of Inr _ \<Rightarrow> True | Inl e \<Rightarrow> is_broken_pipe e)"

text \<open>The transfer process of the command line is the driver of theory \<open>Protocol\<close> over a backend with one to eight workers; it exits with success when the
  protocol ended in order or a pipe was closed.\<close>

lemma transfer_command_runs_protocol:
  assumes "run_cli D T Transfer w = (r, w')"
  shows "(\<exists>root b res. project_cache_dir D = Some root \<and> new_backend (transfer_environment T) (transfer_http T) root = Inr b
      \<and> 1 \<le> chunk_concurrency b \<and> chunk_concurrency b \<le> 8
      \<and> run_transfer_protocol (transfer_decode T) (transfer_backend_of T b) (transfer_input T) (transfer_session w) = (res, transfer_session w')
      \<and> (exit_success r \<longleftrightarrow> (case res of Inr _ \<Rightarrow> True | Inl (ReadFailed t) \<Rightarrow> broken_pipe T t | Inl (WriteFailed t) \<Rightarrow> broken_pipe T t | _ \<Rightarrow> False)))
    \<or> \<not> exit_success r \<and> w' = w"
proof (cases "project_cache_dir D")
  case None
  then show ?thesis using assms by (auto simp: transfer_command_def cache_root_of_def andthen_def of_result_def ok_or_def exit_success_def)
next
  case (Some root)
  show ?thesis
  proof (cases "new_backend (transfer_environment T) (transfer_http T) root")
    case (Inl e)
    then show ?thesis using assms Some by (auto simp: transfer_command_def cache_root_of_def andthen_def of_result_def ok_or_def exit_success_def)
  next
    case (Inr b)
    have n: "1 \<le> chunk_concurrency b" "chunk_concurrency b \<le> 8" using Inr by (auto simp: new_backend_def ok_iff)
    obtain res s where run: "run_transfer_protocol (transfer_decode T) (transfer_backend_of T b) (transfer_input T) (transfer_session w) = (res, s)" by force
    have "r = map_err (boxed_protocol_error T) res" "transfer_session w' = s"
      using assms Some Inr run
      by (auto simp: transfer_command_def cache_root_of_def andthen_def of_result_def ok_or_def lift_session_def on_err_def)
    then have "exit_success r \<longleftrightarrow> (case res of Inr _ \<Rightarrow> True | Inl (ReadFailed t) \<Rightarrow> broken_pipe T t | Inl (WriteFailed t) \<Rightarrow> broken_pipe T t | _ \<Rightarrow> False)"
      by (auto simp: exit_success_def boxed_protocol_error_def map_err_def split: sum.splits protocol_error.splits)
    then show ?thesis using Some Inr n run \<open>transfer_session w' = s\<close> by blast
  qed
qed

section \<open>Workers of a constructed backend\<close>

text \<open>
  A constructed backend can always run.  Whatever the environment asks for, \<open>HttpBackend::new\<close> either fails or yields between one and eight
  workers, so that neither pool can be created without a worker, and every upload and every download scope it opens
  can run to the point where all its threads have ended.
\<close>

theorem backend_pools_run:
  assumes "new_backend env build root = Inr b"
  shows "1 \<le> chunk_concurrency b \<and> chunk_concurrency b \<le> 8
    \<and> (\<exists>p. (upload_step D act plan (chunk_concurrency b))\<^sup>*\<^sup>* (start_pool D (chunk_concurrency b) src) p \<and> joined p)
    \<and> (\<exists>p. (download_step D act cs (chunk_concurrency b))\<^sup>*\<^sup>* (start_download (chunk_concurrency b)) p \<and> download_joined p)"
proof -
  have n: "0 < chunk_concurrency b" "chunk_concurrency b \<le> 8" using assms by (auto simp: new_backend_def ok_iff)
  show ?thesis
    using n uploader.completes [OF upload_inv_start [OF n(1)]] downloader.completes [OF download_inv_start [OF n(1)]] by auto
qed

theorem backend_pools_run_witness:
  "\<exists>b. new_backend (\<lambda>_. Present ''0'') (\<lambda>_ _. Inr ()) ''/c'' = Inr b \<and> chunk_concurrency b = 1
     \<and> (\<exists>p. (download_step client_demo demo_action [] (chunk_concurrency b))\<^sup>*\<^sup>* (start_download (chunk_concurrency b)) p \<and> download_joined p)"
proof -
  have p: "parse_u64 ''0'' = Some 0" by (simp add: parse_u64_def digit_value_def Let_def)
  have "new_backend (\<lambda>_. Present ''0'') (\<lambda>_ _. Inr ()) ''/c'' = Inr \<lparr>cache_root = ''/c'', chunk_concurrency = 1, connect_timeout = 0, request_timeout = 0\<rparr>"
    by (simp add: new_backend_def environment_u64_def p)
  from backend_pools_run [OF this, of client_demo demo_action demo_plan demo_source "[]"] this show ?thesis by simp
qed

text \<open>A cache of three files of 40 bytes pruned to 90 bytes loses the oldest one.\<close>

definition demo_cache :: directory where
  "demo_cache = Listing [DirChild ''ab'' (Listing [FileChild ''x'' 40 (Some 5), FileChild ''y'' 40 (Some 3)]), DirChild ''cd'' (Listing [FileChild ''z'' 40 None, FileChild ''v'' 0 (Some 1)])]"

lemma demo_prune: "prune_cache ''r'' demo_cache 90 \<lparr>removal_errors = [], removed_paths = []\<rparr>
    = (Inr (80, 1), \<lparr>removal_errors = [], removed_paths = [''r/chunks/cd/z'']\<rparr>)"
  by code_simp

theorem prune_oldest_first_witness:
  "\<exists>gone kept. mset (gone @ kept) = mset (directory_files ''r/chunks'' demo_cache) \<and> map entry_path gone = [''r/chunks/cd/z''] \<and> total_size kept = 80"
proof -
  have small: "total_size (directory_files (join_path ''r'' ''chunks'') demo_cache) < 2 ^ 64" "length (directory_files (join_path ''r'' ''chunks'') demo_cache) < 2 ^ 64"
    by (simp_all add: demo_cache_def)
  have join: "join_path ''r'' ''chunks'' = ''r/chunks''" by (simp add: join_path_def)
  obtain gone kept where g: "mset (gone @ kept) = mset (directory_files ''r/chunks'' demo_cache)"
    "removed_paths \<lparr>removal_errors = [], removed_paths = [''r/chunks/cd/z'']\<rparr> = removed_paths \<lparr>removal_errors = [], removed_paths = []\<rparr> @ map entry_path gone"
    "unat (80 :: u64) = total_size kept"
    using prune_oldest_first [OF demo_prune small] unfolding join by blast
  have m: "map entry_path gone = [''r/chunks/cd/z'']" and k: "total_size kept = 80" using g(2,3) by simp_all
  show ?thesis by (rule exI [of _ gone], rule exI [of _ kept], intro conjI; fact g(1) m k)
qed

end
