(* ===== verification/Launch.thy ===== *)
theory Launch
  imports Admin Utf8
begin

text \<open>
  \<open>crates/git-lfs-delta-server/src/main.rs\<close> up to the call of \<open>axum::serve\<close>: the settings, the database and schema check, the object store,
  the authentication mode and the limits.  Libraries that connect or parse are parameters (the error of \<open>launch_store\<close> also stands for the panic of
  \<open>std::env::vars\<close> on a variable that is not Unicode); what follows the start is in
  theory \<open>Shutdown\<close>.  The theorem shows what is guaranteed when the server begins to listen.
\<close>

record ('s, 'j) launch_deps =
  launch_server :: "('s, 'j) server_deps"
  launch_url :: "string \<Rightarrow> string + string"
  launch_address :: "string \<Rightarrow> string + string \<times> bool"
  launch_connect :: "string \<Rightarrow> u32 \<Rightarrow> string + unit"
  launch_store :: "string \<Rightarrow> string + unit"
  launch_http :: "string + unit"
  launch_discovery :: "string \<Rightarrow> string + string \<times> string"
  launch_keys :: "string \<Rightarrow> string + (string option \<times> string) list"
  launch_bind :: "string \<Rightarrow> string + unit"
  launch_temp_dir :: string

datatype launch_error =
    MissingVariable string
  | InvalidVariable string string
  | NotUnicodeVariable string
  | LaunchUrl string
  | LaunchAddress string
  | RemoteDevelopment
  | ConnectionLimit
  | LaunchDatabase string
  | LaunchSchema schema_error
  | LaunchStorage string
  | LaunchHttp string
  | LaunchOidc oidc_setup_error
  | UnsupportedMode string
  | LaunchBind string
  | LaunchPanic

definition required :: "(string \<Rightarrow> variable) \<Rightarrow> string \<Rightarrow> launch_error + string" where
  "required env name = (case env name of
       Present value \<Rightarrow> if trim value \<noteq> [] then Inr value else Inl (MissingVariable name)
     | _ \<Rightarrow> Inl (MissingVariable name))"

definition optional_usize :: "(string \<Rightarrow> variable) \<Rightarrow> string \<Rightarrow> nat \<Rightarrow> launch_error + nat" where
  "optional_usize env name fallback = (case env name of
       Present value \<Rightarrow> (case parse_u64 value of
           Some n \<Rightarrow> Inr n
         | None \<Rightarrow> Inl (InvalidVariable name (parse_error value)))
     | NotPresent \<Rightarrow> Inr fallback
     | NotUnicode e \<Rightarrow> Inl (NotUnicodeVariable e))"

definition var_or :: "(string \<Rightarrow> variable) \<Rightarrow> string \<Rightarrow> string \<Rightarrow> string" where
  "var_or env name fallback = (case env name of Present value \<Rightarrow> value | _ \<Rightarrow> fallback)"

text \<open>\<open>Semaphore::new\<close> panics beyond \<open>MAX_PERMITS\<close>; the limits are raised to one.\<close>

definition permits :: "nat \<Rightarrow> launch_error + nat" where
  "permits n = (if max n 1 \<le> 2 ^ 61 - 1 then Inr (max n 1) else Inl LaunchPanic)"

definition authentication_state :: "('s, 'j) launch_deps \<Rightarrow> (string \<Rightarrow> variable) \<Rightarrow> string \<Rightarrow> string \<Rightarrow> launch_error + app_state" where
  "authentication_state L env mode url =
     (if mode = ''forgejo'' then
        res_bind (required env ''GIT_LFS_DELTA_FORGEJO_URL'') (\<lambda>raw.
        res_bind (map_err LaunchUrl (launch_url L raw)) (\<lambda>forgejo.
        res_bind (map_err LaunchHttp (launch_http L)) (\<lambda>_. Inr (new_forgejo url forgejo))))
      else if mode = ''oidc'' then
        res_bind (required env ''GIT_LFS_DELTA_OIDC_ISSUER'') (\<lambda>raw.
        res_bind (map_err LaunchUrl (launch_url L raw)) (\<lambda>issuer.
        res_bind (required env ''GIT_LFS_DELTA_OIDC_AUDIENCE'') (\<lambda>audience.
        res_bind (map_err (LaunchOidc \<circ> OidcProvider) (launch_http L)) (\<lambda>_.
        map_err LaunchOidc (new_oidc (launch_server L) url issuer audience (launch_discovery L) (launch_keys L))))))
      else if mode = ''development'' then
        res_bind (required env ''GIT_LFS_DELTA_DEV_TOKEN'') (\<lambda>token. Inr (app_state_new (launch_server L) url token))
      else Inl (UnsupportedMode mode))"

record launched =
  launched_app :: app_state
  launched_address :: string
  launched_staging :: string
  basic_permits :: nat
  data_permits :: nat

definition launch ::
  "('s, 'j) launch_deps \<Rightarrow> 'j migrator \<Rightarrow> (string \<Rightarrow> variable) \<Rightarrow> (('s, 'j) world, launch_error, launched) action" where
  "launch L M env =
     andthen (of_result (required env ''GIT_LFS_DELTA_DATABASE_URL'')) (\<lambda>database_url.
     andthen (of_result (res_bind (required env ''GIT_LFS_DELTA_BASE_URL'') (\<lambda>v. map_err LaunchUrl (launch_url L v)))) (\<lambda>url.
     andthen (of_result (res_bind (required env ''GIT_LFS_DELTA_STORAGE_URL'') (\<lambda>v. map_err LaunchUrl (launch_url L v)))) (\<lambda>storage_url.
     andthen (of_result (required env ''GIT_LFS_DELTA_AUTH_MODE'')) (\<lambda>auth_mode.
     andthen (of_result (map_err LaunchAddress (launch_address L (var_or env ''GIT_LFS_DELTA_BIND'' ''127.0.0.1:8080'')))) (\<lambda>(bind, loopback).
     andthen (of_result (optional_usize env ''GIT_LFS_DELTA_DATABASE_MAX_CONNECTIONS'' 20)) (\<lambda>connections.
     andthen (of_result (optional_usize env ''GIT_LFS_DELTA_MAX_BASIC_TRANSFERS'' 2)) (\<lambda>basic.
     andthen (of_result (optional_usize env ''GIT_LFS_DELTA_MAX_DATA_REQUESTS'' 64)) (\<lambda>data.
     andthen (guard_err (auth_mode = ''development'' \<and> \<not> loopback \<and> env ''GIT_LFS_DELTA_ALLOW_REMOTE_DEVELOPMENT_AUTH'' = NotPresent)
        RemoteDevelopment) (\<lambda>_.
     andthen (of_result (ok_or ConnectionLimit (u32_try_from connections))) (\<lambda>pool.
     andthen (of_result (map_err LaunchDatabase (launch_connect L database_url pool))) (\<lambda>_.
     andthen (on_err LaunchSchema (schema_check M)) (\<lambda>_.
     andthen (of_result (map_err LaunchStorage (launch_store L storage_url))) (\<lambda>_.
     andthen (of_result (authentication_state L env auth_mode url)) (\<lambda>app.
     andthen (of_result (permits basic)) (\<lambda>basic.
     andthen (of_result (permits data)) (\<lambda>data.
     andthen (of_result (map_err LaunchBind (launch_bind L bind))) (\<lambda>_.
     ret \<lparr>launched_app = app, launched_address = bind,
          launched_staging = var_or env ''GIT_LFS_DELTA_STAGING_DIR'' (launch_temp_dir L),
          basic_permits = basic, data_permits = data\<rparr>)))))))))))))))))"

lemma required_ok: "required env name = Inr v \<longleftrightarrow> env name = Present v \<and> trim v \<noteq> []"
  by (auto simp: required_def split: variable.splits if_splits)

lemma permits_ok: "permits n = Inr k \<Longrightarrow> 1 \<le> k \<and> k < 2 ^ 61"
  by (auto simp: permits_def split: if_splits)

text \<open>What OIDC mode may trust: the issuer is the one of the discovery document at the configured issuer URL and agrees with that URL, and the keys are those of the key set the
  document names that have an identifier.\<close>

definition oidc_trusted :: "('s, 'j) launch_deps \<Rightarrow> string \<Rightarrow> string \<Rightarrow> (string \<times> string) list \<Rightarrow> bool" where
  "oidc_trusted L configured issuer keys \<longleftrightarrow> (\<exists>issuer_url document_url jwks_uri key_set.
     launch_url L configured = Inr issuer_url \<and> url_join (launch_server L) issuer_url ''.well-known/openid-configuration'' = Inr document_url
     \<and> launch_discovery L document_url = Inr (issuer, jwks_uri) \<and> trim_end_slashes issuer = trim_end_slashes issuer_url
     \<and> launch_keys L jwks_uri = Inr key_set \<and> (\<forall>kid key. (kid, key) \<in> set keys \<longleftrightarrow> (Some kid, key) \<in> set key_set))"

lemma set_map_filter_ids:
  "(kid, key) \<in> set (rev (List.map_filter (\<lambda>(kid, key). map_option (\<lambda>id'. (id', key)) kid) ks)) \<longleftrightarrow> (Some kid, key) \<in> set ks"
  by (force simp: List.map_filter_def)

lemma new_oidc_trusted:
  assumes "new_oidc (launch_server L) url issuer_url audience (launch_discovery L) (launch_keys L) = Inr app" "launch_url L v = Inr issuer_url"
  shows "base_url app = url \<and> (\<exists>issuer keys. authentication app = Oidc issuer audience keys \<and> oidc_trusted L v issuer keys)"
proof -
  from assms(1) obtain document_url issuer jwks_uri ks where o:
    "url_join (launch_server L) issuer_url ''.well-known/openid-configuration'' = Inr document_url" "launch_discovery L document_url = Inr (issuer, jwks_uri)"
    "trim_end_slashes issuer = trim_end_slashes issuer_url" "launch_keys L jwks_uri = Inr ks"
    and app: "app = \<lparr>base_url = url, authentication = Oidc issuer audience (rev (List.map_filter (\<lambda>(kid, key). map_option (\<lambda>id'. (id', key)) kid) ks))\<rparr>"
    unfolding new_oidc_def by (auto simp: ok_iff split: if_splits)
  have "oidc_trusted L v issuer (rev (List.map_filter (\<lambda>(kid, key). map_option (\<lambda>id'. (id', key)) kid) ks))"
    unfolding oidc_trusted_def
    by (rule exI [of _ issuer_url], rule exI [of _ document_url], rule exI [of _ jwks_uri], rule exI [of _ ks])
      (simp only: assms(2) o set_map_filter_ids simp_thms)
  then show ?thesis using app by simp
qed

lemma authentication_configured:
  assumes "authentication_state L env mode url = Inr app"
  shows "base_url app = url \<and> (case authentication app of
      DevelopmentToken h \<Rightarrow> mode = ''development'' \<and> (\<exists>token. env ''GIT_LFS_DELTA_DEV_TOKEN'' = Present token \<and> trim token \<noteq> [] \<and> h = sha256 (launch_server L) (ascii_bytes token))
    | Forgejo url ttl capacity \<Rightarrow> mode = ''forgejo'' \<and> ttl = nanos 30 \<and> capacity = 10000
        \<and> (\<exists>v. env ''GIT_LFS_DELTA_FORGEJO_URL'' = Present v \<and> trim v \<noteq> [] \<and> launch_url L v = Inr url)
    | Oidc issuer audience keys \<Rightarrow> mode = ''oidc'' \<and> env ''GIT_LFS_DELTA_OIDC_AUDIENCE'' = Present audience \<and> trim audience \<noteq> []
        \<and> (\<exists>v. env ''GIT_LFS_DELTA_OIDC_ISSUER'' = Present v \<and> trim v \<noteq> [] \<and> oidc_trusted L v issuer keys))"
proof (cases "mode = ''oidc''")
  case True
  with assms obtain v issuer_url audience where v: "env ''GIT_LFS_DELTA_OIDC_ISSUER'' = Present v" "trim v \<noteq> []" "launch_url L v = Inr issuer_url"
    "env ''GIT_LFS_DELTA_OIDC_AUDIENCE'' = Present audience" "trim audience \<noteq> []"
    "new_oidc (launch_server L) url issuer_url audience (launch_discovery L) (launch_keys L) = Inr app"
    by (auto simp: authentication_state_def ok_iff required_ok)
  then show ?thesis using new_oidc_trusted [OF v(6,3)] True by auto
next
  case False
  then show ?thesis using assms
    by (auto simp: authentication_state_def ok_iff required_ok new_forgejo_def app_state_new_def split: if_splits)
qed

text \<open>
  Claim C37: starting fails closed.  When the server reaches its listener, the schema check has succeeded on the database it will use, the database and the object store have been
  configured and opened, both semaphores have a permit, and one of the three authentication modes is configured with its non-empty settings: the development token guards a
  listener that is not on the loopback interface only if the operator asked for that; Forgejo is asked at the configured URL; and OIDC trusts only the issuer that the
  configured URL's discovery document names, when it agrees with that URL, and the keys of the document's key set.
\<close>

theorem launch_fails_closed:
  assumes "launch L M env w = (Inr s, w')"
  shows "(\<exists>st w1. schema_check M w = (Inr st, w1) \<and> w' = w1)
    \<and> 1 \<le> basic_permits s \<and> 1 \<le> data_permits s
    \<and> (\<exists>d v st u pool. env ''GIT_LFS_DELTA_DATABASE_URL'' = Present d \<and> trim d \<noteq> [] \<and> launch_connect L d pool = Inr ()
        \<and> env ''GIT_LFS_DELTA_BASE_URL'' = Present v \<and> launch_url L v = Inr (base_url (launched_app s))
        \<and> env ''GIT_LFS_DELTA_STORAGE_URL'' = Present st \<and> launch_url L st = Inr u \<and> launch_store L u = Inr ())
    \<and> (\<exists>mode. env ''GIT_LFS_DELTA_AUTH_MODE'' = Present mode \<and>
        (case authentication (launched_app s) of
           DevelopmentToken h \<Rightarrow> mode = ''development''
             \<and> (\<exists>token. env ''GIT_LFS_DELTA_DEV_TOKEN'' = Present token \<and> trim token \<noteq> [] \<and> h = sha256 (launch_server L) (ascii_bytes token))
             \<and> (launch_address L (var_or env ''GIT_LFS_DELTA_BIND'' ''127.0.0.1:8080'') = Inr (launched_address s, True)
                \<or> env ''GIT_LFS_DELTA_ALLOW_REMOTE_DEVELOPMENT_AUTH'' \<noteq> NotPresent)
         | Forgejo url ttl capacity \<Rightarrow> mode = ''forgejo'' \<and> ttl = nanos 30 \<and> capacity = 10000
             \<and> (\<exists>v. env ''GIT_LFS_DELTA_FORGEJO_URL'' = Present v \<and> trim v \<noteq> [] \<and> launch_url L v = Inr url)
         | Oidc issuer audience keys \<Rightarrow> mode = ''oidc'' \<and> env ''GIT_LFS_DELTA_OIDC_AUDIENCE'' = Present audience \<and> trim audience \<noteq> []
             \<and> (\<exists>v. env ''GIT_LFS_DELTA_OIDC_ISSUER'' = Present v \<and> trim v \<noteq> [] \<and> oidc_trusted L v issuer keys)))"
proof -
  from assms obtain mode url bind loopback app b d st basic data database v storage u pool where l:
    "env ''GIT_LFS_DELTA_AUTH_MODE'' = Present mode" "launch_address L (var_or env ''GIT_LFS_DELTA_BIND'' ''127.0.0.1:8080'') = Inr (bind, loopback)"
    "\<not> (mode = ''development'' \<and> \<not> loopback \<and> env ''GIT_LFS_DELTA_ALLOW_REMOTE_DEVELOPMENT_AUTH'' = NotPresent)"
    "schema_check M w = (Inr st, w')" "authentication_state L env mode url = Inr app" "permits basic = Inr b" "permits data = Inr d"
    "launched_app s = app" "launched_address s = bind" "basic_permits s = b" "data_permits s = d"
    and c: "env ''GIT_LFS_DELTA_DATABASE_URL'' = Present database" "trim database \<noteq> []" "launch_connect L database pool = Inr ()"
    "env ''GIT_LFS_DELTA_BASE_URL'' = Present v" "launch_url L v = Inr url"
    "env ''GIT_LFS_DELTA_STORAGE_URL'' = Present storage" "launch_url L storage = Inr u" "launch_store L u = Inr ()"
    unfolding launch_def by (auto simp: run_ok ok_iff required_ok)
  note auth = authentication_configured [OF l(5)]
  have "\<exists>d v st u pool. env ''GIT_LFS_DELTA_DATABASE_URL'' = Present d \<and> trim d \<noteq> [] \<and> launch_connect L d pool = Inr ()
        \<and> env ''GIT_LFS_DELTA_BASE_URL'' = Present v \<and> launch_url L v = Inr (base_url (launched_app s))
        \<and> env ''GIT_LFS_DELTA_STORAGE_URL'' = Present st \<and> launch_url L st = Inr u \<and> launch_store L u = Inr ()"
    using c auth l(8) by blast
  then show ?thesis
    using l permits_ok [OF l(6)] permits_ok [OF l(7)] auth by (auto split: authentication.splits)
qed

section \<open>Witness\<close>

definition demo_launch :: "(mem_store, object_manifest) launch_deps" where
  "demo_launch = \<lparr>launch_server = demo_deps, launch_url = Inr, launch_address = (\<lambda>a. Inr (a, a = ''127.0.0.1:8080'')), launch_connect = (\<lambda>_ _. Inr ()),
     launch_store = (\<lambda>_. Inr ()), launch_http = Inr (), launch_discovery = (\<lambda>_. Inl ''none''), launch_keys = (\<lambda>_. Inl ''none''),
     launch_bind = (\<lambda>_. Inr ()), launch_temp_dir = ''/tmp''\<rparr>"

definition demo_environment :: "string \<Rightarrow> variable" where
  "demo_environment name =
     (if name = ''GIT_LFS_DELTA_DATABASE_URL'' then Present ''db'' else if name = ''GIT_LFS_DELTA_BASE_URL'' then Present ''u''
      else if name = ''GIT_LFS_DELTA_STORAGE_URL'' then Present ''s'' else if name = ''GIT_LFS_DELTA_AUTH_MODE'' then Present ''development''
      else if name = ''GIT_LFS_DELTA_DEV_TOKEN'' then Present ''secret'' else NotPresent)"

definition migrated_world :: "(mem_store, object_manifest) world" where
  "migrated_world = demo_world (demo_repositories\<lparr>sqlx_migrations := Some [(1, [1], True), (2, [2], True), (3, [9], True)]\<rparr>)"

lemma demo_schema_ok: "\<exists>st. schema_check demo_migrator migrated_world = (Inr st, snd (schema_check demo_migrator migrated_world))"
proof -
  have "\<exists>st. fst (schema_check demo_migrator migrated_world) = Inr st"
    using schema_check_iff [of migrated_world demo_migrator]
    by (simp add: migrated_world_def history_ok_def up_migrations_def demo_migrator_def)
  then show ?thesis by (metis prod.collapse)
qed

lemma demo_launched: "\<exists>s. fst (launch demo_launch demo_migrator demo_environment migrated_world) = Inr s"
proof -
  obtain st w1 where st: "schema_check demo_migrator migrated_world = (Inr st, w1)" using demo_schema_ok by blast
  have t: "trim ''db'' \<noteq> []" "trim ''u'' \<noteq> []" "trim ''s'' \<noteq> []" "trim ''development'' \<noteq> []" "trim ''secret'' \<noteq> []" by code_simp+
  have r: "required demo_environment ''GIT_LFS_DELTA_DATABASE_URL'' = Inr ''db''" "required demo_environment ''GIT_LFS_DELTA_BASE_URL'' = Inr ''u''"
    "required demo_environment ''GIT_LFS_DELTA_STORAGE_URL'' = Inr ''s''" "required demo_environment ''GIT_LFS_DELTA_AUTH_MODE'' = Inr ''development''"
    "required demo_environment ''GIT_LFS_DELTA_DEV_TOKEN'' = Inr ''secret''"
    by (simp_all add: required_def demo_environment_def t)
  have o: "optional_usize demo_environment ''GIT_LFS_DELTA_DATABASE_MAX_CONNECTIONS'' 20 = Inr 20"
    "optional_usize demo_environment ''GIT_LFS_DELTA_MAX_BASIC_TRANSFERS'' 2 = Inr 2" "optional_usize demo_environment ''GIT_LFS_DELTA_MAX_DATA_REQUESTS'' 64 = Inr 64"
    "var_or demo_environment ''GIT_LFS_DELTA_BIND'' ''127.0.0.1:8080'' = ''127.0.0.1:8080''"
    by (simp_all add: optional_usize_def var_or_def demo_environment_def)
  have a: "authentication_state demo_launch demo_environment ''development'' ''u'' = Inr (app_state_new demo_deps ''u'' ''secret'')"
    by (simp add: authentication_state_def r demo_launch_def)
  have L: "launch_url demo_launch = Inr" "launch_address demo_launch ''127.0.0.1:8080'' = Inr (''127.0.0.1:8080'', True)"
    "launch_connect demo_launch u p = Inr ()" "launch_store demo_launch u = Inr ()" "launch_bind demo_launch u = Inr ()" for u p
    by (simp_all add: demo_launch_def)
  have n: "permits 2 = Inr 2" "permits 64 = Inr 64" "ok_or ConnectionLimit (u32_try_from 20) = Inr 20"
    by (simp_all add: permits_def ok_or_def u32_try_from_def)
  show ?thesis
    unfolding launch_def
    by (simp add: r o a L n andthen_of_result andthen_guard_false) (simp add: andthen_def on_err_def st ret_def)
qed

theorem launch_fails_closed_witness:
  "\<exists>s. fst (launch demo_launch demo_migrator demo_environment migrated_world) = Inr s \<and> 1 \<le> basic_permits s \<and> 1 \<le> data_permits s"
proof -
  let ?r = "launch demo_launch demo_migrator demo_environment migrated_world"
  obtain s where s: "fst ?r = Inr s" using demo_launched by blast
  then have "?r = (Inr s, snd ?r)" by (metis prod.collapse)
  from launch_fails_closed [OF this] show ?thesis using s by blast
qed

end
