(* ===== verification/Reconcile.thy ===== *)
theory Reconcile
  imports Admin Utf8
begin

text \<open>
  \<open>crates/git-lfs-delta-server/src/reconcile.rs\<close>: the reachability scan.  Git runs as a child process: a script gives the outcome
  of each command and a log keeps the commands that ran.  The theorems
  characterise the pointer files that are accepted, and show that a successful scan ran every command without failure and
  returns exactly the objects of the pointers it listed.
\<close>

section \<open>Processes\<close>

datatype scan_error = ScanIo string | ScanCommand string "int option" | ScanUtf8 | Malformed string

text \<open>\<open>replies\<close>: for each process an I/O error, or its exit code and output; \<open>commands\<close>: the command lines.\<close>

record processes =
  tempdir :: "string + string"
  replies :: "(string + int option \<times> bytes) list"
  commands :: "string list list"

type_synonym 'a scanning = "(processes, scan_error, 'a) action"

definition new_tempdir :: "string scanning" where
  "new_tempdir w = (map_err ScanIo (tempdir w), w)"

fun format_command :: "string list \<Rightarrow> string" where
  "format_command [] = []"
| "format_command (program # arguments) = program @ concat (map (\<lambda>a. '' '' @ a) arguments)"

definition execute :: "string list \<Rightarrow> (int option \<times> bytes) scanning" where
  "execute cmd w = (case replies w of
       [] \<Rightarrow> (Inl (ScanIo ''no process''), w)
     | r # rest \<Rightarrow> (map_err ScanIo r, w\<lparr>replies := rest, commands := commands w @ [cmd]\<rparr>))"

definition git_output :: "string list \<Rightarrow> bytes scanning" where
  "git_output cmd = andthen (execute cmd) (\<lambda>(code, out).
     if code = Some 0 then ret out else fail (ScanCommand (format_command cmd) code))"

definition git_run :: "string list \<Rightarrow> unit scanning" where
  "git_run cmd = andthen (execute cmd) (\<lambda>(code, out).
     if code = Some 0 then ret () else fail (ScanCommand (format_command cmd) code))"

definition output_allow_no_matches :: "string list \<Rightarrow> bytes scanning" where
  "output_allow_no_matches cmd = andthen (execute cmd) (\<lambda>(code, out).
     if code = Some 0 then ret out
     else if code = Some 1 \<and> out = [] then ret []
     else fail (ScanCommand (format_command cmd) code))"

definition utf8 :: "bytes \<Rightarrow> scan_error + string" where
  "utf8 bs = (if utf8_ok bs then Inr (text_of bs) else Inl ScanUtf8)"

section \<open>The scan\<close>

definition pointer_version :: string where
  "pointer_version = ''version https://git-lfs.github.com/spec/v1''"

text \<open>The body of the loop over the candidates: \<open>None\<close> for a file that is not a pointer.\<close>

definition parse_pointer :: "'m digest_deps_scheme \<Rightarrow> string \<Rightarrow> string \<Rightarrow> scan_error + object_oid option" where
  "parse_pointer D specification pointer =
     (case str_lines pointer of
        [] \<Rightarrow> Inr None
      | version_line # lines \<Rightarrow>
          if version_line \<noteq> pointer_version then Inr None
          else (case lines of
            oid_line # size_line # extra \<Rightarrow>
              if extra \<noteq> [] \<or> strip_prefix ''size '' size_line = None then Inl (Malformed specification)
              else res_bind (ok_or (Malformed specification) (strip_prefix ''oid sha256:'' oid_line)) (\<lambda>digest.
                map_err (\<lambda>_. Malformed specification) (res_bind (from_str D digest) (\<lambda>oid. Inr (Some oid))))
          | _ \<Rightarrow> Inl (Malformed specification)))"

fun parse_candidates :: "'m digest_deps_scheme \<Rightarrow> string \<Rightarrow> string list \<Rightarrow> object_oid list \<Rightarrow> object_oid list scanning" where
  "parse_candidates D mirror [] found = ret found"
| "parse_candidates D mirror (specification # rest) found =
     andthen (git_output [''git'', ''-C'', mirror, ''show'', specification]) (\<lambda>pointer.
     andthen (of_result (utf8 pointer)) (\<lambda>pointer.
     andthen (of_result (parse_pointer D specification pointer)) (\<lambda>oid.
     parse_candidates D mirror rest (case oid of None \<Rightarrow> found | Some oid \<Rightarrow> insort_insert oid found))))"

definition specifications :: "string \<Rightarrow> string list" where
  "specifications s = filter (\<lambda>line. \<not> blank line) (str_lines s)"

definition parse_pointer_candidates :: "'m digest_deps_scheme \<Rightarrow> string \<Rightarrow> bytes \<Rightarrow> object_oid list scanning" where
  "parse_pointer_candidates D mirror candidates =
     andthen (of_result (utf8 candidates)) (\<lambda>s. parse_candidates D mirror (specifications s) [])"

definition ref_names :: "string \<Rightarrow> string list" where
  "ref_names s = List.map_filter second_word (str_lines s)"

definition grep_command :: "string \<Rightarrow> string list \<Rightarrow> string list" where
  "grep_command mirror names = [''git'', ''-C'', mirror, ''grep'', ''-l'', ''-F'', pointer_version] @ names @ [''--'']"

record reachability_scan =
  ref_fingerprint :: string
  reachable_objects :: "object_oid list"

definition scan :: "'m digest_deps_scheme \<Rightarrow> string \<Rightarrow> reachability_scan scanning" where
  "scan D remote =
     andthen new_tempdir (\<lambda>directory. let mirror = directory @ ''/repository.git'' in
     andthen (git_run [''git'', ''clone'', ''--mirror'', remote, mirror]) (\<lambda>_.
     andthen (git_output [''git'', ''-C'', mirror, ''show-ref'']) (\<lambda>refs.
     andthen (of_result (utf8 refs)) (\<lambda>refs_text.
     andthen (output_allow_no_matches (grep_command mirror (ref_names refs_text))) (\<lambda>candidates.
     andthen (parse_pointer_candidates D mirror candidates) (\<lambda>found.
     ret \<lparr>ref_fingerprint = hex_encode D (as_bytes (sha256 D refs)), reachable_objects = found\<rparr>))))))"

section \<open>Pointer files\<close>

text \<open>
  Which files count as pointers.  A text is accepted for an identity exactly if its lines are the version line, an \<open>oid sha256:\<close>
  line whose rest parses as that identity, and a \<open>size\<close> line; a text with another first line is skipped; everything
  else that starts with the version line is an error, so that it cannot silently drop an object from a snapshot.
\<close>

theorem pointer_files_exact:
  "(parse_pointer D specification t = Inr (Some oid) \<longleftrightarrow>
      (\<exists>h n. str_lines t = [pointer_version, ''oid sha256:'' @ h, ''size '' @ n] \<and> from_str D h = Inr oid))
   \<and> (parse_pointer D specification t = Inr None \<longleftrightarrow> (\<forall>rest. str_lines t \<noteq> pointer_version # rest))"
  by (auto simp: parse_pointer_def ok_iff ok_or_def strip_prefix_Some strip_prefix_None split: list.splits option.splits)

section \<open>Complete scans\<close>

lemma execute_ok [run_ok]:
  "execute cmd w = (Inr x, w') \<longleftrightarrow> (\<exists>rest. replies w = Inr x # rest \<and> w' = w\<lparr>replies := rest, commands := commands w @ [cmd]\<rparr>)"
  by (auto simp: execute_def ok_iff split: list.splits)

lemma git_output_ok [run_ok]:
  "git_output cmd w = (Inr x, w') \<longleftrightarrow> (\<exists>rest. replies w = Inr (Some 0, x) # rest \<and> w' = w\<lparr>replies := rest, commands := commands w @ [cmd]\<rparr>)"
  by (auto simp: git_output_def run_ok split: if_splits)

lemma git_run_ok [run_ok]:
  "git_run cmd w = (Inr u, w') \<longleftrightarrow> (\<exists>x rest. replies w = Inr (Some 0, x) # rest \<and> w' = w\<lparr>replies := rest, commands := commands w @ [cmd]\<rparr>)"
  by (auto simp: git_run_def run_ok split: if_splits)

lemma output_allow_no_matches_ok [run_ok]:
  "output_allow_no_matches cmd w = (Inr x, w') \<longleftrightarrow>
     (\<exists>rest. (replies w = Inr (Some 0, x) # rest \<or> x = [] \<and> replies w = Inr (Some 1, []) # rest) \<and> w' = w\<lparr>replies := rest, commands := commands w @ [cmd]\<rparr>)"
  by (auto simp: output_allow_no_matches_def andthen_def execute_def ret_def fail_def ok_iff split: list.splits sum.splits if_splits)

lemma parse_candidates_run:
  assumes "parse_candidates D mirror specs found w = (Inr result, w')" "sorted found \<and> distinct found"
  shows "\<exists>texts. length texts = length specs \<and> replies w = map (\<lambda>t. Inr (Some 0, t)) texts @ replies w'
    \<and> commands w' = commands w @ map (\<lambda>s. [''git'', ''-C'', mirror, ''show'', s]) specs
    \<and> (\<forall>i < length specs. utf8_ok (texts ! i) \<and> (\<exists>oid. parse_pointer D (specs ! i) (text_of (texts ! i)) = Inr oid))
    \<and> set result = set found \<union> {oid. \<exists>i < length specs. parse_pointer D (specs ! i) (text_of (texts ! i)) = Inr (Some oid)}
    \<and> sorted result \<and> distinct result"
  using assms
proof (induction specs arbitrary: found w)
  case Nil
  then show ?case by (simp add: run_ok)
next
  case (Cons s specs)
  from Cons.prems(1) obtain t oid rest where t: "replies w = Inr (Some 0, t) # rest" "utf8_ok t" "parse_pointer D s (text_of t) = Inr oid"
    "parse_candidates D mirror specs (case oid of None \<Rightarrow> found | Some oid \<Rightarrow> insort_insert oid found)
       (w\<lparr>replies := rest, commands := commands w @ [[''git'', ''-C'', mirror, ''show'', s]]\<rparr>) = (Inr result, w')"
    by (auto simp: run_ok utf8_def split: if_splits)
  let ?found = "case oid of None \<Rightarrow> found | Some oid \<Rightarrow> insort_insert oid found"
  have "sorted ?found \<and> distinct ?found"
    using Cons.prems(2) by (auto simp: sorted_insort_insert distinct_insort_insert split: option.split)
  from Cons.IH [OF t(4) this] obtain texts where ts: "length texts = length specs" "rest = map (\<lambda>t. Inr (Some 0, t)) texts @ replies w'"
    "commands w' = commands w @ [''git'', ''-C'', mirror, ''show'', s] # map (\<lambda>s. [''git'', ''-C'', mirror, ''show'', s]) specs"
    "\<forall>i < length specs. utf8_ok (texts ! i) \<and> (\<exists>oid. parse_pointer D (specs ! i) (text_of (texts ! i)) = Inr oid)"
    "set result = set ?found \<union> {oid. \<exists>i < length specs. parse_pointer D (specs ! i) (text_of (texts ! i)) = Inr (Some oid)}"
    "sorted result" "distinct result" by auto
  have "{oid. \<exists>i < length (s # specs). parse_pointer D ((s # specs) ! i) (text_of ((t # texts) ! i)) = Inr (Some oid)}
    = (case oid of None \<Rightarrow> {} | Some o' \<Rightarrow> {o'}) \<union> {oid. \<exists>i < length specs. parse_pointer D (specs ! i) (text_of (texts ! i)) = Inr (Some oid)}"
    using t(3) by (auto simp: nth_Cons less_Suc_eq_0_disj split: option.splits)
  moreover have "set ?found = set found \<union> (case oid of None \<Rightarrow> {} | Some o' \<Rightarrow> {o'})"
    by (auto simp: set_insort_insert split: option.split)
  ultimately show ?case
    using t ts by (intro exI [of _ "t # texts"]) (auto simp: nth_Cons less_Suc_eq_0_disj)
qed

text \<open>
  Claim C36: a successful scan is complete.  Git cloned the remote, listed its refs and searched the trees of all listed refs, every
  candidate file it named was read, nothing failed on the way, and the result is the fingerprint of the listing with exactly
  the identities of the pointers among the candidates, sorted and without duplicates.
\<close>

theorem scan_complete:
  assumes "scan D remote w = (Inr s, w')"
  shows "\<exists>dir x refs cands texts specs.
    (replies w = Inr (Some 0, x) # Inr (Some 0, refs) # Inr (Some 0, cands) # map (\<lambda>t. Inr (Some 0, t)) texts @ replies w'
      \<or> replies w = Inr (Some 0, x) # Inr (Some 0, refs) # Inr (Some 1, []) # map (\<lambda>t. Inr (Some 0, t)) texts @ replies w' \<and> cands = [])
    \<and> specs = specifications (text_of cands) \<and> length texts = length specs
    \<and> commands w' = commands w @ [''git'', ''clone'', ''--mirror'', remote, dir @ ''/repository.git'']
        # [''git'', ''-C'', dir @ ''/repository.git'', ''show-ref'']
        # grep_command (dir @ ''/repository.git'') (ref_names (text_of refs))
        # map (\<lambda>sp. [''git'', ''-C'', dir @ ''/repository.git'', ''show'', sp]) specs
    \<and> ref_fingerprint s = hex_encode D (as_bytes (sha256 D refs))
    \<and> set (reachable_objects s) = {oid. \<exists>i < length specs. parse_pointer D (specs ! i) (text_of (texts ! i)) = Inr (Some oid)}
    \<and> sorted (reachable_objects s) \<and> distinct (reachable_objects s)"
proof -
  let ?m = "\<lambda>dir. dir @ ''/repository.git''"
  from assms obtain dir x refs cands found rest w1 where s:
    "replies w = Inr (Some 0, x) # Inr (Some 0, refs) # Inr (Some 0, cands) # rest
      \<or> cands = [] \<and> replies w = Inr (Some 0, x) # Inr (Some 0, refs) # Inr (Some 1, []) # rest"
    "parse_candidates D (?m dir) (specifications (text_of cands)) [] w1 = (Inr found, w')" "replies w1 = rest"
    "commands w1 = commands w @ [''git'', ''clone'', ''--mirror'', remote, ?m dir] # [''git'', ''-C'', ?m dir, ''show-ref'']
        # [grep_command (?m dir) (ref_names (text_of refs))]"
    "s = \<lparr>ref_fingerprint = hex_encode D (as_bytes (sha256 D refs)), reachable_objects = found\<rparr>"
    by (auto simp: scan_def Let_def run_ok new_tempdir_def ok_iff parse_pointer_candidates_def utf8_def split: if_splits)
  from parse_candidates_run [OF s(2)] obtain texts where
    "length texts = length (specifications (text_of cands))" "rest = map (\<lambda>t. Inr (Some 0, t)) texts @ replies w'"
    "commands w' = commands w1 @ map (\<lambda>sp. [''git'', ''-C'', ?m dir, ''show'', sp]) (specifications (text_of cands))"
    "set found = {oid. \<exists>i < length (specifications (text_of cands)). parse_pointer D (specifications (text_of cands) ! i) (text_of (texts ! i)) = Inr (Some oid)}"
    "sorted found" "distinct found" unfolding s(3) by auto
  then show ?thesis
    using s(1,4,5) by (intro exI [of _ dir] exI [of _ x] exI [of _ refs] exI [of _ cands] exI [of _ texts] exI [of _ "specifications (text_of cands)"]) auto
qed

section \<open>Witness\<close>

lemma utf8_ascii: "list_all ascii s \<Longrightarrow> utf8 (bytes_of_text s) = Inr s"
  by (simp add: utf8_def text_of_bytes utf8_ok_ascii)

definition demo_pointer :: string where
  "demo_pointer = pointer_version @ newline # (''oid sha256:'' @ to_string ref_digest_deps (digest_fill 9)) @ newline # ''size 32'' @ newline # []"

definition demo_processes :: processes where
  "demo_processes = \<lparr>tempdir = Inr ''/tmp/x'', replies = [Inr (Some 0, []), Inr (Some 0, bytes_of_text (''0a refs/heads/main'' @ newline # [])),
     Inr (Some 0, bytes_of_text (''refs/heads/main:big.bin'' @ newline # [])), Inr (Some 0, bytes_of_text demo_pointer)],
     commands = []\<rparr>"

lemma demo_texts:
  "list_all ascii (''0a refs/heads/main'' @ newline # [])" "list_all ascii (''refs/heads/main:big.bin'' @ newline # [])"
  by code_simp+

lemma demo_texts2: "list_all ascii (to_string ref_digest_deps (digest_fill 9)) \<and> list_all (\<lambda>c. c \<noteq> newline \<and> c \<noteq> CHR 0x0D) (to_string ref_digest_deps (digest_fill 9))"
  by code_simp

lemma demo_lines:
  "str_lines (''0a refs/heads/main'' @ newline # []) = [''0a refs/heads/main'']"
  "str_lines (''refs/heads/main:big.bin'' @ newline # []) = [''refs/heads/main:big.bin'']"
  by code_simp+

lemma demo_pointer_facts: "list_all ascii demo_pointer" "parse_pointer ref_digest_deps spec demo_pointer = Inr (Some (digest_fill 9))"
proof -
  let ?h = "to_string ref_digest_deps (digest_fill 9)"
  have fixed: "list_all ascii pointer_version" "list_all ascii ''oid sha256:''" "list_all ascii ''size 32''" "ascii newline"
    "newline \<notin> set pointer_version" "newline \<notin> set ''oid sha256:''" "newline \<notin> set ''size 32''"
    "strip_cr pointer_version = pointer_version" "strip_cr ''size 32'' = ''size 32''"
    by code_simp+
  show "list_all ascii demo_pointer" using fixed demo_texts2 by (simp add: demo_pointer_def)
  have h: "newline \<notin> set (''oid sha256:'' @ ?h)" "CHR 0x0D \<notin> set (''oid sha256:'' @ ?h)"
    using demo_texts2 fixed by (auto simp: list_all_iff)
  then have "strip_cr (''oid sha256:'' @ ?h) = ''oid sha256:'' @ ?h"
    unfolding strip_cr_def using last_in_set by metis
  then have "str_lines demo_pointer = [pointer_version, ''oid sha256:'' @ ?h, ''size '' @ ''32'']"
    unfolding str_lines_def demo_pointer_def lines_from_line [OF fixed(5)] lines_from_line [OF h(1)] lines_from_line [OF fixed(7)]
    using fixed(8,9) by simp
  then show "parse_pointer ref_digest_deps spec demo_pointer = Inr (Some (digest_fill 9))"
    by (simp add: parse_pointer_def strip_prefix_def ok_or_def from_str_to_string)
qed

lemma demo_scan: "fst (scan ref_digest_deps ''git://h/r'' demo_processes) =
    Inr \<lparr>ref_fingerprint = hex_encode ref_digest_deps (as_bytes (sha256 ref_digest_deps (bytes_of_text (''0a refs/heads/main'' @ newline # [])))),
      reachable_objects = [digest_fill 9]\<rparr>"
proof -
  have u: "utf8 (bytes_of_text (''0a refs/heads/main'' @ newline # [])) = Inr (''0a refs/heads/main'' @ newline # [])"
    "utf8 (bytes_of_text (''refs/heads/main:big.bin'' @ newline # [])) = Inr (''refs/heads/main:big.bin'' @ newline # [])"
    "utf8 (bytes_of_text demo_pointer) = Inr demo_pointer"
    by (rule utf8_ascii, rule demo_texts demo_pointer_facts)+
  have s: "specifications (''refs/heads/main:big.bin'' @ newline # []) = [''refs/heads/main:big.bin'']"
    unfolding specifications_def demo_lines by code_simp
  show ?thesis
    unfolding scan_def demo_processes_def new_tempdir_def
    by (simp only: andthen_def Let_def map_err_simps prod.case sum.case processes.select_convs git_run_def git_output_def execute_def
        list.case of_result_def u output_allow_no_matches_def parse_pointer_candidates_def s parse_candidates.simps processes.update_convs
        demo_pointer_facts ret_def if_True refl option.case)
      (simp add: insort_insert_key_def)
qed

theorem scan_complete_witness:
  "\<exists>s. fst (scan ref_digest_deps ''git://h/r'' demo_processes) = Inr s \<and> reachable_objects s = [digest_fill 9] \<and> sorted (reachable_objects s)"
proof -
  let ?r = "scan ref_digest_deps ''git://h/r'' demo_processes"
  obtain s where s: "fst ?r = Inr s" "reachable_objects s = [digest_fill 9]" using demo_scan by simp
  then have "?r = (Inr s, snd ?r)" by (metis prod.collapse)
  from scan_complete [OF this] have "sorted (reachable_objects s)" by blast
  then show ?thesis using s by blast
qed

end
