(* ===== verification/AdminMain.thy ===== *)
theory AdminMain
  imports Launch Reconcile
begin

text \<open>
  \<open>main\<close> of \<open>crates/git-lfs-delta-server/src/bin/git-lfs-delta-admin.rs\<close> around the commands of theory \<open>Admin\<close>: the health check, the settings, the connections, the
  order in which they are made, the scan behind \<open>Reconcile\<close>, and what is printed.  Libraries that connect or parse are parameters.  The theorem shows that
  the database and the store are only touched by a command whose settings are present and whose schema check has succeeded.
\<close>

record ('s, 'j) admin_deps =
  admin_server :: "('s, 'j) server_deps"
  admin_migrator :: "'j migrator"
  admin_client :: "string + unit"
  admin_get :: "string \<Rightarrow> string + nat"
  admin_connect :: "string \<Rightarrow> string + unit"
  admin_url :: "string \<Rightarrow> string + string"
  admin_store :: "string \<Rightarrow> string + unit"
  admin_processes :: processes
  exit_status_text :: "int option \<Rightarrow> string"
  utf8_error_text :: string
  admin_rounds :: nat

datatype admin_call = Healthcheck string | Administer admin_command

datatype admin_failure =
    HealthFailed string
  | HealthStatus nat
  | AdminSetting launch_error
  | AdminConnect string
  | AdminUrl string
  | AdminStore string
  | AdminFailed admin_error

text \<open>The request of \<open>Healthcheck\<close>: every status but 4xx and 5xx is success.\<close>

definition healthcheck_command :: "('s, 'j) admin_deps \<Rightarrow> string \<Rightarrow> admin_failure + unit" where
  "healthcheck_command P url =
     res_bind (map_err HealthFailed (admin_client P)) (\<lambda>_.
     res_bind (map_err HealthFailed (admin_get P url)) (\<lambda>st.
     if 400 \<le> st \<and> st < 600 then Inl (HealthStatus st) else Inr ()))"

text \<open>The texts of \<open>ScanError\<close>; those of the standard library's \<open>ExitStatus\<close> and \<open>Utf8Error\<close> are parameters.\<close>

fun scan_error_to_string :: "('s, 'j) admin_deps \<Rightarrow> scan_error \<Rightarrow> string" where
  "scan_error_to_string P (ScanIo e) = ''reachability scan I/O failed: '' @ e"
| "scan_error_to_string P (ScanCommand program st) = ''reachability command `'' @ program @ ''` failed with '' @ exit_status_text P st"
| "scan_error_to_string P ScanUtf8 = ''reachability output was not UTF-8: '' @ utf8_error_text P"
| "scan_error_to_string P (Malformed line) = ''malformed Git LFS listing line: '' @ line"

text \<open>\<open>reconcile::scan\<close> on a blocking thread; its error is carried on as its text.\<close>

definition scan_remote :: "('s, 'j) admin_deps \<Rightarrow> string \<Rightarrow> string + (string \<times> object_oid list)" where
  "scan_remote P git_url = (case fst (scan (admin_server P) git_url (admin_processes P)) of
       Inl e \<Rightarrow> Inl (scan_error_to_string P e)
     | Inr s \<Rightarrow> Inr (ref_fingerprint s, reachable_objects s))"

text \<open>The commands that open the object store.\<close>

fun needs_store :: "admin_command \<Rightarrow> bool" where
  "needs_store (GcCollect r) \<longleftrightarrow> True"
| "needs_store (UploadsReclaim r g) \<longleftrightarrow> True"
| "needs_store c \<longleftrightarrow> False"

definition open_store :: "('s, 'j) admin_deps \<Rightarrow> (string \<Rightarrow> variable) \<Rightarrow> admin_failure + unit" where
  "open_store P env =
     res_bind (map_err AdminSetting (required env ''GIT_LFS_DELTA_STORAGE_URL'')) (\<lambda>raw.
     res_bind (map_err AdminUrl (admin_url P raw)) (\<lambda>url.
     map_err AdminStore (admin_store P url)))"

definition admin_main ::
  "('s, 'j) admin_deps \<Rightarrow> (string \<Rightarrow> variable) \<Rightarrow> admin_call \<Rightarrow> (('s, 'j) world, admin_failure, admin_output) action" where
  "admin_main P env call = (case call of
       Healthcheck url \<Rightarrow> andthen (of_result (healthcheck_command P url)) (\<lambda>_. ret Silent)
     | Administer c \<Rightarrow>
         andthen (of_result (map_err AdminSetting (required env ''GIT_LFS_DELTA_DATABASE_URL''))) (\<lambda>database_url.
         andthen (of_result (map_err AdminConnect (admin_connect P database_url))) (\<lambda>_.
         if admin_schema_command c then on_err AdminFailed (run_schema_command (admin_migrator P) c)
         else
           andthen (on_err (AdminFailed \<circ> AdminSchema) (schema_check (admin_migrator P))) (\<lambda>_.
           andthen (if needs_store c then of_result (open_store P env) else ret ()) (\<lambda>_.
           on_err AdminFailed (run_command (admin_server P) (scan_remote P) (admin_rounds P) c))))))"

section \<open>Output\<close>

text \<open>\<open>Display\<close> of \<open>i64\<close>.\<close>

definition show_int :: "int \<Rightarrow> string" where
  "show_int i = (if i < 0 then ''-'' @ show_nat (nat (- i)) else show_nat (nat i))"

definition print_schema_status :: "schema_status \<Rightarrow> string" where
  "print_schema_status st = ''applied='' @ show_int (applied_version st) @ '' target='' @ show_int (target_version st)
     @ '' pending='' @ show_nat (pending st) @ '' newer='' @ show_nat (newer st)"

fun output_lines :: "('s, 'j) server_deps \<Rightarrow> admin_output \<Rightarrow> string list" where
  "output_lines D (SchemaLine st) = [print_schema_status st]"
| "output_lines D (RepositoryLine i) = [uuid_to_string D i]"
| "output_lines D Silent = []"
| "output_lines D (EpochLine e n) = [''epoch '' @ uuid_to_string D e @ '': '' @ show_nat n @ '' reachable objects'']"
| "output_lines D (CandidateLines cs) = map (\<lambda>c. to_string D (cand_oid c) @ [CHR 0x09] @ show_nat (unat (cand_size c))) cs"
| "output_lines D (StagedLine n) = [''staged '' @ show_nat n @ '' objects'']"
| "output_lines D (DeletedLine n) = [''deleted '' @ show_nat (unat n) @ '' objects'']"
| "output_lines D (ReclaimedLine n) = [''reclaimed '' @ show_nat n @ '' expired upload sessions'']"

section \<open>Failing closed\<close>

text \<open>A command of the binary is the command of theory \<open>Admin\<close> once its settings are present.\<close>

lemma admin_main_settled:
  assumes "required env ''GIT_LFS_DELTA_DATABASE_URL'' = Inr d" "admin_connect P d = Inr ()" "needs_store c \<Longrightarrow> open_store P env = Inr ()"
  shows "admin_main P env (Administer c) = on_err AdminFailed (admin (admin_server P) (admin_migrator P) (scan_remote P) (admin_rounds P) c)"
proof (rule ext)
  fix w
  show "admin_main P env (Administer c) w = on_err AdminFailed (admin (admin_server P) (admin_migrator P) (scan_remote P) (admin_rounds P) c) w"
    using assms
    by (auto simp: admin_main_def admin_def andthen_of_result andthen_def on_err_def ret_def of_result_def comp_def map_err_def
        split: prod.splits sum.splits)
qed


text \<open>Who touches the database or the store.\<close>

lemma keeps_quiet_world:
  assumes "\<And>d. keeps (holds ((=) d)) m" "\<And>s. keeps (store_is s) m" "quiet w" "m w = (r, w')"
  shows "db w' = db w \<and> store w' = store w"
  using keeps_dbD [OF assms(1,3,4)] keeps_storeD [OF assms(2,4)] by simp

lemma schema_command_reads:
  assumes "admin_schema_command c" "c \<noteq> Migrate"
  shows "keeps (holds P) (run_schema_command M c)" "keeps (store_is s) (run_schema_command M c)"
  using assms unfolding run_schema_command_def by (auto intro!: keeps_intros)

lemma open_store_ok:
  "open_store P env = Inr () \<longleftrightarrow> (\<exists>raw store_url. env ''GIT_LFS_DELTA_STORAGE_URL'' = Present raw \<and> trim raw \<noteq> []
     \<and> admin_url P raw = Inr store_url \<and> admin_store P store_url = Inr ())"
  unfolding open_store_def res_bind_ok_iff map_err_ok_iff required_ok by blast

text \<open>What stands between a command and its effects.\<close>

lemma gated_command:
  assumes "quiet w" "andthen (on_err g (schema_check M)) (\<lambda>_. andthen (if need then of_result opened else ret ()) (\<lambda>_. m)) w = (r, w')"
    "db w' \<noteq> db w \<or> store w' \<noteq> store w"
  shows "(\<exists>st w1. schema_check M w = (Inr st, w1) \<and> db w1 = db w) \<and> (need \<longrightarrow> opened = Inr ())"
proof -
  obtain c w1 where c: "schema_check M w = (c, w1)" by force
  have "keeps (holds ((=) d)) (schema_check M)" "keeps (store_is s) (schema_check M)" for d s by (intro keeps_intros)+
  from keeps_quiet_world [OF this assms(1) c] have "db w1 = db w" "store w1 = store w" by simp_all
  with assms(2,3) c show ?thesis
    by (cases c; cases opened; cases need) (auto simp: andthen_def on_err_def of_result_def ret_def)
qed

text \<open>
  Claim C39: administration fails closed.  When the binary has changed the database or the store, the call was a command (never the health check), the database URL was set and the
  database reached; the command was \<open>Migrate\<close>, or one behind a schema check that succeeded on the database as it was; and when it may delete chunks,
  the object store had been configured and opened.
\<close>

theorem administration_fails_closed:
  assumes "quiet w" "admin_main P env call w = (r, w')" "db w' \<noteq> db w \<or> store w' \<noteq> store w"
  shows "\<exists>c url. call = Administer c \<and> env ''GIT_LFS_DELTA_DATABASE_URL'' = Present url \<and> trim url \<noteq> [] \<and> admin_connect P url = Inr ()
    \<and> (c = Migrate \<or> (\<exists>st w1. schema_check (admin_migrator P) w = (Inr st, w1) \<and> db w1 = db w) \<and> \<not> admin_schema_command c
         \<and> (needs_store c \<longrightarrow> (\<exists>raw store_url. env ''GIT_LFS_DELTA_STORAGE_URL'' = Present raw \<and> trim raw \<noteq> []
              \<and> admin_url P raw = Inr store_url \<and> admin_store P store_url = Inr ())))"
proof (cases call)
  case (Healthcheck url)
  then show ?thesis using assms(2,3) by (auto simp: admin_main_def andthen_def of_result_def ret_def split: sum.splits)
next
  case (Administer c)
  let ?body = "if admin_schema_command c then on_err AdminFailed (run_schema_command (admin_migrator P) c)
         else andthen (on_err (AdminFailed \<circ> AdminSchema) (schema_check (admin_migrator P))) (\<lambda>_.
           andthen (if needs_store c then of_result (open_store P env) else ret ()) (\<lambda>_.
           on_err AdminFailed (run_command (admin_server P) (scan_remote P) (admin_rounds P) c)))"
  obtain url where "required env ''GIT_LFS_DELTA_DATABASE_URL'' = Inr url" and con: "admin_connect P url = Inr ()" and run: "?body w = (r, w')"
    using assms(2,3) Administer
    by (cases "required env ''GIT_LFS_DELTA_DATABASE_URL''"; cases "admin_connect P (projr (required env ''GIT_LFS_DELTA_DATABASE_URL''))")
      (auto simp: admin_main_def andthen_def of_result_def map_err_def split: if_splits)
  then have url: "env ''GIT_LFS_DELTA_DATABASE_URL'' = Present url" "trim url \<noteq> []" "admin_connect P url = Inr ()"
    by (simp_all add: required_ok)
  show ?thesis
  proof (cases "c = Migrate")
    case True
    then show ?thesis using Administer url by blast
  next
    case other: False
    have c: "\<not> admin_schema_command c"
    proof
      assume c: "admin_schema_command c"
      have k: "keeps (holds ((=) d)) (on_err AdminFailed (run_schema_command (admin_migrator P) c))" "keeps (store_is s) (on_err AdminFailed (run_schema_command (admin_migrator P) c))" for d s
        by (intro keeps_intros schema_command_reads [OF c other])+
      from run c have "on_err AdminFailed (run_schema_command (admin_migrator P) c) w = (r, w')" by (simp only: if_True)
      from keeps_quiet_world [OF k assms(1) this] assms(3) show False by blast
    qed
    with run have "andthen (on_err (AdminFailed \<circ> AdminSchema) (schema_check (admin_migrator P))) (\<lambda>_.
        andthen (if needs_store c then of_result (open_store P env) else ret ()) (\<lambda>_.
        on_err AdminFailed (run_command (admin_server P) (scan_remote P) (admin_rounds P) c))) w = (r, w')"
      by (simp only: if_False)
    from gated_command [OF assms(1) this assms(3)]
    show ?thesis using Administer url c unfolding open_store_ok by blast
  qed
qed

section \<open>Witness\<close>

definition demo_admin :: "(mem_store, object_manifest) admin_deps" where
  "demo_admin = \<lparr>admin_server = demo_deps, admin_migrator = demo_migrator, admin_client = Inr (), admin_get = (\<lambda>_. Inr 200), admin_connect = (\<lambda>_. Inr ()),
     admin_url = Inr, admin_store = (\<lambda>_. Inr ()), admin_processes = demo_processes, exit_status_text = (\<lambda>_. ''exit status: 1''), utf8_error_text = ''invalid utf-8 sequence'', admin_rounds = 1\<rparr>"

lemma demo_admin_changes:
  "db (snd (admin_main demo_admin demo_environment (Administer (RepositoryAdd ''o'' ''s'' 6)) migrated_world)) \<noteq> db migrated_world"
proof -
  have t: "trim ''db'' \<noteq> []" by code_simp
  have r: "required demo_environment ''GIT_LFS_DELTA_DATABASE_URL'' = Inr ''db''" by (simp add: required_def demo_environment_def t)
  obtain st w1 where c: "schema_check demo_migrator migrated_world = (Inr st, w1)" using demo_schema_ok by blast
  have s: "db_script w1 = []" "db w1 = db migrated_world"
    using c by (auto simp: schema_check_def schema_status_of_def run_defs migrated_world_def select_history_exists_def select_history_def split: sum.splits if_splits)
  have i: "insert_repository 6 ''o'' ''s'' now (db migrated_world) =
      Inr (6, (db migrated_world)\<lparr>repositories := repositories (db migrated_world) @ [\<lparr>repo_id = 6, repo_owner = ''o'', repo_name = ''s''\<rparr>]\<rparr>)" for now
    by (simp add: insert_repository_def migrated_world_def demo_repositories_def empty_database_def enforce_def schema_defs)
  have "repositories (db (snd (admin_main demo_admin demo_environment (Administer (RepositoryAdd ''o'' ''s'' 6)) migrated_world)))
      \<noteq> repositories (db migrated_world)"
    using s i
    by (simp add: admin_main_def r demo_admin_def admin_schema_command_def andthen_def of_result_def ret_def on_err_def c
        exec_pool_def take_event_def)
  then show ?thesis by metis
qed

theorem administration_fails_closed_witness:
  "\<exists>st w1. schema_check demo_migrator migrated_world = (Inr st, w1) \<and> db w1 = db migrated_world"
proof -
  let ?r = "admin_main demo_admin demo_environment (Administer (RepositoryAdd ''o'' ''s'' 6)) migrated_world"
  have "quiet migrated_world" by (simp add: quiet_def migrated_world_def)
  from administration_fails_closed [OF this, of demo_admin demo_environment "Administer (RepositoryAdd ''o'' ''s'' 6)" "fst ?r" "snd ?r"]
    demo_admin_changes
  show ?thesis by (auto simp: demo_admin_def)
qed

end
