(* ===== verification/Spec2Isabelle.thy ===== *)
theory Spec2Isabelle
  imports Refinement EndToEnd Responses Cli Shutdown Xtask
begin

text \<open>
  A verification development of git-lfs-delta, a Git LFS service and client that store and transfer large files as
  content-defined chunks.

  \<^bold>\<open>The program\<close> (workspace \<open>crates/\<close>).  \<open>git-lfs-delta-core\<close> has the identities (SHA-256 of objects, BLAKE3 of chunks), the
  manifest of an object with its validator, and the stream that cuts a reader into chunks.  \<open>git-lfs-delta-storage\<close> keeps
  repository-scoped, immutable, verified chunks in an object store.  \<open>git-lfs-delta-server\<close> is an HTTP service over a PostgreSQL
  catalogue and a chunk store: authentication, upload sessions, publication, downloads, file locks, garbage collection and an
  administrative binary.  \<open>git-lfs-delta-client\<close> is a Git LFS custom transfer agent: a line protocol with Git LFS on one side,
  HTTP requests with retries, a verified chunk cache and two worker pools on the other.

  \<^bold>\<open>Theories and sources.\<close>
  \<^item> \<open>Prelude\<close>: machine integers, Rust's \<open>Result\<close> and \<open>Option\<close> combinators, checked arithmetic, decimal display, list lemmas.
    \<open>Utf8\<close>: the parts of \<open>str\<close> and \<open>env\<close> used by the programs.  \<open>Action\<close>: fallible computations over a world, with the \<open>?\<close>
    operator as \<open>andthen\<close>; effects before an error stay.
  \<^item> \<open>Digest\<close>, \<open>Manifest\<close>, \<open>Stream\<close>: \<open>core/src/digest.rs\<close>, \<open>profile.rs\<close>, \<open>manifest.rs\<close>, \<open>stream.rs\<close>.  Shown: the text form of a digest
    round-trips; \<open>validate\<close> accepts exactly the well-formed manifests, reports the first defect, and an accepted manifest covers
    each byte once; \<open>finish\<close> returns a valid manifest of the source.
  \<^item> \<open>Storage\<close>: \<open>storage/src/lib.rs\<close>.  The locale \<open>object_store\<close> states what the provider documents, the locale \<open>chunk_store\<close> what
    \<open>ChunkStore\<close> promises to the server; the former gives the latter.
  \<^item> \<open>Schema\<close>, \<open>World\<close>: the tables and constraints of \<open>server/migrations/\<close>, the SQL statements as functions on them, and the world
    of a running server.  \<open>Auth\<close>, \<open>Uploads\<close>, \<open>Downloads\<close>, \<open>Locks\<close>: the handlers of \<open>server/src/lib.rs\<close>.  \<open>Gc\<close>: \<open>server/src/gc.rs\<close>.  \<open>Admin\<close>: schema
    checks of \<open>lib.rs\<close> and the commands of \<open>bin/git-lfs-delta-admin.rs\<close>.  \<open>Reconcile\<close>: \<open>reconcile.rs\<close>.
  \<^item> \<open>Launch\<close>: \<open>main.rs\<close> up to \<open>axum::serve\<close>: the server listens only behind a successful schema check and configured authentication.  \<open>Shutdown\<close>: \<open>main.rs\<close> from
    the shutdown channel on, the tasks that wait for signals, subscribe, drain the listener and enforce the deadline as a step relation over a clock: a process that has
    received its request to stop ends within 30 seconds, drained, at the deadline or by a failure of the server; a request sent before \<open>main\<close> has subscribed is lost.  \<open>AdminMain\<close>: \<open>main\<close> of the administrative binary around the commands: settings, connections, health check, scan and printed lines; it fails
    closed.  \<open>Xtask\<close>: \<open>crates/xtask/src/main.rs\<close>: tasks run in order and stop at the first failure; the release check is exact; the development environment configures
    the two binaries.
  \<^item> \<open>Catalog\<close>, \<open>Integrity\<close>, \<open>Publication\<close>, \<open>Collection\<close>: lemmas on top of the handlers: the catalogue invariant (constraints, exact
    reference counts, objects linked to the chunks of their manifests) is preserved by every operation in every outcome; reads
    return only verified bytes; publication is atomic and follows verification; what staging, collection and draining may delete.
    \<open>Demo\<close>: a concrete deployment on which the properties are exercised.
  \<^item> \<open>System\<close>: \<open>build_router\<close> and the states a deployment can reach; the invariants lifted to them.  \<open>Refinement\<close>: the service
    refines a map from (repository, identity) to content.  \<open>Responses\<close>: the rendering of errors and the type of the service: every request is answered by a response of its kind
    or by an error with an intended status, and internal errors carry fixed texts only.
  \<^item> \<open>Protocol\<close>: \<open>client/src/transfer.rs\<close>.  \<open>Client\<close>: requests, retries and the chunk cache of \<open>client/src/backend.rs\<close>.  \<open>Pool\<close>: the
    locale \<open>worker_pool\<close>, interpreted by \<open>UploadPool\<close> and \<open>DownloadPool\<close>, which model \<open>HttpBackend::upload\<close> and \<open>HttpBackend::download\<close> with their threads
    and bounded channels: every schedule ends, none is stuck, and a reported success has done its work.  \<open>Cli\<close>: \<open>client/src/main.rs\<close> and
    the settings of the backend.
  \<^item> \<open>EndToEnd\<close>: the transfer process, its backend and the server together: over a whole run of the line protocol, what the process reports as uploaded was published
    in a state the server has passed through, and what it reports as downloaded has the requested SHA-256 and size.

  \<^bold>\<open>How state and effects are modelled.\<close>  A handler is an action on the record \<open>world\<close>: the database, the provider state of the chunk
  store, the authorization cache, counters and clocks.  Everything the environment decides is scripted in the world:
  database failures, lost acknowledgements, delays, transactions of other processes, file errors, Forgejo's answers.  A
  transaction is atomic; other processes' transactions happen at its begin and at statements on the pool.  Properties that
  need that nobody else writes in between assume \<open>quiet\<close>; \<open>reachable_catalog\<close> needs only that others preserve the invariant.
  Offsets, sizes and lengths are words of the source's width; \<open>usize\<close> counts are natural numbers.  Texts are lists of UTF-8 bytes, and white space is
  that of Unicode in its UTF-8 encoding.  Errors are values; every early return of the sources is a branch.  Pools are step relations in which a
  step is one channel operation or one completed request; the requests of a worker meet the network in any state.

  \<^bold>\<open>Code outside the repository\<close> is a parameter: the records \<open>digest_deps\<close>, \<open>core_deps\<close>, \<open>storage_deps\<close>, \<open>server_deps\<close>,
  \<open>client_deps\<close>, \<open>launch_deps\<close>, \<open>admin_deps\<close> and \<open>cli_deps\<close> hold the functions of the hash, FastCDC, JSON, JWT, URL, HTTP and object-store libraries and of the operating
  system.  What the code relies on is a named hypothesis (\<open>hex_crate\<close>: what the two functions of \<open>hex\<close> compute each for itself, from which \<open>hex_codec\<close>, their round trip, is proved, \<open>object_store\<close>, \<open>json_roundtrip\<close>, \<open>cdc_ok\<close>, \<open>cdc_reports_errors\<close>,
  \<open>connected\<close>: the network carries the history of the service, and a successful answer means that the service has served the call since it was sent, \<open>backed_by\<close>: successes
  of the line protocol's backend are runs of the HTTP backend, \<open>leads_to_finalization\<close>: the action of an upload leads to the finalization endpoint of its object), and every property has a witness in which concrete functions satisfy it.  BLAKE3 is assumed free of collisions only on a set \<open>U\<close> of byte
  strings from which the uploaded chunks come, SHA-256 only on the texts from which the keys of the Forgejo authorization cache are computed.

  \<^bold>\<open>Fuel.\<close>  Only the loop of \<open>collect_due\<close> carries fuel, since other processes may add due tombstones for ever; without them
  \<open>collect_due_terminates\<close> shows that one round more than there are tombstones is enough.  All other loops terminate by structure or
  by a measure.

  \<^bold>\<open>Not modelled.\<close>  The extraction of paths, queries, JSON bodies and body limits by axum (a request reaches the model decoded),
  request identifiers and tracing; the interleaving of two requests inside a handler, except at the places named above; the argument parsers; the construction
  of the object-store client; \<open>shutdown_signal\<close> on systems other than Unix; the runtime of \<open>Shutdown\<close> is taken to be prompt (time passes only when no
  task can go on); the shell scripts of the repository and the Docker files.  What is left of the Rust sources are imports, documentation, derived instances and tests.
\<close>

end
